(* ===== verification/Tftp_Prelude.thy ===== *)
theory Tftp_Prelude
  imports Main "HOL-Library.Word"
begin

text \<open>
  Prelude of the development: the machine integers of the C code as word types, byte
  strings, the array helpers (\<open>memcpy_at\<close>, \<open>first_index\<close>) that the C loops translate to,
  and their generic lemmas.  Two collections drive the component proofs:
  \<open>tftp_defs\<close> holds the definitions that are opened when an operation is evaluated, and
  \<open>frame_simps\<close> the facts saying which part of the state an operation leaves alone.
\<close>

unbundle bit_operations_syntax

named_theorems tftp_defs "definitions unfolded to evaluate an operation"
named_theorems frame_simps "parts of the state an operation leaves unchanged"

section \<open>Machine types\<close>

type_synonym u8 = "8 word"
type_synonym u16 = "16 word"
type_synonym u32 = "32 word"
type_synonym u64 = "64 word"

text \<open>
  A pointer to an element of a static pool is its index, NULL is \<open>None\<close>.  A pointer to a
  caller's variable is the variable's content, again with \<open>None\<close> for NULL.
\<close>

type_synonym ptr = "nat option"

type_synonym bytes = "u8 list"

section \<open>C strings\<close>

text \<open>A string literal of the C source as its bytes (without the terminating NUL).\<close>

definition cstr :: "string \<Rightarrow> bytes" where
  "cstr s = map of_char s"

lemma length_cstr [simp]: "length (cstr s) = length s"
  by (simp add: cstr_def)

text \<open>The string that starts at the beginning of a byte array: the bytes before its first NUL.\<close>

definition c_string :: "bytes \<Rightarrow> bytes" where
  "c_string b = takeWhile (\<lambda>c. c \<noteq> 0) b"

definition strlen :: "bytes \<Rightarrow> nat" where
  "strlen b = length (c_string b)"

lemma c_string_no_nul: "0 \<notin> set (c_string b)"
  using set_takeWhileD by (fastforce simp: c_string_def)

lemma c_string_append_nul [simp]: "0 \<notin> set s \<Longrightarrow> c_string (s @ 0 # r) = s"
  unfolding c_string_def by (subst takeWhile_append2) auto

lemma c_string_id: "0 \<notin> set s \<Longrightarrow> c_string s = s"
  unfolding c_string_def by (auto intro!: takeWhile_eq_all_conv [THEN iffD2])

section \<open>Arrays\<close>

text \<open>\<open>memcpy(&dst[off], src, length src)\<close> for a destination that is large enough.\<close>

definition memcpy_at :: "nat \<Rightarrow> bytes \<Rightarrow> bytes \<Rightarrow> bytes" where
  "memcpy_at off src dst = take off dst @ src @ drop (off + length src) dst"

lemma length_memcpy_at [simp]:
  "off + length src \<le> length dst \<Longrightarrow> length (memcpy_at off src dst) = length dst"
  by (simp add: memcpy_at_def)

lemma memcpy_at_0: "memcpy_at 0 src dst = src @ drop (length src) dst"
  by (simp add: memcpy_at_def)

lemma take_memcpy_at_0 [simp]: "take (length src) (memcpy_at 0 src dst) = src"
  by (simp add: memcpy_at_0)

text \<open>Appending one block after another in the same buffer.\<close>

lemma memcpy_at_append:
  assumes "off + length a + length b \<le> length dst"
  shows "memcpy_at (off + length a) b (memcpy_at off a dst) = memcpy_at off (a @ b) dst"
  using assms by (simp add: memcpy_at_def ac_simps)

text \<open>\<open>snprintf(dst, sizeof(dst), "%s", text)\<close> into a non-empty array: cut to fit, NUL terminated.\<close>

definition snprintf_to :: "bytes \<Rightarrow> bytes \<Rightarrow> bytes" where
  "snprintf_to dst text = memcpy_at 0 (take (length dst - 1) text @ [0]) dst"

lemma length_snprintf_to [simp]: "dst \<noteq> [] \<Longrightarrow> length (snprintf_to dst text) = length dst"
  by (cases dst) (simp_all add: snprintf_to_def)

lemma c_string_snprintf_to:
  assumes "0 \<notin> set text" "length text < length dst"
  shows "c_string (snprintf_to dst text) = text"
  using assms by (simp add: snprintf_to_def memcpy_at_0)

text \<open>The content of a variable through a pointer that is known to be non-NULL.\<close>

definition deref :: "'a \<Rightarrow> 'a option \<Rightarrow> 'a" where
  "deref d p = (case p of None \<Rightarrow> d | Some x \<Rightarrow> x)"

lemma deref_simps [simp]: "deref d None = d" "deref d (Some x) = x"
  by (simp_all add: deref_def)

text \<open>
  The search loops \<open>for (i = 0; i < N; ++i) if (P (pool[i])) ... return\<close>: the lowest index
  whose element satisfies the test.
\<close>

fun first_index :: "('a \<Rightarrow> bool) \<Rightarrow> 'a list \<Rightarrow> nat option" where
  "first_index P [] = None"
| "first_index P (x # xs) = (if P x then Some 0 else map_option Suc (first_index P xs))"

lemma first_index_None_iff: "first_index P xs = None \<longleftrightarrow> (\<forall>x\<in>set xs. \<not> P x)"
  by (induction xs) auto

lemma first_index_Some_iff:
  "first_index P xs = Some i \<longleftrightarrow> i < length xs \<and> P (xs ! i) \<and> (\<forall>j<i. \<not> P (xs ! j))"
proof (induction xs arbitrary: i)
  case Nil
  then show ?case by simp
next
  case (Cons x xs)
  show ?case by (cases i) (auto simp: Cons.IH nth_Cons' less_Suc_eq_0_disj)
qed

lemma first_index_lt: "first_index P xs = Some i \<Longrightarrow> i < length xs"
  by (simp add: first_index_Some_iff)

lemma first_index_holds: "first_index P xs = Some i \<Longrightarrow> P (xs ! i)"
  by (simp add: first_index_Some_iff)

lemma first_index_map: "first_index P (map f xs) = first_index (P \<circ> f) xs"
  by (induction xs) auto

section \<open>Lists\<close>

lemma map_list_update_same:
  "i < length xs \<Longrightarrow> f y = f (xs ! i) \<Longrightarrow> map f (xs[i := y]) = map f xs"
  by (simp add: map_update list_update_same_conv)

lemma nth_list_update_if:
  "i < length xs \<Longrightarrow> xs[i := y] ! j = (if i = j then y else xs ! j)"
  by (simp add: nth_list_update)

lemma length_filter_update:
  assumes "i < length xs"
  shows "length (filter P (xs[i := y])) + (if P (xs ! i) then 1 else 0) =
    length (filter P xs) + (if P y then 1 else 0)"
  using assms
proof (induction xs arbitrary: i)
  case Nil
  then show ?case by simp
next
  case (Cons x xs)
  then show ?case by (cases i) auto
qed

section \<open>Ownership tables\<close>

text \<open>
  A list of optional resources: entry \<open>i\<close> is what slot \<open>i\<close> of a pool holds.  \<open>held\<close> is the set
  of all held resources, \<open>exclusive\<close> says that no resource is held twice.
\<close>

definition held :: "'a option list \<Rightarrow> 'a set" where
  "held l = {x. Some x \<in> set l}"

definition exclusive :: "'a option list \<Rightarrow> bool" where
  "exclusive l \<longleftrightarrow> (\<forall>i<length l. \<forall>j<length l. i \<noteq> j \<and> l ! i = l ! j \<longrightarrow> l ! i = None)"

lemma heldI: "i < length l \<Longrightarrow> l ! i = Some x \<Longrightarrow> x \<in> held l"
  by (auto simp: held_def in_set_conv_nth)

lemma heldE:
  assumes "x \<in> held l"
  obtains i where "i < length l" "l ! i = Some x"
  using assms by (auto simp: held_def in_set_conv_nth)

lemma held_replicate_None [simp]: "held (replicate n None) = {}"
  by (auto simp: held_def)

lemma held_Cons: "held (x # l) = set_option x \<union> held l"
  by (auto simp: held_def)

lemma exclusive_replicate_None [simp]: "exclusive (replicate n None)"
  by (simp add: exclusive_def)

lemma exclusiveD:
  "exclusive l \<Longrightarrow> i < length l \<Longrightarrow> j < length l \<Longrightarrow> l ! i = Some x \<Longrightarrow> l ! j = Some x \<Longrightarrow> i = j"
  unfolding exclusive_def by (metis option.distinct(1))

lemma exclusiveI:
  assumes "\<And>i j x. i < length l \<Longrightarrow> j < length l \<Longrightarrow> l ! i = Some x \<Longrightarrow> l ! j = Some x \<Longrightarrow> i = j"
  shows "exclusive l"
  unfolding exclusive_def
proof (intro allI impI, elim conjE)
  fix i j
  assume a: "i < length l" "j < length l" "i \<noteq> j" "l ! i = l ! j"
  show "l ! i = None"
  proof (rule ccontr)
    assume "l ! i \<noteq> None"
    then obtain y where "l ! i = Some y" by blast
    with assms [of i j y] a show False by simp
  qed
qed

lemma exclusive_Cons: "exclusive (x # l) \<longleftrightarrow> exclusive l \<and> (\<forall>y. x = Some y \<longrightarrow> y \<notin> held l)"
proof
  assume e: "exclusive (x # l)"
  have "exclusive l"
  proof (rule exclusiveI)
    fix i j y
    assume "i < length l" "j < length l" "l ! i = Some y" "l ! j = Some y"
    with exclusiveD [OF e, of "Suc i" "Suc j" y] show "i = j" by simp
  qed
  moreover have "y \<notin> held l" if "x = Some y" for y
  proof
    assume "y \<in> held l"
    then obtain i where "i < length l" "l ! i = Some y" by (rule heldE)
    with exclusiveD [OF e, of 0 "Suc i" y] that show False by simp
  qed
  ultimately show "exclusive l \<and> (\<forall>y. x = Some y \<longrightarrow> y \<notin> held l)" by simp
next
  assume a: "exclusive l \<and> (\<forall>y. x = Some y \<longrightarrow> y \<notin> held l)"
  show "exclusive (x # l)"
  proof (rule exclusiveI)
    fix i j y
    assume "i < length (x # l)" "j < length (x # l)" "(x # l) ! i = Some y" "(x # l) ! j = Some y"
    with a exclusiveD [of l "i - 1" "j - 1" y] heldI [of "i - 1" l y] heldI [of "j - 1" l y]
    show "i = j" by (cases i; cases j) simp_all
  qed
qed

lemma held_update_Some:
  assumes i: "i < length l" "l ! i = None"
  shows "held (l[i := Some x]) = insert x (held l)"
proof (intro equalityI subsetI)
  fix y assume "y \<in> held (l[i := Some x])"
  then obtain j where j: "j < length l" "l[i := Some x] ! j = Some y" by (auto elim: heldE)
  then show "y \<in> insert x (held l)" using heldI [of j l y] i by (cases "j = i") auto
next
  fix y assume "y \<in> insert x (held l)"
  then show "y \<in> held (l[i := Some x])"
  proof
    assume "y = x"
    with i show ?thesis by (intro heldI [of i]) simp_all
  next
    assume "y \<in> held l"
    then obtain j where "j < length l" "l ! j = Some y" by (rule heldE)
    with i show ?thesis by (intro heldI [of j]) (auto simp: nth_list_update)
  qed
qed

lemma held_update_None:
  assumes e: "exclusive l" and i: "i < length l" "l ! i = Some x"
  shows "held (l[i := None]) = held l - {x}"
proof (intro equalityI subsetI)
  fix y assume "y \<in> held (l[i := None])"
  then obtain j where j: "j < length l" "l[i := None] ! j = Some y" by (auto elim: heldE)
  then have "j \<noteq> i" using i by auto
  with j have "l ! j = Some y" by simp
  with j exclusiveD [OF e j(1) i(1)] i(2) show "y \<in> held l - {x}" by (auto intro: heldI)
next
  fix y assume "y \<in> held l - {x}"
  then obtain j where "j < length l" "l ! j = Some y" "y \<noteq> x" by (auto elim: heldE)
  with i show "y \<in> held (l[i := None])" by (intro heldI [of j]) (auto simp: nth_list_update)
qed

lemma exclusive_update_None:
  assumes "exclusive l"
  shows "exclusive (l[i := None])"
proof (rule exclusiveI)
  fix j k x
  assume "j < length (l[i := None])" "k < length (l[i := None])"
    "l[i := None] ! j = Some x" "l[i := None] ! k = Some x"
  then show "j = k" using exclusiveD [OF assms, of j k x] by (cases "j = i"; cases "k = i") auto
qed

lemma exclusive_update_Some:
  assumes e: "exclusive l" and x: "x \<notin> held l"
  shows "exclusive (l[i := Some x])"
proof (rule exclusiveI)
  fix j k y
  assume "j < length (l[i := Some x])" "k < length (l[i := Some x])"
    "l[i := Some x] ! j = Some y" "l[i := Some x] ! k = Some y"
  then show "j = k"
    using exclusiveD [OF e, of j k y] x heldI [of j l x] heldI [of k l x]
    by (cases "j = i"; cases "k = i") auto
qed

section \<open>Bytes and words\<close>

lemma u16_low_mask: "(255 :: u16) = mask 8"
  by (simp add: mask_eq_exp_minus_1)

lemma u8_bit_high: "\<not> bit (b :: u8) (8 + n)"
proof
  assume "bit b (8 + n)"
  then have "8 + n < LENGTH(8)" by (rule bit_imp_le_length)
  then show False by simp
qed

text \<open>Writing a 16-bit value big-endian and reading it back, and the converse.\<close>

lemma ucast_hi_lo:
  "push_bit 8 (ucast (ucast (drop_bit 8 v) :: u8) :: u16) OR ucast (ucast (v AND 255) :: u8) = v"
  by (rule bit_word_eqI) (auto simp: bit_simps u16_low_mask)

lemma ucast_hi: "ucast (drop_bit 8 (push_bit 8 (ucast a :: u16) OR ucast (b :: u8))) = (a :: u8)"
  by (rule bit_word_eqI) (auto simp: bit_simps u8_bit_high)

lemma ucast_lo: "ucast ((push_bit 8 (ucast (a :: u8) :: u16) OR ucast b) AND 255) = (b :: u8)"
  by (rule bit_word_eqI) (auto simp: bit_simps u16_low_mask)

end
