(* ===== verification/Tftp_Error.thy ===== *)
theory Tftp_Error
  imports Tftp_Prelude
begin

text \<open>
  The status vocabulary of \<open>src/tftp/error\<close>: the enum \<open>tftp_status_t\<close> with its numeric
  values, the RFC 1350 error codes \<open>tftp_error_code_t\<close>, and \<open>tftp_error_string\<close>.  The
  statuses are ordered by their C value, and enumerated, so that a statement about all of
  them is decided by evaluation.
\<close>

datatype tftp_status_t =
    TFTP_OK
  | TFTP_ERR_INVALID_ARGUMENT
  | TFTP_ERR_NOT_INITIALIZED
  | TFTP_ERR_BUSY
  | TFTP_ERR_TIMEOUT
  | TFTP_ERR_RETRY_EXHAUSTED
  | TFTP_ERR_INVALID_PACKET
  | TFTP_ERR_INVALID_OPCODE
  | TFTP_ERR_INVALID_BLOCK
  | TFTP_ERR_FILE
  | TFTP_ERR_TRANSPORT
  | TFTP_ERR_NO_RESOURCE
  | TFTP_ERR_PROTOCOL
  | TFTP_ERR_INTERNAL
  | TFTP_ERR_INVALID_STATE
  | TFTP_ERR_IO

fun status_code :: "tftp_status_t \<Rightarrow> int" where
  "status_code TFTP_OK = 0"
| "status_code TFTP_ERR_INVALID_ARGUMENT = -1"
| "status_code TFTP_ERR_NOT_INITIALIZED = -2"
| "status_code TFTP_ERR_BUSY = -3"
| "status_code TFTP_ERR_TIMEOUT = -4"
| "status_code TFTP_ERR_RETRY_EXHAUSTED = -5"
| "status_code TFTP_ERR_INVALID_PACKET = -6"
| "status_code TFTP_ERR_INVALID_OPCODE = -7"
| "status_code TFTP_ERR_INVALID_BLOCK = -8"
| "status_code TFTP_ERR_FILE = -9"
| "status_code TFTP_ERR_TRANSPORT = -10"
| "status_code TFTP_ERR_NO_RESOURCE = -11"
| "status_code TFTP_ERR_PROTOCOL = -12"
| "status_code TFTP_ERR_INTERNAL = -13"
| "status_code TFTP_ERR_INVALID_STATE = -14"
| "status_code TFTP_ERR_IO = -15"

datatype tftp_error_code_t =
    TFTP_ERROR_NOT_DEFINED
  | TFTP_ERROR_FILE_NOT_FOUND
  | TFTP_ERROR_ACCESS_VIOLATION
  | TFTP_ERROR_DISK_FULL
  | TFTP_ERROR_ILLEGAL_OPERATION
  | TFTP_ERROR_UNKNOWN_TRANSFER_ID
  | TFTP_ERROR_FILE_EXISTS
  | TFTP_ERROR_NO_SUCH_USER

fun error_code :: "tftp_error_code_t \<Rightarrow> u16" where
  "error_code TFTP_ERROR_NOT_DEFINED = 0"
| "error_code TFTP_ERROR_FILE_NOT_FOUND = 1"
| "error_code TFTP_ERROR_ACCESS_VIOLATION = 2"
| "error_code TFTP_ERROR_DISK_FULL = 3"
| "error_code TFTP_ERROR_ILLEGAL_OPERATION = 4"
| "error_code TFTP_ERROR_UNKNOWN_TRANSFER_ID = 5"
| "error_code TFTP_ERROR_FILE_EXISTS = 6"
| "error_code TFTP_ERROR_NO_SUCH_USER = 7"

text \<open>The switch of \<open>tftp_error_string\<close>, with its \<open>default\<close> branch.\<close>

definition tftp_error_string :: "tftp_status_t \<Rightarrow> string" where
  "tftp_error_string status =
     (case status of
        TFTP_OK \<Rightarrow> ''OK''
      | TFTP_ERR_INVALID_ARGUMENT \<Rightarrow> ''invalid argument''
      | TFTP_ERR_INVALID_STATE \<Rightarrow> ''invalid state''
      | TFTP_ERR_NOT_INITIALIZED \<Rightarrow> ''not initialized''
      | TFTP_ERR_NO_RESOURCE \<Rightarrow> ''no resource''
      | TFTP_ERR_PROTOCOL \<Rightarrow> ''protocol error''
      | TFTP_ERR_IO \<Rightarrow> ''I/O error''
      | TFTP_ERR_FILE \<Rightarrow> ''file error''
      | TFTP_ERR_TIMEOUT \<Rightarrow> ''timeout''
      | TFTP_ERR_RETRY_EXHAUSTED \<Rightarrow> ''retry exhausted''
      | _ \<Rightarrow> ''unknown error'')"

section \<open>Order and enumeration of the statuses\<close>

lemma status_code_inj: "status_code a = status_code b \<Longrightarrow> a = b"
  by (cases a; cases b) simp_all

instantiation tftp_status_t :: linorder
begin

definition less_eq_tftp_status_t :: "tftp_status_t \<Rightarrow> tftp_status_t \<Rightarrow> bool" where
  "less_eq_tftp_status_t a b \<longleftrightarrow> status_code a \<le> status_code b"

definition less_tftp_status_t :: "tftp_status_t \<Rightarrow> tftp_status_t \<Rightarrow> bool" where
  "less_tftp_status_t a b \<longleftrightarrow> status_code a < status_code b"

instance
  by standard
    (auto simp: less_eq_tftp_status_t_def less_tftp_status_t_def intro: status_code_inj)

end

instantiation tftp_status_t :: enum
begin

definition enum_tftp_status_t :: "tftp_status_t list" where
  "enum_tftp_status_t =
     [TFTP_OK, TFTP_ERR_INVALID_ARGUMENT, TFTP_ERR_NOT_INITIALIZED, TFTP_ERR_BUSY,
      TFTP_ERR_TIMEOUT, TFTP_ERR_RETRY_EXHAUSTED, TFTP_ERR_INVALID_PACKET,
      TFTP_ERR_INVALID_OPCODE, TFTP_ERR_INVALID_BLOCK, TFTP_ERR_FILE, TFTP_ERR_TRANSPORT,
      TFTP_ERR_NO_RESOURCE, TFTP_ERR_PROTOCOL, TFTP_ERR_INTERNAL, TFTP_ERR_INVALID_STATE,
      TFTP_ERR_IO]"

definition enum_all_tftp_status_t :: "(tftp_status_t \<Rightarrow> bool) \<Rightarrow> bool" where
  "enum_all_tftp_status_t P \<longleftrightarrow> list_all P enum_class.enum"

definition enum_ex_tftp_status_t :: "(tftp_status_t \<Rightarrow> bool) \<Rightarrow> bool" where
  "enum_ex_tftp_status_t P \<longleftrightarrow> list_ex P enum_class.enum"

lemma UNIV_status: "(UNIV :: tftp_status_t set) = set enum_class.enum"
proof -
  have "s \<in> set enum_class.enum" for s :: tftp_status_t
    by (cases s) (simp_all add: enum_tftp_status_t_def)
  then show ?thesis by blast
qed

instance
proof
  show "(UNIV :: tftp_status_t set) = set enum_class.enum"
    by (rule UNIV_status)
  show "distinct (enum_class.enum :: tftp_status_t list)"
    by (simp add: enum_tftp_status_t_def)
  show "enum_class.enum_all P = Ball UNIV P" for P :: "tftp_status_t \<Rightarrow> bool"
    unfolding enum_all_tftp_status_t_def UNIV_status list_all_iff by simp
  show "enum_class.enum_ex P = Bex UNIV P" for P :: "tftp_status_t \<Rightarrow> bool"
    unfolding enum_ex_tftp_status_t_def UNIV_status list_ex_iff by simp
qed

end

text \<open>\<open>TFTP_OK\<close> is the greatest status: every error code is negative.\<close>

lemma status_le_OK: "status \<le> TFTP_OK"
  by (cases status) (simp_all add: less_eq_tftp_status_t_def)

lemma status_error_iff: "status < TFTP_OK \<longleftrightarrow> status \<noteq> TFTP_OK"
  using status_le_OK [of status] by auto

end
