(* ===== verification/Tftp_Packet.thy ===== *)
theory Tftp_Packet
  imports Tftp_Error
begin

text \<open>
  The wire format of \<open>src/tftp/packet\<close>: parsing of datagrams and of RRQ/WRQ requests, and
  the encoders of ACK, DATA and ERROR.  A buffer is the byte array it points to (\<open>None\<close> for
  NULL) together with the length the code is told, which may be smaller than the array.  A
  payload pointer is the offset into that buffer.
\<close>

section \<open>Data\<close>

definition TFTP_BLOCK_SIZE :: nat where "TFTP_BLOCK_SIZE = 512"
definition TFTP_PACKET_HEADER_SIZE :: nat where "TFTP_PACKET_HEADER_SIZE = 4"
definition TFTP_MAX_PACKET_SIZE :: nat where "TFTP_MAX_PACKET_SIZE = 516"

lemmas packet_sizes [tftp_defs] =
  TFTP_BLOCK_SIZE_def TFTP_PACKET_HEADER_SIZE_def TFTP_MAX_PACKET_SIZE_def

text \<open>
  The enum \<open>tftp_opcode_t\<close>.  \<open>TFTP_OPCODE_ZERO\<close> is the value 0 that \<open>memset\<close> leaves in a
  field of that type; it is no enumerator.
\<close>

datatype tftp_opcode_t =
    TFTP_OPCODE_ZERO
  | TFTP_OPCODE_RRQ
  | TFTP_OPCODE_WRQ
  | TFTP_OPCODE_DATA
  | TFTP_OPCODE_ACK
  | TFTP_OPCODE_ERROR

fun opcode_value :: "tftp_opcode_t \<Rightarrow> u16" where
  "opcode_value TFTP_OPCODE_ZERO = 0"
| "opcode_value TFTP_OPCODE_RRQ = 1"
| "opcode_value TFTP_OPCODE_WRQ = 2"
| "opcode_value TFTP_OPCODE_DATA = 3"
| "opcode_value TFTP_OPCODE_ACK = 4"
| "opcode_value TFTP_OPCODE_ERROR = 5"

datatype tftp_mode_t = TFTP_MODE_OCTET

record tftp_packet_t =
  p_opcode :: tftp_opcode_t
  p_block :: u16
  p_payload :: ptr
  p_payload_length :: nat

definition packet_zero :: tftp_packet_t where
  "packet_zero = \<lparr>p_opcode = TFTP_OPCODE_ZERO, p_block = 0, p_payload = None, p_payload_length = 0\<rparr>"

definition REQUEST_FILENAME_SIZE :: nat where "REQUEST_FILENAME_SIZE = 256"

record tftp_request_t =
  rq_filename :: bytes
  rq_mode :: tftp_mode_t

section \<open>Big-endian fields and the transfer mode\<close>

definition read_u16_be :: "bytes \<Rightarrow> nat \<Rightarrow> u16" where
  "read_u16_be data i = push_bit 8 (ucast (data ! i)) OR ucast (data ! (i + 1))"

definition u16_be :: "u16 \<Rightarrow> bytes" where
  "u16_be value = [ucast (drop_bit 8 value), ucast (value AND 0xFF)]"

definition write_u16_be :: "bytes \<Rightarrow> nat \<Rightarrow> u16 \<Rightarrow> bytes" where
  "write_u16_be data i value = memcpy_at i (u16_be value) data"

text \<open>\<open>c\<close> after the upper-case letters were moved to lower case.\<close>

definition ascii_lower :: "u8 \<Rightarrow> u8" where
  "ascii_lower c = (if 65 \<le> c \<and> c \<le> 90 then c + (97 - 65) else c)"

fun octet_loop :: "bytes \<Rightarrow> bytes \<Rightarrow> bool" where
  "octet_loop (c # mode) (e # expected) =
     (if ascii_lower c \<noteq> e then False else octet_loop mode expected)"
| "octet_loop _ _ = True"

definition is_octet_mode :: "bytes \<Rightarrow> nat \<Rightarrow> bool" where
  "is_octet_mode mode len =
     (let expected = cstr ''octet'' in
      if len \<noteq> length expected then False
      else octet_loop (take len mode) expected)"

section \<open>Parsing\<close>

definition tftp_packet_parse ::
  "bytes option \<Rightarrow> nat \<Rightarrow> tftp_packet_t option \<Rightarrow> tftp_status_t \<times> tftp_packet_t option" where
  "tftp_packet_parse buffer len packet =
     (case (buffer, packet) of
        (Some b, Some p0) \<Rightarrow>
          if len < 2 then (TFTP_ERR_INVALID_PACKET, Some p0)
          else
            let raw_opcode = read_u16_be b 0; p = packet_zero in
            if raw_opcode = opcode_value TFTP_OPCODE_RRQ \<or>
               raw_opcode = opcode_value TFTP_OPCODE_WRQ then
              if len < 6 then (TFTP_ERR_INVALID_PACKET, Some p)
              else (TFTP_OK, Some (p
                \<lparr>p_opcode := (if raw_opcode = opcode_value TFTP_OPCODE_RRQ
                              then TFTP_OPCODE_RRQ else TFTP_OPCODE_WRQ),
                 p_payload := Some 2, p_payload_length := len - 2\<rparr>))
            else if raw_opcode = opcode_value TFTP_OPCODE_DATA then
              if len < TFTP_PACKET_HEADER_SIZE \<or> len > TFTP_MAX_PACKET_SIZE
              then (TFTP_ERR_INVALID_PACKET, Some p)
              else (TFTP_OK, Some (p
                \<lparr>p_opcode := TFTP_OPCODE_DATA, p_block := read_u16_be b 2,
                 p_payload := Some 4, p_payload_length := len - 4\<rparr>))
            else if raw_opcode = opcode_value TFTP_OPCODE_ACK then
              if len \<noteq> TFTP_PACKET_HEADER_SIZE then (TFTP_ERR_INVALID_PACKET, Some p)
              else (TFTP_OK, Some (p
                \<lparr>p_opcode := TFTP_OPCODE_ACK, p_block := read_u16_be b 2\<rparr>))
            else if raw_opcode = opcode_value TFTP_OPCODE_ERROR then
              if len < 5 \<or> b ! (len - 1) \<noteq> 0 then (TFTP_ERR_INVALID_PACKET, Some p)
              else (TFTP_OK, Some (p
                \<lparr>p_opcode := TFTP_OPCODE_ERROR, p_block := read_u16_be b 2,
                 p_payload := Some 4, p_payload_length := len - 4\<rparr>))
            else (TFTP_ERR_INVALID_OPCODE, Some p)
      | _ \<Rightarrow> (TFTP_ERR_INVALID_ARGUMENT, packet))"

text \<open>
  The two scanning loops of \<open>tftp_packet_parse_request\<close>: \<open>for (; i < length; ++i)\<close> up to a
  NUL, counting the bytes passed.  The result is the final \<open>i\<close> and the count.
\<close>

function scan_nul :: "bytes \<Rightarrow> nat \<Rightarrow> nat \<Rightarrow> nat \<Rightarrow> nat \<times> nat" where
  "scan_nul buffer len i n =
     (if i < len then
        if buffer ! i = 0 then (i, n) else scan_nul buffer len (Suc i) (Suc n)
      else (i, n))"
  by pat_completeness auto
termination
  by (relation "measure (\<lambda>(buffer, len, i, n). len - i)") auto

declare scan_nul.simps [simp del]

definition tftp_packet_parse_request ::
  "bytes option \<Rightarrow> nat \<Rightarrow> tftp_opcode_t option \<Rightarrow> tftp_request_t option \<Rightarrow>
   tftp_status_t \<times> tftp_opcode_t option \<times> tftp_request_t option" where
  "tftp_packet_parse_request buffer len opcode request =
     (case (buffer, opcode, request) of
        (Some b, Some op0, Some rq) \<Rightarrow>
          (case tftp_packet_parse buffer len (Some packet_zero) of
             (status, packet) \<Rightarrow>
               if status \<noteq> TFTP_OK then (status, opcode, request)
               else
                 let pop = (case packet of None \<Rightarrow> TFTP_OPCODE_ZERO | Some p \<Rightarrow> p_opcode p) in
                 if pop \<noteq> TFTP_OPCODE_RRQ \<and> pop \<noteq> TFTP_OPCODE_WRQ
                 then (TFTP_ERR_INVALID_OPCODE, opcode, request)
                 else
                   let filename_start = 2;
                       (i, filename_length) = scan_nul b len filename_start 0 in
                   if i \<ge> len \<or> filename_length = 0 \<or> filename_length \<ge> REQUEST_FILENAME_SIZE
                   then (TFTP_ERR_INVALID_PACKET, opcode, request)
                   else
                     let mode_start = i + 1;
                         (i, mode_length) = scan_nul b len mode_start 0 in
                     if i \<ge> len \<or> mode_length = 0 then (TFTP_ERR_INVALID_PACKET, opcode, request)
                     else if i + 1 \<noteq> len then (TFTP_ERR_PROTOCOL, opcode, request)
                     else if \<not> is_octet_mode (drop mode_start b) mode_length
                     then (TFTP_ERR_PROTOCOL, opcode, request)
                     else
                       (TFTP_OK, Some pop,
                        Some (rq\<lparr>rq_filename :=
                                memcpy_at 0 (take filename_length (drop filename_start b) @ [0])
                                  (rq_filename rq),
                              rq_mode := TFTP_MODE_OCTET\<rparr>)))
      | _ \<Rightarrow> (TFTP_ERR_INVALID_ARGUMENT, opcode, request))"

section \<open>Encoding\<close>

text \<open>An encoder returns the status, the buffer and the \<open>*length\<close> it wrote.\<close>

definition tftp_packet_build_ack ::
  "u16 \<Rightarrow> bytes option \<Rightarrow> nat \<Rightarrow> nat option \<Rightarrow> tftp_status_t \<times> bytes option \<times> nat option" where
  "tftp_packet_build_ack block buffer buffer_size len =
     (case (buffer, len) of
        (Some b, Some l) \<Rightarrow>
          if buffer_size < 4 then (TFTP_ERR_NO_RESOURCE, buffer, len)
          else
            let b = write_u16_be b 0 (opcode_value TFTP_OPCODE_ACK);
                b = write_u16_be b 2 block in
            (TFTP_OK, Some b, Some 4)
      | _ \<Rightarrow> (TFTP_ERR_INVALID_ARGUMENT, buffer, len))"

definition tftp_packet_build_data ::
  "u16 \<Rightarrow> bytes option \<Rightarrow> nat \<Rightarrow> bytes option \<Rightarrow> nat \<Rightarrow> nat option \<Rightarrow>
   tftp_status_t \<times> bytes option \<times> nat option" where
  "tftp_packet_build_data block data data_length buffer buffer_size len =
     (case (buffer, len) of
        (Some b, Some l) \<Rightarrow>
          if data = None \<and> data_length \<noteq> 0 then (TFTP_ERR_INVALID_ARGUMENT, buffer, len)
          else if data_length > TFTP_BLOCK_SIZE then (TFTP_ERR_INVALID_ARGUMENT, buffer, len)
          else if buffer_size < 4 + data_length then (TFTP_ERR_NO_RESOURCE, buffer, len)
          else
            let b = write_u16_be b 0 (opcode_value TFTP_OPCODE_DATA);
                b = write_u16_be b 2 block;
                b = (case data of
                       None \<Rightarrow> b
                     | Some d \<Rightarrow> if data_length > 0 then memcpy_at 4 (take data_length d) b else b) in
            (TFTP_OK, Some b, Some (4 + data_length))
      | _ \<Rightarrow> (TFTP_ERR_INVALID_ARGUMENT, buffer, len))"

definition tftp_packet_build_error ::
  "u16 \<Rightarrow> bytes option \<Rightarrow> bytes option \<Rightarrow> nat \<Rightarrow> nat option \<Rightarrow>
   tftp_status_t \<times> bytes option \<times> nat option" where
  "tftp_packet_build_error err message buffer buffer_size len =
     (case (message, buffer, len) of
        (Some m, Some b, Some l) \<Rightarrow>
          let message_length = strlen m;
              total_length = 4 + message_length + 1 in
          if buffer_size < total_length then (TFTP_ERR_NO_RESOURCE, buffer, len)
          else
            let b = write_u16_be b 0 (opcode_value TFTP_OPCODE_ERROR);
                b = write_u16_be b 2 err;
                b = memcpy_at 4 (take message_length m) b;
                b = memcpy_at (4 + message_length) [0] b in
            (TFTP_OK, Some b, Some total_length)
      | _ \<Rightarrow> (TFTP_ERR_INVALID_ARGUMENT, buffer, len))"

definition tftp_packet_is_final_data :: "nat \<Rightarrow> bool" where
  "tftp_packet_is_final_data payload_length \<longleftrightarrow> payload_length < TFTP_BLOCK_SIZE"

section \<open>Field lemmas\<close>

lemma length_u16_be [simp]: "length (u16_be v) = 2"
  by (simp add: u16_be_def)

lemma read_u16_be_u16_be [simp]: "read_u16_be (u16_be v @ r) 0 = v"
  by (simp add: read_u16_be_def u16_be_def ucast_hi_lo)

lemma read_u16_be_skip:
  "length a = i \<Longrightarrow> read_u16_be (a @ r) (i + j) = read_u16_be r j"
  by (auto simp: read_u16_be_def nth_append)

lemma u16_be_read_u16_be:
  assumes "i + 1 < length b"
  shows "u16_be (read_u16_be b i) = take 2 (drop i b)"
proof -
  from assms have "take 2 (drop i b) = [b ! i, b ! (i + 1)]"
    by (simp add: numeral_2_eq_2 take_Suc_conv_app_nth)
  then show ?thesis
    unfolding u16_be_def read_u16_be_def ucast_hi ucast_lo by simp
qed

lemma read_u16_be_take [simp]: "i + 1 < n \<Longrightarrow> read_u16_be (take n b) i = read_u16_be b i"
  by (simp add: read_u16_be_def)

lemma u16_be_inj [simp]: "u16_be v = u16_be w \<longleftrightarrow> v = w"
  by (metis append_Nil2 read_u16_be_u16_be)

lemma length_write_u16_be [simp]:
  "i + 2 \<le> length b \<Longrightarrow> length (write_u16_be b i v) = length b"
  by (simp add: write_u16_be_def)

text \<open>The header that every encoder writes: opcode and block (or error code).\<close>

lemma write_header:
  assumes "4 \<le> length b"
  shows "write_u16_be (write_u16_be b 0 v) 2 w = u16_be v @ u16_be w @ drop 4 b"
  using assms by (simp add: write_u16_be_def memcpy_at_def u16_be_def)

lemma memcpy_at_after:
  "length h = off \<Longrightarrow> memcpy_at off d (h @ r) = h @ d @ drop (length d) r"
  by (simp add: memcpy_at_def)

lemma octet_loop_iff:
  "length mode = length expected \<Longrightarrow>
   octet_loop mode expected \<longleftrightarrow> map ascii_lower mode = expected"
  by (induction mode expected rule: octet_loop.induct) auto

lemma is_octet_mode_iff:
  assumes "n \<le> length mode"
  shows "is_octet_mode mode n \<longleftrightarrow> map ascii_lower (take n mode) = cstr ''octet''"
proof (cases "n = length ''octet''")
  case True
  with assms show ?thesis
    by (simp add: is_octet_mode_def Let_def octet_loop_iff)
next
  case False
  then have "map ascii_lower (take n mode) \<noteq> cstr ''octet''"
    using assms by (metis length_cstr length_map length_take min.absorb2)
  with False show ?thesis by (simp add: is_octet_mode_def Let_def)
qed

section \<open>The abstract message format and its decoder\<close>

text \<open>
  RFC 1350 messages and their encoding, as the specification of parser and encoders.  A
  request body is left open here; its grammar is the one of \<open>request_bytes\<close> below.
\<close>

datatype tftp_message =
    Request tftp_opcode_t bytes
  | Data u16 bytes
  | Ack u16
  | Error u16 bytes

fun encode :: "tftp_message \<Rightarrow> bytes" where
  "encode (Request opc body) = u16_be (opcode_value opc) @ body"
| "encode (Data n d) = u16_be 3 @ u16_be n @ d"
| "encode (Ack n) = u16_be 4 @ u16_be n"
| "encode (Error e m) = u16_be 5 @ u16_be e @ m @ [0]"

fun wf_message :: "tftp_message \<Rightarrow> bool" where
  "wf_message (Request opc body) \<longleftrightarrow>
     (opc = TFTP_OPCODE_RRQ \<or> opc = TFTP_OPCODE_WRQ) \<and> 4 \<le> length body"
| "wf_message (Data n d) \<longleftrightarrow> length d \<le> 512"
| "wf_message (Ack n) \<longleftrightarrow> True"
| "wf_message (Error e m) \<longleftrightarrow> True"

fun packet_view :: "tftp_message \<Rightarrow> tftp_packet_t" where
  "packet_view (Request opc body) =
     \<lparr>p_opcode = opc, p_block = 0, p_payload = Some 2, p_payload_length = length body\<rparr>"
| "packet_view (Data n d) =
     \<lparr>p_opcode = TFTP_OPCODE_DATA, p_block = n, p_payload = Some 4, p_payload_length = length d\<rparr>"
| "packet_view (Ack n) =
     \<lparr>p_opcode = TFTP_OPCODE_ACK, p_block = n, p_payload = None, p_payload_length = 0\<rparr>"
| "packet_view (Error e m) =
     \<lparr>p_opcode = TFTP_OPCODE_ERROR, p_block = e, p_payload = Some 4,
      p_payload_length = length m + 1\<rparr>"

lemma parse_take:
  "len \<le> length b \<Longrightarrow>
   tftp_packet_parse (Some (take len b)) len p = tftp_packet_parse (Some b) len p"
  by (auto simp: tftp_packet_parse_def tftp_defs Let_def split: option.split)

lemma parse_encode:
  assumes "wf_message m"
  shows "tftp_packet_parse (Some (encode m)) (length (encode m)) (Some p0) =
    (TFTP_OK, Some (packet_view m))"
  using assms
proof (cases m)
  case (Error e msg)
  have "(u16_be 5 @ u16_be e @ msg @ [0]) ! Suc (Suc (Suc (Suc (length msg)))) = 0"
    by (simp add: nth_append)
  with Error show ?thesis
    using read_u16_be_skip [of "u16_be 5" 2 "u16_be e @ msg @ [0]" 0]
    by (simp add: tftp_packet_parse_def tftp_defs Let_def packet_zero_def)
next
  case (Data n d)
  with assms show ?thesis
    using read_u16_be_skip [of "u16_be 3" 2 "u16_be n @ d" 0]
    by (simp add: tftp_packet_parse_def tftp_defs Let_def packet_zero_def)
next
  case (Ack n)
  then show ?thesis
    using read_u16_be_skip [of "u16_be 4" 2 "u16_be n" 0] read_u16_be_u16_be [of n "[]"]
    by (simp add: tftp_packet_parse_def tftp_defs Let_def packet_zero_def)
next
  case (Request opc body)
  with assms show ?thesis
    by (auto simp: tftp_packet_parse_def tftp_defs Let_def packet_zero_def)
qed

text \<open>A byte list of at least two bytes is its opcode and the rest; likewise for four.\<close>

lemma split_opcode: "2 \<le> length b \<Longrightarrow> b = u16_be (read_u16_be b 0) @ drop 2 b"
  using u16_be_read_u16_be [of 0 b] by (metis Suc_1 Suc_le_eq add_0 append_take_drop_id drop0 plus_1_eq_Suc)

lemma split_header:
  assumes "4 \<le> length b"
  shows "b = u16_be (read_u16_be b 0) @ u16_be (read_u16_be b 2) @ drop 4 b"
proof -
  have "u16_be (read_u16_be b 2) = take 2 (drop 2 b)"
    using assms by (intro u16_be_read_u16_be) simp
  moreover have "b = u16_be (read_u16_be b 0) @ drop 2 b"
    using assms by (intro split_opcode) simp
  moreover have "drop 2 b = take 2 (drop 2 b) @ drop 4 b"
    using append_take_drop_id [of 2 "drop 2 b"] by simp
  ultimately show ?thesis by simp
qed

lemma parse_decode:
  assumes "tftp_packet_parse (Some b) (length b) (Some p0) = (TFTP_OK, Some p)"
  shows "\<exists>m. wf_message m \<and> b = encode m \<and> p = packet_view m"
proof -
  let ?opc = "read_u16_be b 0"
  from assms have len2: "2 \<le> length b"
    by (auto simp: tftp_packet_parse_def split: if_splits)
  note b2 = split_opcode [OF len2]
  note open_parse = assms [unfolded tftp_packet_parse_def packet_zero_def]
  consider (req) "?opc = 1 \<or> ?opc = 2" | (data) "?opc = 3" | (ack) "?opc = 4" | (err) "?opc = 5"
    using open_parse len2 by (auto simp: Let_def split: if_splits)
  then show ?thesis
  proof cases
    case req
    let ?o = "if ?opc = 1 then TFTP_OPCODE_RRQ else TFTP_OPCODE_WRQ"
    from req open_parse len2 have "6 \<le> length b"
      and "p = packet_view (Request ?o (drop 2 b))"
      by (auto simp: Let_def split: if_splits)
    moreover from req b2 have "b = encode (Request ?o (drop 2 b))" by auto
    ultimately show ?thesis by (intro exI [of _ "Request ?o (drop 2 b)"]) simp
  next
    case data
    with open_parse len2 have "4 \<le> length b" "length b \<le> 516"
      and "p = packet_view (Data (read_u16_be b 2) (drop 4 b))"
      by (auto simp: Let_def tftp_defs split: if_splits)
    moreover from this(1) data have "b = encode (Data (read_u16_be b 2) (drop 4 b))"
      using split_header [of b] by simp
    ultimately show ?thesis by (intro exI [of _ "Data (read_u16_be b 2) (drop 4 b)"]) simp
  next
    case ack
    with open_parse len2 have "length b = 4" and "p = packet_view (Ack (read_u16_be b 2))"
      by (auto simp: Let_def tftp_defs split: if_splits)
    moreover from this(1) ack have "b = encode (Ack (read_u16_be b 2))"
      using split_header [of b] by simp
    ultimately show ?thesis by (intro exI [of _ "Ack (read_u16_be b 2)"]) simp
  next
    case err
    with open_parse len2 have len: "5 \<le> length b" and last: "b ! (length b - 1) = 0"
      and p: "p = \<lparr>p_opcode = TFTP_OPCODE_ERROR, p_block = read_u16_be b 2, p_payload = Some 4,
        p_payload_length = length b - 4\<rparr>"
      by (auto simp: Let_def tftp_defs split: if_splits)
    let ?m = "butlast (drop 4 b)"
    from len have ne: "drop 4 b \<noteq> []" and nb: "b \<noteq> []" by auto
    from len have "last (drop 4 b) = last b" by (simp add: last_drop)
    also from nb last have "last b = 0" by (simp add: last_conv_nth)
    finally have "drop 4 b = ?m @ [0]"
      using append_butlast_last_id [OF ne] by simp
    with err len have "b = encode (Error (read_u16_be b 2) ?m)"
      using split_header [of b] by simp
    moreover from len p have "p = packet_view (Error (read_u16_be b 2) ?m)" by simp
    ultimately show ?thesis by (intro exI [of _ "Error (read_u16_be b 2) ?m"]) simp
  qed
qed

section \<open>Requests\<close>

text \<open>
  The grammar of a request that the parser accepts: a name of 1 to 255 bytes, a NUL, the
  mode \<open>octet\<close> in any mixture of cases, a NUL, and nothing after it.
\<close>

definition request_bytes :: "tftp_opcode_t \<Rightarrow> bytes \<Rightarrow> bytes \<Rightarrow> bytes" where
  "request_bytes opc fname mode = u16_be (opcode_value opc) @ fname @ 0 # mode @ [0]"

definition valid_request :: "tftp_opcode_t \<Rightarrow> bytes \<Rightarrow> bytes \<Rightarrow> bool" where
  "valid_request opc fname mode \<longleftrightarrow>
     (opc = TFTP_OPCODE_RRQ \<or> opc = TFTP_OPCODE_WRQ) \<and>
     0 \<notin> set fname \<and> fname \<noteq> [] \<and> length fname \<le> 255 \<and>
     map ascii_lower mode = cstr ''octet''"

abbreviation non_nul :: "u8 \<Rightarrow> bool" where
  "non_nul c \<equiv> c \<noteq> 0"

lemma scan_nul_eq:
  assumes "i \<le> len" "len \<le> length b"
  shows "scan_nul b len i n =
    (i + length (takeWhile non_nul (drop i (take len b))),
     n + length (takeWhile non_nul (drop i (take len b))))"
  using assms
proof (induction b len i n rule: scan_nul.induct)
  case (1 b len i n)
  show ?case
  proof (cases "i < len")
    case True
    with "1.prems" have "drop i (take len b) = b ! i # drop (Suc i) (take len b)"
      by (metis Cons_nth_drop_Suc length_take min.absorb2 nth_take)
    with True "1.IH" "1.prems" show ?thesis
      by (subst scan_nul.simps) simp
  next
    case False
    with "1.prems" show ?thesis by (subst scan_nul.simps) simp
  qed
qed

lemma scan_nul_take: "scan_nul (take len b) len i n = scan_nul b len i n"
proof (induction b len i n rule: scan_nul.induct)
  case (1 b len i n)
  then show ?case
    by (simp add: scan_nul.simps [of "take len b" len i n] scan_nul.simps [of b len i n])
qed

lemma scan_nul_bounds: "scan_nul b len i n = (j, m) \<Longrightarrow> i \<le> len \<Longrightarrow> j \<le> len \<and> j + n = i + m"
proof (induction b len i n rule: scan_nul.induct)
  case (1 b len i n)
  show ?case
  proof (cases "i < len \<and> b ! i \<noteq> 0")
    case True
    with "1.prems" have "scan_nul b len (Suc i) (Suc n) = (j, m)"
      by (subst (asm) scan_nul.simps) simp
    with True "1.IH" have "j \<le> len \<and> j + Suc n = Suc i + m" by auto
    then show ?thesis by simp
  next
    case False
    with "1.prems" show ?thesis
      by (subst (asm) scan_nul.simps) (auto split: if_splits)
  qed
qed

lemma takeWhile_split:
  assumes "length (takeWhile non_nul xs) < length xs"
  shows "xs = takeWhile non_nul xs @ 0 # drop (Suc (length (takeWhile non_nul xs))) xs"
proof -
  let ?k = "length (takeWhile non_nul xs)"
  from assms have "xs ! ?k = 0" using nth_length_takeWhile by blast
  then have "drop ?k xs = 0 # drop (Suc ?k) xs"
    using assms by (metis Cons_nth_drop_Suc)
  then show ?thesis
    by (metis append_take_drop_id takeWhile_eq_take)
qed

lemma octet_mode_no_nul: "map ascii_lower mode = cstr ''octet'' \<Longrightarrow> 0 \<notin> set mode"
proof
  assume m: "map ascii_lower mode = cstr ''octet''" and "0 \<in> set mode"
  then have "ascii_lower 0 \<in> set (cstr ''octet'')" by (metis list.set_map image_eqI)
  then show False by (simp add: ascii_lower_def cstr_def)
qed

lemma octet_mode_length: "map ascii_lower mode = cstr ''octet'' \<Longrightarrow> length mode = 5"
  by (drule arg_cong [where f = length]) simp

text \<open>The parser accepts every request of the grammar and stores its name.\<close>

lemma parse_request_accepts:
  assumes valid: "valid_request opc fname mode"
    and b: "b = request_bytes opc fname mode"
  shows "tftp_packet_parse_request (Some b) (length b) (Some op0) (Some rq) =
    (TFTP_OK, Some opc,
     Some (rq\<lparr>rq_filename := memcpy_at 0 (fname @ [0]) (rq_filename rq),
              rq_mode := TFTP_MODE_OCTET\<rparr>))"
proof -
  let ?f = "length fname" and ?m = "length mode"
  from valid have opc: "opc = TFTP_OPCODE_RRQ \<or> opc = TFTP_OPCODE_WRQ"
    and f0: "0 \<notin> set fname" and fne: "fname \<noteq> []" and flen: "?f \<le> 255"
    and m: "map ascii_lower mode = cstr ''octet''"
    by (auto simp: valid_request_def)
  note m0 = octet_mode_no_nul [OF m] and mlen = octet_mode_length [OF m]
  have lb: "length b = ?f + 9" by (simp add: b request_bytes_def mlen)
  have "b = encode (Request opc (fname @ 0 # mode @ [0]))"
    and "wf_message (Request opc (fname @ 0 # mode @ [0]))"
    using b opc mlen by (auto simp: request_bytes_def)
  then have parse: "tftp_packet_parse (Some b) (length b) (Some packet_zero) =
    (TFTP_OK, Some (packet_view (Request opc (fname @ 0 # mode @ [0]))))"
    using parse_encode by metis
  have tw: "takeWhile non_nul (s @ 0 # r) = s" if "0 \<notin> set s" for s r
    using c_string_append_nul [OF that] by (simp add: c_string_def)
  have scan1: "scan_nul b (length b) 2 0 = (2 + ?f, ?f)"
    using lb tw [OF f0] by (simp add: scan_nul_eq) (simp add: b request_bytes_def)
  have scan2: "scan_nul b (length b) (3 + ?f) 0 = (3 + ?f + ?m, ?m)"
    using lb tw [OF m0, of "[]"] by (simp add: scan_nul_eq) (simp add: b request_bytes_def)
  have drop2: "take ?f (drop 2 b) = fname" and drop3: "drop (3 + ?f) b = mode @ [0]"
    by (simp_all add: b request_bytes_def)
  have mode: "is_octet_mode (drop (3 + ?f) b) ?m"
    using m by (simp add: drop3 is_octet_mode_iff)
  from opc scan1 scan2 mode fne flen mlen lb show ?thesis
    by (auto simp: tftp_packet_parse_request_def parse [unfolded lb] drop2 REQUEST_FILENAME_SIZE_def Let_def
        numeral_3_eq_3 split: prod.split)
qed

text \<open>Conversely, only requests of the grammar are accepted.\<close>

lemma parse_request_sound:
  assumes parse: "tftp_packet_parse_request (Some b) (length b) (Some op0) (Some rq) =
    (TFTP_OK, opc', rq')"
  shows "\<exists>opc fname mode. valid_request opc fname mode \<and> b = request_bytes opc fname mode"
proof -
  note open_parse = parse [unfolded tftp_packet_parse_request_def]
  obtain status packet where pk:
    "tftp_packet_parse (Some b) (length b) (Some packet_zero) = (status, packet)"
    by fastforce
  with open_parse have "status = TFTP_OK" by (auto split: if_splits)
  moreover from this pk obtain p where "packet = Some p"
    by (auto simp: tftp_packet_parse_def Let_def split: if_splits)
  ultimately have pk: "tftp_packet_parse (Some b) (length b) (Some packet_zero) = (TFTP_OK, Some p)"
    using pk by simp
  then obtain m where m: "wf_message m" "b = encode m" "p = packet_view m"
    using parse_decode by blast
  from open_parse pk have "p_opcode p = TFTP_OPCODE_RRQ \<or> p_opcode p = TFTP_OPCODE_WRQ"
    by (auto simp: Let_def split: if_splits)
  then obtain opc body where b: "b = u16_be (opcode_value opc) @ body"
    and opc: "opc = TFTP_OPCODE_RRQ \<or> opc = TFTP_OPCODE_WRQ" and popc: "p_opcode p = opc"
    using m by (cases m) auto
  let ?fname = "takeWhile non_nul body"
  let ?rest = "drop (Suc (length ?fname)) body"
  let ?mode = "takeWhile non_nul ?rest"
  have lb: "length b = 2 + length body" by (simp add: b)
  have s1: "scan_nul b (length b) 2 0 = (2 + length ?fname, length ?fname)"
    by (subst scan_nul_eq) (simp_all add: b)
  with open_parse pk popc opc have f: "length ?fname < length body" "?fname \<noteq> []"
    "length ?fname \<le> 255"
    by (auto simp: lb REQUEST_FILENAME_SIZE_def Let_def split: if_splits)
  have s2: "scan_nul b (length b) (Suc (2 + length ?fname)) 0 =
    (3 + length ?fname + length ?mode, length ?mode)"
    using f(1) by (subst scan_nul_eq) (simp_all add: b)
  from f have dr: "drop (Suc (2 + length ?fname)) b = ?rest" by (simp add: b)
  from open_parse pk popc opc s1 s2 dr f have
    g: "3 + length ?fname + length ?mode < length b"
       "length b = 4 + length ?fname + length ?mode"
       "is_octet_mode ?rest (length ?mode)"
    by (auto simp: REQUEST_FILENAME_SIZE_def Let_def split: if_splits)
  have "length ?mode \<le> length ?rest" by (rule length_takeWhile_le)
  from is_octet_mode_iff [OF this] g(3)
  have mode: "map ascii_lower ?mode = cstr ''octet''"
    by (simp add: takeWhile_eq_take [symmetric])
  from g lb have rl: "length ?rest = Suc (length ?mode)" by simp
  then have "?rest = ?mode @ 0 # drop (Suc (length ?mode)) ?rest"
    by (intro takeWhile_split) simp
  with rl have "?rest = ?mode @ [0]" by simp
  moreover have "body = ?fname @ 0 # ?rest" using f(1) by (rule takeWhile_split)
  ultimately have "b = request_bytes opc ?fname ?mode"
    by (simp add: b request_bytes_def)
  moreover have "valid_request opc ?fname ?mode"
    using opc f mode set_takeWhileD by (fastforce simp: valid_request_def)
  ultimately show ?thesis by blast
qed

lemma parse_request_take:
  assumes len: "len \<le> length b"
  shows "tftp_packet_parse_request (Some (take len b)) len opc rq =
    tftp_packet_parse_request (Some b) len opc rq"
proof (cases "len < 2")
  case True
  then show ?thesis
    by (auto simp: tftp_packet_parse_request_def tftp_packet_parse_def split: option.split)
next
  case False
  obtain i n where s1: "scan_nul b len 2 0 = (i, n)" by fastforce
  obtain j m where s2: "scan_nul b len (Suc i) 0 = (j, m)" by fastforce
  from s1 False have i: "i \<le> len" "i = 2 + n" using scan_nul_bounds by fastforce+
  then have name: "take n (drop 2 (take len b)) = take n (drop 2 b)"
    by (simp add: drop_take min_def)
  have mode: "is_octet_mode (drop (Suc i) (take len b)) m = is_octet_mode (drop (Suc i) b) m"
    if "i < len"
    using scan_nul_bounds [OF s2] that by (auto simp: is_octet_mode_def drop_take min_def)
  show ?thesis
    using len mode
    by (auto simp: tftp_packet_parse_request_def parse_take scan_nul_take Let_def s1 s2 name
        split: option.split prod.split)
qed

section \<open>The encoders\<close>

lemma build_ack_encode:
  assumes "4 \<le> cap" "cap \<le> length buf"
  shows "tftp_packet_build_ack block (Some buf) cap (Some l) =
    (TFTP_OK, Some (encode (Ack block) @ drop 4 buf), Some 4)"
  using assms by (simp add: tftp_packet_build_ack_def Let_def write_header)

lemma build_data_encode:
  assumes "n \<le> 512" "4 + n \<le> cap" "cap \<le> length buf" "n \<le> length d"
  shows "tftp_packet_build_data block (Some d) n (Some buf) cap (Some l) =
    (TFTP_OK, Some (encode (Data block (take n d)) @ drop (4 + n) buf), Some (4 + n))"
  using assms
  by (auto simp: tftp_packet_build_data_def Let_def write_header memcpy_at_def tftp_defs
      add.commute)

lemma build_error_encode:
  assumes "4 + strlen msg + 1 \<le> cap" "cap \<le> length buf"
  shows "tftp_packet_build_error err (Some msg) (Some buf) cap (Some l) =
    (TFTP_OK, Some (encode (Error err (c_string msg)) @ drop (5 + strlen msg) buf),
     Some (5 + strlen msg))"
proof -
  have "take (strlen msg) msg = c_string msg"
    unfolding strlen_def c_string_def by (rule takeWhile_eq_take [symmetric])
  with assms show ?thesis
    by (simp add: tftp_packet_build_error_def Let_def write_header memcpy_at_def strlen_def)
qed

text \<open>Both parsers on a buffer that is filled exactly.\<close>

lemma parse_iff:
  "tftp_packet_parse (Some c) (length c) (Some p0) = (TFTP_OK, Some p) \<longleftrightarrow>
   (\<exists>m. wf_message m \<and> c = encode m \<and> p = packet_view m)"
  using parse_decode [of c p0 p] parse_encode [of _ p0] by auto

lemma parse_request_iff:
  "tftp_packet_parse_request (Some c) (length c) (Some op0) (Some rq) =
     (TFTP_OK, Some opc, Some rq') \<longleftrightarrow>
   (\<exists>fname mode. valid_request opc fname mode \<and> c = request_bytes opc fname mode \<and>
     rq' = rq\<lparr>rq_filename := memcpy_at 0 (fname @ [0]) (rq_filename rq),
              rq_mode := TFTP_MODE_OCTET\<rparr>)"
  (is "?L \<longleftrightarrow> ?R")
proof
  assume parse: ?L
  from parse_request_sound [OF this] obtain o' f m where
    v: "valid_request o' f m" and c: "c = request_bytes o' f m" by blast
  from parse_request_accepts [OF v c, of op0 rq] parse v c show ?R by auto
next
  assume ?R
  then obtain f m where v: "valid_request opc f m" and c: "c = request_bytes opc f m"
    and rq': "rq' = rq\<lparr>rq_filename := memcpy_at 0 (f @ [0]) (rq_filename rq),
              rq_mode := TFTP_MODE_OCTET\<rparr>" by blast
  from parse_request_accepts [OF v c, of op0 rq] rq' show ?L by simp
qed

section \<open>Properties\<close>

text \<open>
  C6: \<open>tftp_packet_parse\<close> refines the message format.  Over the first \<open>len\<close> bytes of the
  buffer it succeeds exactly on the encodings of well-formed messages: RRQ and WRQ with a body
  of at least 4 bytes, whose content it does not look into (\<open>tftp_packet_parse_request\<close> does),
  DATA with at most 512 bytes, ACK of exactly 4 bytes, and ERROR with a message that ends in
  NUL.  The packet it fills in is the view of that message (opcode, block or error code,
  payload position).
\<close>

theorem packet_parse_refines_format:
  assumes "len \<le> length b"
  shows "tftp_packet_parse (Some b) len (Some p0) = (TFTP_OK, Some p) \<longleftrightarrow>
    (\<exists>m. wf_message m \<and> take len b = encode m \<and> p = packet_view m)"
  using parse_iff [of "take len b" p0 p] parse_take [OF assms, of "Some p0"] assms
  by (simp add: min_absorb2)

theorem packet_parse_refines_format_witness:
  "tftp_packet_parse (Some [0, 4, 1, 2, 9]) 4 (Some packet_zero) =
     (TFTP_OK, Some (packet_view (Ack 258)))"
proof -
  have "u16_be 258 = [1, 2]" and "u16_be 4 = [0, 4]" by (simp_all add: u16_be_def)
  then show ?thesis
    using packet_parse_refines_format
      [of 4 "[0, 4, 1, 2, 9]" packet_zero "packet_view (Ack 258)"]
    by (auto intro: exI [of _ "Ack 258"])
qed

text \<open>
  C7: \<open>tftp_packet_parse_request\<close> succeeds exactly on the requests of the grammar: RRQ or
  WRQ, a name of 1 to 255 bytes, the mode \<open>octet\<close> in any case, both NUL terminated, and no
  byte more; the opcode and the NUL-terminated name are then stored.
\<close>

theorem parse_request_exactly_grammar:
  assumes "len \<le> length b"
  shows "tftp_packet_parse_request (Some b) len (Some op0) (Some rq) =
      (TFTP_OK, Some opc, Some rq') \<longleftrightarrow>
    (\<exists>fname mode. valid_request opc fname mode \<and> take len b = request_bytes opc fname mode \<and>
       rq' = rq\<lparr>rq_filename := memcpy_at 0 (fname @ [0]) (rq_filename rq),
                rq_mode := TFTP_MODE_OCTET\<rparr>)"
  using parse_request_iff [of "take len b" op0 rq opc rq']
    parse_request_take [OF assms, of "Some op0" "Some rq"] assms
  by (simp add: min_absorb2)

theorem parse_request_exactly_grammar_witness:
  "\<exists>rq'. tftp_packet_parse_request
      (Some (request_bytes TFTP_OPCODE_RRQ (cstr ''a'') (cstr ''OcTeT'') @ [7, 7])) 10
      (Some TFTP_OPCODE_ZERO)
      (Some \<lparr>rq_filename = replicate 256 0, rq_mode = TFTP_MODE_OCTET\<rparr>) =
    (TFTP_OK, Some TFTP_OPCODE_RRQ, Some rq')"
proof -
  let ?r = "request_bytes TFTP_OPCODE_RRQ (cstr ''a'') (cstr ''OcTeT'')"
  have v: "valid_request TFTP_OPCODE_RRQ (cstr ''a'') (cstr ''OcTeT'')"
    by (simp add: valid_request_def cstr_def ascii_lower_def)
  have len: "length ?r = 10" by (simp add: request_bytes_def)
  then have le: "10 \<le> length (?r @ [7, 7])" and tk: "take 10 (?r @ [7, 7]) = ?r" by simp_all
  show ?thesis
    unfolding parse_request_exactly_grammar [OF le] tk using v by blast
qed

text \<open>
  C25: Neither parser reads beyond the length it is given: bytes behind it change nothing.
\<close>

theorem parsers_stay_in_bounds:
  assumes "len \<le> length b" "take len b = take len b'" "len \<le> length b'"
  shows "tftp_packet_parse (Some b) len pk = tftp_packet_parse (Some b') len pk \<and>
    tftp_packet_parse_request (Some b) len opc rq = tftp_packet_parse_request (Some b') len opc rq"
  using assms by (metis parse_take parse_request_take)

theorem parsers_stay_in_bounds_witness:
  "tftp_packet_parse (Some [0, 4, 0, 1, 77]) 4 (Some packet_zero) =
   tftp_packet_parse (Some [0, 4, 0, 1]) 4 (Some packet_zero)"
  using parsers_stay_in_bounds [of 4 "[0, 4, 0, 1, 77]" "[0, 4, 0, 1]" "Some packet_zero"]
  by simp

text \<open>
  C15: Encode/parse round trip of DATA, ACK and ERROR.  Into any buffer that is large enough
  each encoder writes a datagram that the parser reads back: same block number or error
  code, and the payload (the bytes of the message with its NUL) at offset 4.
\<close>

theorem build_parse_roundtrip:
  assumes "4 \<le> cap" "cap \<le> length buf"
    and "length d \<le> 512" "4 + length d \<le> cap" "5 + strlen msg \<le> cap"
  shows "(\<exists>b. tftp_packet_build_ack block (Some buf) cap (Some l) = (TFTP_OK, Some b, Some 4) \<and>
        tftp_packet_parse (Some b) 4 (Some p0) = (TFTP_OK, Some (packet_view (Ack block)))) \<and>
    (\<exists>b. tftp_packet_build_data block (Some d) (length d) (Some buf) cap (Some l) =
          (TFTP_OK, Some b, Some (4 + length d)) \<and>
        tftp_packet_parse (Some b) (4 + length d) (Some p0) =
          (TFTP_OK, Some (packet_view (Data block d))) \<and>
        take (length d) (drop 4 b) = d) \<and>
    (\<exists>b. tftp_packet_build_error err (Some msg) (Some buf) cap (Some l) =
          (TFTP_OK, Some b, Some (5 + strlen msg)) \<and>
        tftp_packet_parse (Some b) (5 + strlen msg) (Some p0) =
          (TFTP_OK, Some (packet_view (Error err (c_string msg)))) \<and>
        take (strlen msg + 1) (drop 4 b) = c_string msg @ [0])"
proof -
  have parse: "tftp_packet_parse (Some (encode m @ r)) n (Some p0) =
      (TFTP_OK, Some (packet_view m))" if "wf_message m" "n = length (encode m)" for m r n
    using parse_encode [OF that(1), of p0] parse_take [of n "encode m @ r" "Some p0"] that(2)
    by simp
  show ?thesis
    using assms parse [of "Ack block" 4] parse [of "Data block d" "4 + length d"]
      parse [of "Error err (c_string msg)" "5 + length (c_string msg)"]
    by (simp add: build_ack_encode build_data_encode build_error_encode strlen_def)
qed

theorem build_parse_roundtrip_witness:
  "\<exists>b. tftp_packet_build_data 65535 (Some [1, 2, 3]) 3 (Some (replicate 516 0)) 516 (Some 0) =
      (TFTP_OK, Some b, Some 7) \<and> take 3 (drop 4 b) = [1, 2, 3]"
  using build_parse_roundtrip [of 516 "replicate 516 0" "[1, 2, 3]" "cstr ''no''" 65535 0 packet_zero 0]
  by (auto simp: strlen_def c_string_def cstr_def numeral_3_eq_3)

text \<open>
  The encoders never write past the buffer: an encoder whose output does not fit returns
  \<open>TFTP_ERR_NO_RESOURCE\<close>, a payload of more than 512 bytes \<open>TFTP_ERR_INVALID_ARGUMENT\<close>, and
  buffer and length are then unchanged.
\<close>

theorem build_errors_leave_buffer:
  "(cap < 4 \<longrightarrow> tftp_packet_build_ack block (Some buf) cap (Some l) =
      (TFTP_ERR_NO_RESOURCE, Some buf, Some l)) \<and>
   (512 < n \<longrightarrow> tftp_packet_build_data block (Some d) n (Some buf) cap (Some l) =
      (TFTP_ERR_INVALID_ARGUMENT, Some buf, Some l)) \<and>
   (n \<le> 512 \<and> cap < 4 + n \<longrightarrow> tftp_packet_build_data block (Some d) n (Some buf) cap (Some l) =
      (TFTP_ERR_NO_RESOURCE, Some buf, Some l)) \<and>
   (cap < 5 + strlen msg \<longrightarrow> tftp_packet_build_error err (Some msg) (Some buf) cap (Some l) =
      (TFTP_ERR_NO_RESOURCE, Some buf, Some l))"
  by (simp add: tftp_packet_build_ack_def tftp_packet_build_data_def tftp_packet_build_error_def
      tftp_defs)

theorem build_errors_leave_buffer_witness:
  "tftp_packet_build_ack 1 (Some [0, 0, 0]) 3 (Some 0) = (TFTP_ERR_NO_RESOURCE, Some [0, 0, 0], Some 0)"
  using build_errors_leave_buffer [of 3 1 "[0, 0, 0]" 0 0 "[]" "[]" 0] by simp

end
