(* ===== verification/Object_Pool.thy ===== *)
theory Object_Pool
  imports Tftp_Error
begin

text \<open>
  The interface that the static pools of the program share: \<open>acquire\<close> hands out the lowest
  free object or reports \<open>TFTP_ERR_NO_RESOURCE\<close>, \<open>release\<close> gives it back.  The laws are
  stated over \<open>used\<close>, the in-use flags of the pool; what clients rely on (capacity,
  distinct objects, reuse) is proved once here and holds for each pool through its
  interpretation in the theory of the component.
\<close>

locale object_pool =
  fixes used :: "'s \<Rightarrow> bool list"
    and acquire :: "'s \<Rightarrow> (tftp_status_t \<times> nat option) \<times> 's"
    and release :: "nat \<Rightarrow> 's \<Rightarrow> 's"
    and inv :: "'s \<Rightarrow> bool"
  assumes acquire_free:
      "inv s \<Longrightarrow> first_index Not (used s) = Some i \<Longrightarrow>
       \<exists>s'. acquire s = ((TFTP_OK, Some i), s') \<and> used s' = (used s)[i := True]"
    and acquire_full:
      "inv s \<Longrightarrow> first_index Not (used s) = None \<Longrightarrow>
       acquire s = ((TFTP_ERR_NO_RESOURCE, None), s)"
    and acquire_inv: "inv s \<Longrightarrow> inv (snd (acquire s))"
    and release_used:
      "inv s \<Longrightarrow> i < length (used s) \<Longrightarrow> used (release i s) = (used s)[i := False]"
    and release_inv: "inv s \<Longrightarrow> i < length (used s) \<Longrightarrow> inv (release i s)"
begin

definition free_count :: "'s \<Rightarrow> nat" where
  "free_count s = length (filter Not (used s))"

lemma free_count_0_iff: "free_count s = 0 \<longleftrightarrow> first_index Not (used s) = None"
  by (simp add: free_count_def first_index_None_iff filter_empty_conv)

lemma acquire_ok_iff:
  assumes "inv s"
  shows "fst (fst (acquire s)) = TFTP_OK \<longleftrightarrow> 0 < free_count s"
proof (cases "first_index Not (used s)")
  case None
  then have "free_count s = 0" using free_count_0_iff by blast
  with acquire_full [OF assms None] show ?thesis by simp
next
  case (Some i)
  then show ?thesis using acquire_free [OF assms Some] free_count_0_iff [of s] by auto
qed

lemma acquire_okD:
  assumes "inv s" "acquire s = ((TFTP_OK, p), s')"
  obtains i where "p = Some i" "i < length (used s)" "\<not> used s ! i"
    "used s' = (used s)[i := True]" "inv s'"
proof (cases "first_index Not (used s)")
  case None
  then have False using acquire_full assms by fastforce
  then show thesis ..
next
  case (Some i)
  with acquire_free [OF assms(1) Some] assms have "p = Some i" and "used s' = (used s)[i := True]"
    by auto
  moreover have "inv s'" using acquire_inv [OF assms(1)] assms(2) by simp
  ultimately show thesis using Some by (auto simp: first_index_Some_iff intro: that)
qed

lemma acquire_status:
  "inv s \<Longrightarrow> fst (fst (acquire s)) = TFTP_OK \<or> fst (fst (acquire s)) = TFTP_ERR_NO_RESOURCE"
  using acquire_free [of s] acquire_full [of s] by (cases "first_index Not (used s)") auto

lemma acquire_count:
  assumes "inv s" "acquire s = ((TFTP_OK, p), s')"
  shows "free_count s = Suc (free_count s')"
  using assms
proof (rule acquire_okD)
  fix i
  assume "i < length (used s)" "\<not> used s ! i" "used s' = (used s)[i := True]"
  then show "free_count s = Suc (free_count s')"
    using length_filter_update [of i "used s" Not True] by (simp add: free_count_def)
qed

lemma release_count:
  assumes "inv s" "i < length (used s)" "used s ! i"
  shows "free_count (release i s) = Suc (free_count s)"
  using length_filter_update [OF assms(2), of Not False] assms
  by (simp add: free_count_def release_used)

text \<open>An object that was given back can be acquired again.\<close>

lemma release_then_acquire:
  assumes "inv s" "i < length (used s)" "used s ! i"
  shows "fst (fst (acquire (release i s))) = TFTP_OK"
  using assms by (simp add: acquire_ok_iff release_count release_inv)

text \<open>\<open>n\<close> acquisitions in a row, with the objects handed out.\<close>

primrec acquire_many :: "nat \<Rightarrow> 's \<Rightarrow> nat list option \<times> 's" where
  "acquire_many 0 s = (Some [], s)"
| "acquire_many (Suc n) s =
     (case acquire s of ((st, p), s') \<Rightarrow>
        (case (st, p) of
           (TFTP_OK, Some i) \<Rightarrow>
             (case acquire_many n s' of (is, t) \<Rightarrow> (map_option (Cons i) is, t))
         | _ \<Rightarrow> (None, s')))"

lemma acquire_many_used:
  "inv s \<Longrightarrow> acquire_many n s = (Some is, t) \<Longrightarrow>
   length is = n \<and> distinct is \<and> set is \<subseteq> {i. i < length (used s) \<and> \<not> used s ! i} \<and>
   length (used t) = length (used s) \<and>
   (\<forall>i<length (used s). used t ! i = (used s ! i \<or> i \<in> set is)) \<and>
   free_count s = n + free_count t"
proof (induction n arbitrary: s "is" t)
  case 0
  then show ?case by auto
next
  case (Suc n)
  then obtain i js s' where a: "acquire s = ((TFTP_OK, Some i), s')"
    and m: "acquire_many n s' = (Some js, t)" and "is": "is = i # js"
    by (auto split: prod.splits tftp_status_t.splits option.splits)
  from Suc.prems(1) a obtain i: "i < length (used s)" "\<not> used s ! i" "inv s'"
    and u: "used s' = (used s)[i := True]"
    by (auto elim: acquire_okD)
  from Suc.IH [OF i(3) m] i u "is" acquire_count [OF Suc.prems(1) a] show ?case
    by (auto simp: nth_list_update split: if_splits)
qed

lemma acquire_many_iff: "inv s \<Longrightarrow> fst (acquire_many n s) \<noteq> None \<longleftrightarrow> n \<le> free_count s"
proof (induction n arbitrary: s)
  case 0
  then show ?case by simp
next
  case (Suc n)
  show ?case
  proof (cases "first_index Not (used s)")
    case None
    then show ?thesis
      using acquire_full [OF Suc.prems None] free_count_0_iff [of s] by simp
  next
    case (Some i)
    then obtain s' where a: "acquire s = ((TFTP_OK, Some i), s')"
      using acquire_free [OF Suc.prems] by blast
    then have "inv s'" using acquire_inv [OF Suc.prems] by simp
    then show ?thesis
      using Suc.IH [of s'] acquire_count [OF Suc.prems a] by (auto simp: a split: prod.split)
  qed
qed

end

end
