(* ===== verification/Posix.thy ===== *)
theory Posix
  imports Tftp_Prelude
begin

text \<open>
  What the program uses of the C library and of the kernel: \<open>FILE\<close> streams over a file
  system, UDP sockets, \<open>fcntl\<close>, \<open>close\<close>, \<open>poll\<close> and the monotonic clock.

  The state is explicit (\<open>os\<close>) and every call is deterministic in it; what the environment
  decides is scripted in the state and consumed call by call: \<open>faults\<close> says which of the
  next calls fail and how (an empty list: none fails), \<open>rx\<close> what the next \<open>recvfrom\<close> calls
  return (empty: nothing to receive), \<open>polls\<close> what the next \<open>poll\<close> calls report (empty:
  they time out).  A theorem for every \<open>os\<close> is therefore a theorem for every behaviour of
  network, disk and kernel.  \<open>sent\<close> records the datagrams handed to the network.
\<close>

section \<open>State\<close>

text \<open>
  \<open>struct sockaddr_in\<close>.  The fields hold the numbers that they denote, so the byte-order
  conversions \<open>htons\<close> and \<open>htonl\<close> do not appear.
\<close>

record sockaddr_in =
  sin_family :: u16
  sin_port :: u16
  s_addr :: u32

definition AF_INET :: u16 where
  "AF_INET = 2"

definition INADDR_ANY :: u32 where
  "INADDR_ANY = 0"

definition sockaddr_zero :: sockaddr_in where
  "sockaddr_zero = \<lparr>sin_family = 0, sin_port = 0, s_addr = 0\<rparr>"

datatype fault = F_none | F_again | F_io | F_short nat

datatype rx_answer = Rx_again | Rx_fail | Rx_data sockaddr_in bytes

datatype poll_answer = Poll_fail | Poll_events "u16 list"

datatype io_result = IO_ok nat | IO_again | IO_fail

record stream =
  st_path :: bytes
  st_fd :: int
  st_pos :: nat
  st_err :: bool

record os =
  fs :: "bytes \<rightharpoonup> bytes"
  fds :: "int list"
  nonblock :: "int list"
  rcvtimeo :: "int list"
  bound :: "(int \<times> sockaddr_in) list"
  streams :: "nat \<rightharpoonup> stream"
  next_stream :: nat
  sent :: "(int \<times> sockaddr_in \<times> bytes) list"
  rx :: "rx_answer list"
  polls :: "poll_answer list"
  faults :: "fault list"
  clock :: "u64 \<times> u64"

definition next_fault :: "os \<Rightarrow> fault \<times> os" where
  "next_fault k = (case faults k of [] \<Rightarrow> (F_none, k) | f # rest \<Rightarrow> (f, k\<lparr>faults := rest\<rparr>))"

text \<open>POSIX hands out the lowest descriptor that is not open.\<close>

fun lowest_free :: "int list \<Rightarrow> nat \<Rightarrow> nat \<Rightarrow> int" where
  "lowest_free used n 0 = int n"
| "lowest_free used n (Suc m) =
     (if int n \<in> set used then lowest_free used (Suc n) m else int n)"

definition alloc_fd :: "int list \<Rightarrow> int" where
  "alloc_fd used = lowest_free used 0 (length used)"

section \<open>Streams\<close>

definition stream_content :: "os \<Rightarrow> stream \<Rightarrow> bytes" where
  "stream_content k st = (case fs k (st_path st) of None \<Rightarrow> [] | Some c \<Rightarrow> c)"

text \<open>\<open>fopen(path, "rb")\<close> (\<open>write = False\<close>) and \<open>fopen(path, "wb")\<close>, which truncates.\<close>

definition sys_fopen :: "bytes \<Rightarrow> bool \<Rightarrow> os \<Rightarrow> ptr \<times> os" where
  "sys_fopen path write k =
     (case next_fault k of (f, k) \<Rightarrow>
        if f \<noteq> F_none \<or> (\<not> write \<and> fs k path = None) then (None, k)
        else
          let fd = alloc_fd (fds k); sid = next_stream k in
          (Some sid,
           k\<lparr>fs := (if write then (fs k)(path \<mapsto> []) else fs k),
             fds := fd # fds k,
             streams := (streams k)
               (sid \<mapsto> \<lparr>st_path = path, st_fd = fd, st_pos = 0, st_err = False\<rparr>),
             next_stream := Suc sid\<rparr>))"

definition read_amount :: "fault \<Rightarrow> nat \<Rightarrow> nat" where
  "read_amount f n = (case f of F_none \<Rightarrow> n | F_short m \<Rightarrow> min m n | _ \<Rightarrow> 0)"

text \<open>\<open>fread(buffer, 1, n, fp)\<close>: the bytes read; a failed read sets the error indicator.\<close>

definition sys_fread :: "nat \<Rightarrow> nat \<Rightarrow> os \<Rightarrow> bytes \<times> os" where
  "sys_fread sid n k =
     (case streams k sid of
        None \<Rightarrow> ([], k)
      | Some st \<Rightarrow>
          (case next_fault k of (f, k) \<Rightarrow>
             let data = take (read_amount f n) (drop (st_pos st) (stream_content k st)) in
             (data,
              k\<lparr>streams := (streams k)(sid \<mapsto>
                   st\<lparr>st_pos := st_pos st + length data, st_err := st_err st \<or> f \<noteq> F_none\<rparr>)\<rparr>)))"

definition sys_ferror :: "nat \<Rightarrow> os \<Rightarrow> bool" where
  "sys_ferror sid k = (case streams k sid of None \<Rightarrow> False | Some st \<Rightarrow> st_err st)"

text \<open>\<open>fwrite(buffer, 1, n, fp)\<close>: the number of bytes written.\<close>

definition sys_fwrite :: "nat \<Rightarrow> bytes \<Rightarrow> os \<Rightarrow> nat \<times> os" where
  "sys_fwrite sid data k =
     (case streams k sid of
        None \<Rightarrow> (0, k)
      | Some st \<Rightarrow>
          (case next_fault k of (f, k) \<Rightarrow>
             let out = take (read_amount f (length data)) data;
                 old = stream_content k st in
             (length out,
              k\<lparr>fs := (fs k)(st_path st \<mapsto>
                   take (st_pos st) old @ out @ drop (st_pos st + length out) old),
                streams := (streams k)(sid \<mapsto>
                   st\<lparr>st_pos := st_pos st + length out, st_err := st_err st \<or> f \<noteq> F_none\<rparr>)\<rparr>)))"

text \<open>\<open>fclose\<close> ends the stream and frees its descriptor also when it reports a failure.\<close>

definition sys_fclose :: "nat \<Rightarrow> os \<Rightarrow> int \<times> os" where
  "sys_fclose sid k =
     (case streams k sid of
        None \<Rightarrow> (-1, k)
      | Some st \<Rightarrow>
          (case next_fault k of (f, k) \<Rightarrow>
             (if f = F_none then 0 else -1,
              k\<lparr>streams := (streams k)(sid := None), fds := removeAll (st_fd st) (fds k)\<rparr>)))"

section \<open>Sockets\<close>

definition sys_socket :: "os \<Rightarrow> int \<times> os" where
  "sys_socket k =
     (case next_fault k of (f, k) \<Rightarrow>
        if f \<noteq> F_none then (-1, k)
        else let fd = alloc_fd (fds k) in
          (fd, k\<lparr>fds := fd # fds k, nonblock := removeAll fd (nonblock k),
               rcvtimeo := removeAll fd (rcvtimeo k)\<rparr>))"

definition O_NONBLOCK :: int where
  "O_NONBLOCK = 2048"

definition O_RDWR :: int where
  "O_RDWR = 2"

definition sys_fcntl_getfl :: "int \<Rightarrow> os \<Rightarrow> int \<times> os" where
  "sys_fcntl_getfl fd k =
     (case next_fault k of (f, k) \<Rightarrow>
        if f \<noteq> F_none \<or> fd \<notin> set (fds k) then (-1, k)
        else (if fd \<in> set (nonblock k) then O_RDWR OR O_NONBLOCK else O_RDWR, k))"

definition sys_fcntl_setfl :: "int \<Rightarrow> int \<Rightarrow> os \<Rightarrow> int \<times> os" where
  "sys_fcntl_setfl fd flags k =
     (case next_fault k of (f, k) \<Rightarrow>
        if f \<noteq> F_none \<or> fd \<notin> set (fds k) then (-1, k)
        else (0, if flags AND O_NONBLOCK \<noteq> 0 then k\<lparr>nonblock := fd # nonblock k\<rparr>
                 else k\<lparr>nonblock := removeAll fd (nonblock k)\<rparr>))"

definition sys_bind :: "int \<Rightarrow> sockaddr_in \<Rightarrow> os \<Rightarrow> int \<times> os" where
  "sys_bind fd address k =
     (case next_fault k of (f, k) \<Rightarrow>
        if f \<noteq> F_none \<or> fd \<notin> set (fds k) then (-1, k)
        else (0, k\<lparr>bound := (fd, address) # bound k\<rparr>))"

text \<open>\<open>close\<close> frees the descriptor also when it reports a failure, as Linux does.\<close>

definition sys_close :: "int \<Rightarrow> os \<Rightarrow> int \<times> os" where
  "sys_close fd k =
     (case next_fault k of (f, k) \<Rightarrow>
        if fd \<notin> set (fds k) then (-1, k)
        else (if f = F_none then 0 else -1,
              k\<lparr>fds := removeAll fd (fds k), bound := filter (\<lambda>b. fst b \<noteq> fd) (bound k)\<rparr>))"

text \<open>
  \<open>recvfrom\<close> with room for \<open>n\<close> bytes: a longer datagram is cut.  An empty script is a
  non-blocking socket with nothing to receive.
\<close>

definition sys_recvfrom :: "int \<Rightarrow> nat \<Rightarrow> os \<Rightarrow> (io_result \<times> bytes \<times> sockaddr_in) \<times> os" where
  "sys_recvfrom fd n k =
     (if fd \<notin> set (fds k) then ((IO_fail, [], sockaddr_zero), k)
      else case rx k of
        [] \<Rightarrow> ((IO_again, [], sockaddr_zero), k)
      | Rx_again # r \<Rightarrow> ((IO_again, [], sockaddr_zero), k\<lparr>rx := r\<rparr>)
      | Rx_fail # r \<Rightarrow> ((IO_fail, [], sockaddr_zero), k\<lparr>rx := r\<rparr>)
      | Rx_data from data # r \<Rightarrow>
          ((IO_ok (length (take n data)), take n data, from), k\<lparr>rx := r\<rparr>))"

text \<open>
  The same call on a blocking socket, as the programs under \<open>src/legacy\<close> make it.  With a
  receive timeout (\<open>setsockopt(SO_RCVTIMEO)\<close>) it fails with \<open>EAGAIN\<close> when no datagram arrives
  in time; without one it does not return as long as none arrives, which is \<open>None\<close>.
\<close>

definition sys_setsockopt_rcvtimeo :: "int \<Rightarrow> os \<Rightarrow> int \<times> os" where
  "sys_setsockopt_rcvtimeo fd k =
     (case next_fault k of (f, k) \<Rightarrow>
        if f \<noteq> F_none \<or> fd \<notin> set (fds k) then (-1, k)
        else (0, k\<lparr>rcvtimeo := fd # rcvtimeo k\<rparr>))"

definition sys_recvfrom_wait ::
  "int \<Rightarrow> nat \<Rightarrow> os \<Rightarrow> (io_result \<times> bytes \<times> sockaddr_in) option \<times> os" where
  "sys_recvfrom_wait fd n k =
     (if fd \<in> set (fds k) \<and> fd \<notin> set (rcvtimeo k) \<and> rx k = [] then (None, k)
      else (case sys_recvfrom fd n k of (r, k) \<Rightarrow> (Some r, k)))"

definition sys_sendto :: "int \<Rightarrow> bytes \<Rightarrow> sockaddr_in \<Rightarrow> os \<Rightarrow> io_result \<times> os" where
  "sys_sendto fd data to k =
     (case next_fault k of (f, k) \<Rightarrow>
        if fd \<notin> set (fds k) then (IO_fail, k)
        else case f of
          F_none \<Rightarrow> (IO_ok (length data), k\<lparr>sent := sent k @ [(fd, to, data)]\<rparr>)
        | F_again \<Rightarrow> (IO_again, k)
        | F_io \<Rightarrow> (IO_fail, k)
        | F_short m \<Rightarrow> (IO_ok (length (take m data)),
            k\<lparr>sent := sent k @ [(fd, to, take m data)]\<rparr>))"

section \<open>Polling and time\<close>

definition POLLIN :: u16 where "POLLIN = 0x001"
definition POLLOUT :: u16 where "POLLOUT = 0x004"
definition POLLERR :: u16 where "POLLERR = 0x008"
definition POLLHUP :: u16 where "POLLHUP = 0x010"
definition POLLNVAL :: u16 where "POLLNVAL = 0x020"

record pollfd =
  pf_fd :: int
  pf_events :: u16
  pf_revents :: u16

text \<open>
  \<open>poll\<close> over the first \<open>n\<close> entries of the array: an entry reports only events that it
  asked for, or an error condition.
\<close>

definition poll_revents :: "u16 list \<Rightarrow> nat \<Rightarrow> pollfd \<Rightarrow> pollfd" where
  "poll_revents evs i p =
     p\<lparr>pf_revents := (if i < length evs then evs ! i else 0)
         AND (pf_events p OR POLLERR OR POLLHUP OR POLLNVAL)\<rparr>"

definition sys_poll :: "pollfd list \<Rightarrow> nat \<Rightarrow> os \<Rightarrow> (int \<times> pollfd list) \<times> os" where
  "sys_poll pfds n k =
     (case polls k of
        [] \<Rightarrow> ((0, pfds), k)
      | Poll_fail # r \<Rightarrow> ((-1, pfds), k\<lparr>polls := r\<rparr>)
      | Poll_events evs # r \<Rightarrow>
          let polled = map2 (poll_revents evs) [0..<n] (take n pfds) in
          ((int (length (filter (\<lambda>p. pf_revents p \<noteq> 0) polled)), polled @ drop n pfds),
           k\<lparr>polls := r\<rparr>))"

definition sys_clock_gettime :: "os \<Rightarrow> (int \<times> u64 \<times> u64) \<times> os" where
  "sys_clock_gettime k =
     (case next_fault k of (f, k) \<Rightarrow>
        if f \<noteq> F_none then ((-1, 0, 0), k) else ((0, clock k), k))"

lemmas os_call_defs =
  sys_fopen_def sys_fread_def sys_fwrite_def sys_fclose_def sys_socket_def
  sys_fcntl_getfl_def sys_fcntl_setfl_def sys_bind_def sys_close_def sys_recvfrom_def
  sys_sendto_def sys_poll_def sys_clock_gettime_def

section \<open>Descriptors\<close>

lemma lowest_free_bounds: "int n \<le> lowest_free used n m \<and> lowest_free used n m \<le> int (n + m)"
  by (induction used n m rule: lowest_free.induct) auto

lemma lowest_free_notin:
  "lowest_free used n m \<in> set used \<Longrightarrow> int ` {n..n + m} \<subseteq> set used"
proof (induction used n m rule: lowest_free.induct)
  case (1 used n)
  then show ?case by simp
next
  case (2 used n m)
  then have "int n \<in> set used" and "int ` {Suc n..Suc n + m} \<subseteq> set used"
    by (auto split: if_splits)
  moreover have "{n..n + Suc m} = insert n {Suc n..Suc n + m}" by auto
  ultimately show ?case by simp
qed

text \<open>The descriptor of a new socket or stream is fresh: pigeonhole over the open ones.\<close>

lemma alloc_fd_fresh [simp]: "alloc_fd used \<notin> set used"
proof
  assume "alloc_fd used \<in> set used"
  then have sub: "int ` {0..length used} \<subseteq> set used"
    unfolding alloc_fd_def by (metis add_0 lowest_free_notin)
  have "card (int ` {0..length used}) = Suc (length used)"
    by (simp add: card_image)
  moreover have "card (int ` {0..length used}) \<le> card (set used)"
    by (rule card_mono [OF _ sub]) simp
  moreover have "card (set used) \<le> length used" by (rule card_length)
  ultimately show False by simp
qed

lemma alloc_fd_nonneg [simp]: "0 \<le> alloc_fd used"
  using lowest_free_bounds [of 0 used "length used"] by (simp add: alloc_fd_def)

lemma alloc_fd_not_neg [simp]: "\<not> alloc_fd used < 0"
  by (simp add: not_less)

section \<open>The fault script\<close>

text \<open>A fault-free environment stays fault free, and each call then has its normal result.\<close>

lemma next_fault_none [simp]: "faults k = [] \<Longrightarrow> next_fault k = (F_none, k)"
  by (simp add: next_fault_def)

lemma next_fault_frame [frame_simps]:
  "next_fault k = (f, k') \<Longrightarrow> k' = k\<lparr>faults := tl (faults k)\<rparr>"
  by (cases "faults k") (auto simp: next_fault_def)

lemma next_fault_obtain: "\<exists>f. next_fault k = (f, k\<lparr>faults := tl (faults k)\<rparr>)"
  by (cases "faults k") (auto simp: next_fault_def)

lemma next_fault_snd [simp]: "snd (next_fault k) = k\<lparr>faults := tl (faults k)\<rparr>"
  by (cases "faults k") (auto simp: next_fault_def)

section \<open>What a call leaves alone\<close>

text \<open>
  \<open>disk_same\<close>: the files and streams are those of before.  \<open>script_same\<close>: nothing was sent,
  and the scripts of received datagrams and poll results were not advanced.
\<close>

definition disk_same :: "os \<Rightarrow> os \<Rightarrow> bool" where
  "disk_same k k' \<longleftrightarrow>
     fs k' = fs k \<and> streams k' = streams k \<and> next_stream k' = next_stream k"

definition script_same :: "os \<Rightarrow> os \<Rightarrow> bool" where
  "script_same k k' \<longleftrightarrow> sent k' = sent k \<and> rx k' = rx k \<and> polls k' = polls k"

lemma disk_same_refl [simp]: "disk_same k k"
  by (simp add: disk_same_def)

lemma script_same_refl [simp]: "script_same k k"
  by (simp add: script_same_def)

lemma disk_same_trans: "disk_same a b \<Longrightarrow> disk_same b c \<Longrightarrow> disk_same a c"
  by (simp add: disk_same_def)

lemma script_same_trans: "script_same a b \<Longrightarrow> script_same b c \<Longrightarrow> script_same a c"
  by (simp add: script_same_def)

lemmas same_defs = disk_same_def script_same_def

lemma sys_socket_effect:
  assumes "sys_socket k = (fd, k')"
  shows "disk_same k k' \<and> script_same k k' \<and>
    (fd = -1 \<and> fds k' = fds k \<or> fd = alloc_fd (fds k) \<and> fds k' = fd # fds k)"
  using assms by (auto simp: sys_socket_def same_defs Let_def next_fault_def split: list.splits if_splits)

lemma sys_fcntl_getfl_effect:
  assumes "sys_fcntl_getfl fd k = (r, k')"
  shows "disk_same k k' \<and> script_same k k' \<and> fds k' = fds k"
  using assms by (auto simp: sys_fcntl_getfl_def same_defs next_fault_def split: list.splits if_splits)

lemma sys_fcntl_setfl_effect:
  assumes "sys_fcntl_setfl fd flags k = (r, k')"
  shows "disk_same k k' \<and> script_same k k' \<and> fds k' = fds k"
  using assms by (auto simp: sys_fcntl_setfl_def same_defs next_fault_def split: list.splits if_splits)

lemma sys_bind_effect:
  assumes "sys_bind fd a k = (r, k')"
  shows "disk_same k k' \<and> script_same k k' \<and> fds k' = fds k"
  using assms by (auto simp: sys_bind_def same_defs next_fault_def split: list.splits if_splits)

lemma sys_close_effect:
  assumes "sys_close fd k = (r, k')"
  shows "disk_same k k' \<and> script_same k k' \<and> fds k' = removeAll fd (fds k)"
  using assms
  by (auto simp: sys_close_def same_defs next_fault_def removeAll_id split: list.splits if_splits)

lemma sys_recvfrom_effect:
  assumes "sys_recvfrom fd n k = (r, k')"
  shows "disk_same k k' \<and> fds k' = fds k \<and> sent k' = sent k \<and> polls k' = polls k \<and>
    faults k' = faults k"
  using assms
  by (auto simp: sys_recvfrom_def same_defs split: list.splits if_splits rx_answer.splits)

lemma sys_sendto_effect:
  assumes "sys_sendto fd d a k = (r, k')"
  shows "disk_same k k' \<and> fds k' = fds k \<and> rx k' = rx k \<and> polls k' = polls k \<and>
    (sent k' = sent k \<or> (\<exists>m. sent k' = sent k @ [(fd, a, take m d)]))"
  using assms
  by (auto simp: sys_sendto_def same_defs next_fault_def split: list.splits if_splits fault.splits)
    (metis take_all_iff order_refl)+

lemma sys_fopen_effect:
  assumes "sys_fopen path False k = (fp, k')"
  shows "script_same k k' \<and> fs k' = fs k \<and>
    (fp = None \<and> disk_same k k' \<and> fds k' = fds k \<or>
     fp = Some (next_stream k) \<and> next_stream k' = Suc (next_stream k) \<and>
     fds k' = alloc_fd (fds k) # fds k \<and> fs k path \<noteq> None \<and>
     streams k' = (streams k)(next_stream k \<mapsto>
       \<lparr>st_path = path, st_fd = alloc_fd (fds k), st_pos = 0, st_err = False\<rparr>))"
  using assms
  by (auto simp: sys_fopen_def same_defs Let_def next_fault_def split: list.splits if_splits)

lemma sys_fread_effect:
  assumes "sys_fread sid n k = (data, k')" "streams k sid = Some st"
  shows "script_same k k' \<and> fs k' = fs k \<and> fds k' = fds k \<and> next_stream k' = next_stream k \<and>
    length data \<le> n \<and>
    (\<exists>st'. streams k' = (streams k)(sid \<mapsto> st') \<and> st_fd st' = st_fd st \<and> st_path st' = st_path st)"
  using assms
  by (auto simp: sys_fread_def same_defs Let_def next_fault_def read_amount_def
      split: list.splits fault.splits)

lemma sys_fclose_effect:
  assumes "sys_fclose sid k = (r, k')" "streams k sid = Some st"
  shows "script_same k k' \<and> fs k' = fs k \<and> next_stream k' = next_stream k \<and>
    streams k' = (streams k)(sid := None) \<and> fds k' = removeAll (st_fd st) (fds k)"
  using assms by (auto simp: sys_fclose_def same_defs next_fault_def split: list.splits)


section \<open>A start state\<close>

text \<open>
  A process with the three standard descriptors on a machine that holds the files \<open>disk\<close>,
  with nothing scripted: every call succeeds and no datagram arrives.  The examples start here.
\<close>

definition os_start :: "(bytes \<rightharpoonup> bytes) \<Rightarrow> os" where
  "os_start disk =
     \<lparr>fs = disk, fds = [2, 1, 0], nonblock = [], rcvtimeo = [], bound = [], streams = Map.empty,
      next_stream = 0, sent = [], rx = [], polls = [], faults = [], clock = (0, 0)\<rparr>"


section \<open>Streams in order\<close>

text \<open>
  Stream numbers are below the next one to be given out, every stream holds an open
  descriptor, and no two streams share one.
\<close>

definition streams_ok :: "os \<Rightarrow> bool" where
  "streams_ok k \<longleftrightarrow>
     (\<forall>sid st. streams k sid = Some st \<longrightarrow> sid < next_stream k \<and> st_fd st \<in> set (fds k)) \<and>
     (\<forall>sid sid' st st'. streams k sid = Some st \<and> streams k sid' = Some st' \<and> st_fd st = st_fd st' \<longrightarrow>
        sid = sid')"

lemma streams_ok_start [simp]: "streams_ok (os_start disk)"
  by (simp add: streams_ok_def os_start_def)

lemma streams_okD:
  assumes "streams_ok k" "streams k sid = Some st"
  shows "sid < next_stream k" "st_fd st \<in> set (fds k)"
  using assms by (auto simp: streams_ok_def)

lemma streams_ok_inj:
  "streams_ok k \<Longrightarrow> streams k sid = Some st \<Longrightarrow> streams k sid' = Some st' \<Longrightarrow> sid \<noteq> sid' \<Longrightarrow>
   st_fd st \<noteq> st_fd st'"
  by (auto simp: streams_ok_def)

lemma streams_ok_fresh: "streams_ok k \<Longrightarrow> streams k (next_stream k) = None"
  by (cases "streams k (next_stream k)") (auto simp: streams_ok_def)

lemma streams_ok_fresh_fd: "streams_ok k \<Longrightarrow> streams k sid = Some st \<Longrightarrow> st_fd st \<noteq> alloc_fd (fds k)"
  by (metis alloc_fd_fresh streams_okD(2))

lemma sys_fopen_write_effect:
  assumes "sys_fopen path write k = (fp, k')"
  shows "script_same k k' \<and>
    (fp = None \<and> disk_same k k' \<and> fds k' = fds k \<or>
     fp = Some (next_stream k) \<and> next_stream k' = Suc (next_stream k) \<and>
     fds k' = alloc_fd (fds k) # fds k \<and>
     fs k' = (if write then (fs k)(path \<mapsto> []) else fs k) \<and> fs k' path \<noteq> None \<and>
     streams k' = (streams k)(next_stream k \<mapsto>
       \<lparr>st_path = path, st_fd = alloc_fd (fds k), st_pos = 0, st_err = False\<rparr>))"
  using assms
  by (auto simp: sys_fopen_def same_defs Let_def next_fault_def split: list.splits if_splits)

lemma sys_fwrite_effect:
  assumes "sys_fwrite sid d k = (n, k')" "streams k sid = Some st"
  shows "script_same k k' \<and> fds k' = fds k \<and> next_stream k' = next_stream k \<and> n \<le> length d \<and>
    (\<exists>st'. streams k' = (streams k)(sid \<mapsto> st') \<and> st_fd st' = st_fd st \<and> st_path st' = st_path st)"
  using assms
  by (auto simp: sys_fwrite_def same_defs Let_def next_fault_def read_amount_def
      split: list.splits fault.splits)

lemma streams_ok_fopen:
  assumes ok: "streams_ok k" and e: "sys_fopen path write k = (fp, k')"
  shows "streams_ok k'"
proof -
  from sys_fopen_write_effect [OF e] consider
      "disk_same k k'" "fds k' = fds k"
    | "next_stream k' = Suc (next_stream k)" "fds k' = alloc_fd (fds k) # fds k"
      "streams k' = (streams k)(next_stream k \<mapsto>
         \<lparr>st_path = path, st_fd = alloc_fd (fds k), st_pos = 0, st_err = False\<rparr>)" by blast
  then show ?thesis
  proof cases
    case 1
    with ok show ?thesis by (simp add: streams_ok_def disk_same_def)
  next
    case 2
    have "st_fd st \<noteq> alloc_fd (fds k) \<and> alloc_fd (fds k) \<noteq> st_fd st"
      if "streams k sid = Some st" for sid st
      using streams_ok_fresh_fd [OF ok that] by simp
    with 2 ok show ?thesis
      unfolding streams_ok_def by (auto simp: less_Suc_eq split: if_splits)
  qed
qed

lemma streams_ok_update:
  assumes "streams_ok k" "streams k sid = Some st" "streams k' = (streams k)(sid \<mapsto> st')"
    "st_fd st' = st_fd st" "fds k' = fds k" "next_stream k' = next_stream k"
  shows "streams_ok k'"
proof -
  have "\<exists>st. streams k s = Some st \<and> st_fd st = st_fd x" if "streams k' s = Some x" for s x
    using that assms(2-4) by (auto split: if_splits)
  then show ?thesis
    using assms(1) unfolding streams_ok_def assms(5,6) by metis
qed

lemma streams_ok_fclose:
  assumes ok: "streams_ok k" and st: "streams k sid = Some st"
    and e: "streams k' = (streams k)(sid := None)" "fds k' = removeAll (st_fd st) (fds k)"
      "next_stream k' = next_stream k"
  shows "streams_ok k'"
  using ok streams_ok_inj [OF ok st] unfolding streams_ok_def e
  by (fastforce split: if_splits)

text \<open>Only the descriptors matter to the calls that leave the streams alone.\<close>

lemma streams_ok_fds:
  "streams_ok k \<Longrightarrow> streams k' = streams k \<Longrightarrow> next_stream k' = next_stream k \<Longrightarrow>
   (\<And>sid st. streams k sid = Some st \<Longrightarrow> st_fd st \<in> set (fds k')) \<Longrightarrow> streams_ok k'"
  unfolding streams_ok_def by auto

end
