(* ===== verification/Udp_Transport.thy ===== *)
theory Udp_Transport
  imports Object_Pool Posix
begin

text \<open>
  \<open>src/tftp/transport\<close>: UDP sockets behind handles from a static pool of two.  The state is
  the pair of \<open>udp_state\<close> (the file's static variables) and the operating system; a handle
  is an index into the pool.
\<close>

section \<open>State\<close>

definition UDP_TRANSPORT_POOL_SIZE :: nat where "UDP_TRANSPORT_POOL_SIZE = 2"

type_synonym udp_endpoint_t = sockaddr_in

record udp_transport_config_t =
  tc_local_port :: u16
  tc_non_blocking :: bool

record udp_transport =
  u_initialized :: bool
  u_open :: bool
  u_fd :: int
  u_local_port :: u16
  u_non_blocking :: bool

definition udp_transport_zero :: udp_transport where
  "udp_transport_zero =
     \<lparr>u_initialized = False, u_open = False, u_fd = 0, u_local_port = 0, u_non_blocking = False\<rparr>"

record udp_state =
  g_transport_pool :: "udp_transport list"
  g_transport_used :: "bool list"

type_synonym udp_os = "udp_state \<times> os"

text \<open>The static variables at program start.\<close>

definition udp_state_init :: udp_state where
  "udp_state_init =
     \<lparr>g_transport_pool = replicate UDP_TRANSPORT_POOL_SIZE udp_transport_zero,
      g_transport_used = replicate UDP_TRANSPORT_POOL_SIZE False\<rparr>"

abbreviation tp :: "udp_os \<Rightarrow> nat \<Rightarrow> udp_transport" where
  "tp s i \<equiv> g_transport_pool (fst s) ! i"

definition set_tp :: "nat \<Rightarrow> udp_transport \<Rightarrow> udp_os \<Rightarrow> udp_os" where
  "set_tp i t s =
     ((fst s)\<lparr>g_transport_pool := (g_transport_pool (fst s))[i := t]\<rparr>, snd s)"

section \<open>Life cycle\<close>

text \<open>
  \<open>out\<close> is the caller's pointer variable (\<open>None\<close>: a NULL \<open>out\<close>).  The loop looks for the
  first unused slot; on success it is zeroed, its descriptor set to -1.
\<close>

definition udp_transport_acquire ::
  "ptr option \<Rightarrow> udp_os \<Rightarrow> (tftp_status_t \<times> ptr option) \<times> udp_os" where
  "udp_transport_acquire out s =
     (case out of
        None \<Rightarrow> ((TFTP_ERR_INVALID_ARGUMENT, None), s)
      | Some _ \<Rightarrow>
          (case first_index Not (g_transport_used (fst s)) of
             Some i \<Rightarrow>
               ((TFTP_OK, Some (Some i)),
                ((fst s)\<lparr>g_transport_used := (g_transport_used (fst s))[i := True],
                         g_transport_pool :=
                           (g_transport_pool (fst s))[i := udp_transport_zero\<lparr>u_fd := -1\<rparr>]\<rparr>,
                 snd s))
           | None \<Rightarrow> ((TFTP_ERR_NO_RESOURCE, Some None), s)))"

definition udp_transport_init ::
  "ptr \<Rightarrow> udp_transport_config_t option \<Rightarrow> udp_os \<Rightarrow> tftp_status_t \<times> udp_os" where
  "udp_transport_init self config s =
     (case (self, config) of
        (Some i, Some c) \<Rightarrow>
          if u_initialized (tp s i) then (TFTP_ERR_INVALID_STATE, s)
          else
            (TFTP_OK,
             set_tp i ((tp s i)\<lparr>u_fd := -1, u_local_port := tc_local_port c,
                                u_non_blocking := tc_non_blocking c, u_open := False,
                                u_initialized := True\<rparr>) s)
      | _ \<Rightarrow> (TFTP_ERR_INVALID_ARGUMENT, s))"

text \<open>\<open>(void)close(self->fd); self->fd = -1;\<close>: the failure branches of \<open>udp_transport_open\<close>.\<close>

definition close_failed_open :: "nat \<Rightarrow> udp_os \<Rightarrow> udp_os" where
  "close_failed_open i s =
     (case sys_close (u_fd (tp s i)) (snd s) of
        (_, k) \<Rightarrow> set_tp i ((tp s i)\<lparr>u_fd := -1\<rparr>) (fst s, k))"

definition udp_transport_open :: "ptr \<Rightarrow> udp_os \<Rightarrow> tftp_status_t \<times> udp_os" where
  "udp_transport_open self s =
     (case self of
        None \<Rightarrow> (TFTP_ERR_INVALID_ARGUMENT, s)
      | Some i \<Rightarrow>
          if \<not> u_initialized (tp s i) then (TFTP_ERR_NOT_INITIALIZED, s)
          else if u_open (tp s i) then (TFTP_ERR_INVALID_STATE, s)
          else
            (case sys_socket (snd s) of (fd, k) \<Rightarrow>
               let s = set_tp i ((tp s i)\<lparr>u_fd := fd\<rparr>) (fst s, k) in
               if fd < 0 then (TFTP_ERR_IO, set_tp i ((tp s i)\<lparr>u_fd := -1\<rparr>) s)
               else if u_non_blocking (tp s i) then
                 (case sys_fcntl_getfl fd (snd s) of (flags, k) \<Rightarrow>
                    let s = (fst s, k) in
                    if flags < 0 then (TFTP_ERR_IO, close_failed_open i s)
                    else
                      (case sys_fcntl_setfl fd (flags OR O_NONBLOCK) (snd s) of (r, k) \<Rightarrow>
                         let s = (fst s, k) in
                         if r < 0 then (TFTP_ERR_IO, close_failed_open i s)
                         else (TFTP_OK, set_tp i ((tp s i)\<lparr>u_open := True\<rparr>) s)))
               else (TFTP_OK, set_tp i ((tp s i)\<lparr>u_open := True\<rparr>) s)))"

definition udp_transport_bind :: "ptr \<Rightarrow> u16 \<Rightarrow> udp_os \<Rightarrow> tftp_status_t \<times> udp_os" where
  "udp_transport_bind self port s =
     (case self of
        None \<Rightarrow> (TFTP_ERR_INVALID_ARGUMENT, s)
      | Some i \<Rightarrow>
          if \<not> u_initialized (tp s i) then (TFTP_ERR_NOT_INITIALIZED, s)
          else if \<not> u_open (tp s i) then (TFTP_ERR_INVALID_STATE, s)
          else
            let address = sockaddr_zero
                  \<lparr>sin_family := AF_INET, s_addr := INADDR_ANY, sin_port := port\<rparr> in
            (case sys_bind (u_fd (tp s i)) address (snd s) of (r, k) \<Rightarrow>
               let s = (fst s, k) in
               if r < 0 then (TFTP_ERR_IO, s)
               else (TFTP_OK, set_tp i ((tp s i)\<lparr>u_local_port := port\<rparr>) s)))"

definition udp_transport_close :: "ptr \<Rightarrow> udp_os \<Rightarrow> tftp_status_t \<times> udp_os" where
  "udp_transport_close self s =
     (case self of
        None \<Rightarrow> (TFTP_ERR_INVALID_ARGUMENT, s)
      | Some i \<Rightarrow>
          if \<not> u_initialized (tp s i) then (TFTP_ERR_NOT_INITIALIZED, s)
          else if \<not> u_open (tp s i) then (TFTP_OK, s)
          else
            (case sys_close (u_fd (tp s i)) (snd s) of (r, k) \<Rightarrow>
               let s = (fst s, k) in
               if r < 0
               then (TFTP_ERR_IO, set_tp i ((tp s i)\<lparr>u_fd := -1, u_open := False\<rparr>) s)
               else (TFTP_OK, set_tp i ((tp s i)\<lparr>u_fd := -1, u_open := False\<rparr>) s)))"

definition udp_transport_deinit :: "ptr \<Rightarrow> udp_os \<Rightarrow> tftp_status_t \<times> udp_os" where
  "udp_transport_deinit self s =
     (case self of
        None \<Rightarrow> (TFTP_ERR_INVALID_ARGUMENT, s)
      | Some i \<Rightarrow>
          if \<not> u_initialized (tp s i) then (TFTP_ERR_NOT_INITIALIZED, s)
          else
            (case udp_transport_close self s of (status, s) \<Rightarrow>
               if status \<noteq> TFTP_OK \<and> status \<noteq> TFTP_ERR_NOT_INITIALIZED then (status, s)
               else
                 (TFTP_OK,
                  set_tp i ((tp s i)\<lparr>u_initialized := False, u_local_port := 0,
                                     u_non_blocking := False\<rparr>) s)))"

text \<open>
  \<open>self\<close> is the caller's pointer variable; the result holds its new content.  The loop over
  the pool finds the slot the pointer points to.
\<close>

definition udp_transport_release :: "ptr option \<Rightarrow> udp_os \<Rightarrow> ptr option \<times> udp_os" where
  "udp_transport_release self s =
     (case self of
        Some (Some i) \<Rightarrow>
          if i < length (g_transport_pool (fst s)) then
            let s = (if g_transport_used (fst s) ! i
                     then snd (udp_transport_deinit (Some i) s) else s);
                s = set_tp i (udp_transport_zero\<lparr>u_fd := -1\<rparr>) s in
            (Some None,
             ((fst s)\<lparr>g_transport_used := (g_transport_used (fst s))[i := False]\<rparr>, snd s))
          else (self, s)
      | _ \<Rightarrow> (self, s))"

section \<open>Data transfer\<close>

text \<open>
  \<open>udp_transport_receive\<close> returns the status with the content of \<open>buffer\<close>, \<open>*received\<close> and
  \<open>*source\<close> after the call.
\<close>

definition udp_transport_receive ::
  "ptr \<Rightarrow> bytes option \<Rightarrow> nat \<Rightarrow> nat option \<Rightarrow> udp_endpoint_t option \<Rightarrow> udp_os \<Rightarrow>
   (tftp_status_t \<times> bytes option \<times> nat option \<times> udp_endpoint_t option) \<times> udp_os" where
  "udp_transport_receive self buffer buffer_size received source s =
     (case (self, buffer, received, source) of
        (Some i, Some b, Some r, Some src) \<Rightarrow>
          if \<not> u_initialized (tp s i)
          then ((TFTP_ERR_NOT_INITIALIZED, Some b, Some 0, Some src), s)
          else if \<not> u_open (tp s i) then ((TFTP_ERR_INVALID_STATE, Some b, Some 0, Some src), s)
          else if buffer_size = 0 then ((TFTP_ERR_INVALID_ARGUMENT, Some b, Some 0, Some src), s)
          else
            (case sys_recvfrom (u_fd (tp s i)) buffer_size (snd s) of
               ((result, data, from), k) \<Rightarrow>
                 let s = (fst s, k) in
                 (case result of
                    IO_again \<Rightarrow> ((TFTP_ERR_BUSY, Some b, Some 0, Some sockaddr_zero), s)
                  | IO_fail \<Rightarrow> ((TFTP_ERR_IO, Some b, Some 0, Some sockaddr_zero), s)
                  | IO_ok n \<Rightarrow> ((TFTP_OK, Some (memcpy_at 0 data b), Some n, Some from), s)))
      | _ \<Rightarrow> ((TFTP_ERR_INVALID_ARGUMENT, buffer, received, source), s))"

definition udp_transport_send ::
  "ptr \<Rightarrow> bytes option \<Rightarrow> nat \<Rightarrow> udp_endpoint_t option \<Rightarrow> udp_os \<Rightarrow> tftp_status_t \<times> udp_os" where
  "udp_transport_send self buffer len destination s =
     (case (self, buffer, destination) of
        (Some i, Some b, Some dest) \<Rightarrow>
          if \<not> u_initialized (tp s i) then (TFTP_ERR_NOT_INITIALIZED, s)
          else if \<not> u_open (tp s i) then (TFTP_ERR_INVALID_STATE, s)
          else if len = 0 then (TFTP_ERR_INVALID_ARGUMENT, s)
          else
            (case sys_sendto (u_fd (tp s i)) (take len b) dest (snd s) of (result, k) \<Rightarrow>
               let s = (fst s, k) in
               (case result of
                  IO_again \<Rightarrow> (TFTP_ERR_BUSY, s)
                | IO_fail \<Rightarrow> (TFTP_ERR_IO, s)
                | IO_ok n \<Rightarrow> if n \<noteq> len then (TFTP_ERR_IO, s) else (TFTP_OK, s)))
      | _ \<Rightarrow> (TFTP_ERR_INVALID_ARGUMENT, s))"

definition udp_transport_get_fd :: "ptr \<Rightarrow> udp_os \<Rightarrow> int" where
  "udp_transport_get_fd self s =
     (case self of
        None \<Rightarrow> -1
      | Some i \<Rightarrow>
          if \<not> u_initialized (tp s i) \<or> \<not> u_open (tp s i) then -1 else u_fd (tp s i))"

section \<open>Effects\<close>

text \<open>What each operation does to pool, flags and descriptors, for every behaviour of the kernel.\<close>

lemma udp_acquire_effect:
  assumes "udp_transport_acquire (Some x) s = ((st, p), s')"
  shows "snd s' = snd s \<and>
    ((st = TFTP_OK \<and> (\<exists>i. first_index Not (g_transport_used (fst s)) = Some i \<and> p = Some (Some i) \<and>
        fst s' = (fst s)\<lparr>g_transport_used := (g_transport_used (fst s))[i := True],
                         g_transport_pool :=
                           (g_transport_pool (fst s))[i := udp_transport_zero\<lparr>u_fd := -1\<rparr>]\<rparr>)) \<or>
     (st = TFTP_ERR_NO_RESOURCE \<and> p = Some None \<and> fst s' = fst s \<and>
        first_index Not (g_transport_used (fst s)) = None))"
  using assms by (auto simp: udp_transport_acquire_def split: option.splits)

lemma udp_open_effect:
  assumes "udp_transport_open (Some i) s = (st, s')" "i < length (g_transport_pool (fst s))"
    "u_initialized (tp s i)" "\<not> u_open (tp s i)"
  shows "disk_same (snd s) (snd s') \<and> script_same (snd s) (snd s') \<and>
    (\<exists>x. fst s' = (fst s)\<lparr>g_transport_pool := (g_transport_pool (fst s))[i := x]\<rparr> \<and>
      u_initialized x \<and>
      (st = TFTP_OK \<and> u_open x \<and> u_fd x = alloc_fd (fds (snd s)) \<and>
         fds (snd s') = u_fd x # fds (snd s) \<or>
       st = TFTP_ERR_IO \<and> \<not> u_open x \<and> u_fd x = -1 \<and> fds (snd s') = fds (snd s)))"
proof -
  obtain fd k1 where so: "sys_socket (snd s) = (fd, k1)" by fastforce
  obtain fl k2 where gf: "sys_fcntl_getfl fd k1 = (fl, k2)" by fastforce
  obtain r k3 where sf: "sys_fcntl_setfl fd (fl OR O_NONBLOCK) k2 = (r, k3)" by fastforce
  obtain c2 k4 where c2: "sys_close fd k2 = (c2, k4)" by fastforce
  obtain c3 k5 where c3: "sys_close fd k3 = (c3, k5)" by fastforce
  have rm: "removeAll (alloc_fd l) l = l" for l by (simp add: removeAll_id)
  note e = sys_socket_effect [OF so] sys_fcntl_getfl_effect [OF gf] sys_fcntl_setfl_effect [OF sf]
    sys_close_effect [OF c2] sys_close_effect [OF c3]
  show ?thesis
    using assms e so gf sf c2 c3
    by (auto simp: udp_transport_open_def Let_def set_tp_def close_failed_open_def rm
        same_defs split: if_splits)
qed

lemma udp_close_effect:
  assumes "udp_transport_close (Some i) s = (st, s')" "i < length (g_transport_pool (fst s))"
  shows "disk_same (snd s) (snd s') \<and> script_same (snd s) (snd s') \<and>
    (if u_initialized (tp s i) \<and> u_open (tp s i)
     then (st = TFTP_OK \<or> st = TFTP_ERR_IO) \<and>
       fst s' = (fst s)\<lparr>g_transport_pool :=
         (g_transport_pool (fst s))[i := (tp s i)\<lparr>u_fd := -1, u_open := False\<rparr>]\<rparr> \<and>
       fds (snd s') = removeAll (u_fd (tp s i)) (fds (snd s))
     else s' = s \<and> st = (if u_initialized (tp s i) then TFTP_OK else TFTP_ERR_NOT_INITIALIZED))"
proof -
  obtain r k where c: "sys_close (u_fd (tp s i)) (snd s) = (r, k)" by fastforce
  show ?thesis
    using assms sys_close_effect [OF c]
    by (auto simp: udp_transport_close_def c set_tp_def Let_def split: if_splits)
qed

lemma udp_deinit_effect:
  assumes "udp_transport_deinit (Some i) s = (st, s')" "i < length (g_transport_pool (fst s))"
  shows "disk_same (snd s) (snd s') \<and> script_same (snd s) (snd s') \<and>
    (\<exists>x. fst s' = (fst s)\<lparr>g_transport_pool := (g_transport_pool (fst s))[i := x]\<rparr> \<and>
       (if u_initialized (tp s i) then \<not> u_open x else x = tp s i)) \<and>
    fds (snd s') =
      (if u_initialized (tp s i) \<and> u_open (tp s i)
       then removeAll (u_fd (tp s i)) (fds (snd s)) else fds (snd s))"
proof (cases "u_initialized (tp s i)")
  case False
  then have "s' = s" using assms by (simp add: udp_transport_deinit_def)
  with False show ?thesis by (auto intro: exI [of _ "tp s i"])
next
  case True
  obtain st1 s1 where c: "udp_transport_close (Some i) s = (st1, s1)" by (meson surj_pair)
  show ?thesis
    using assms True c udp_close_effect [OF c assms(2)]
    by (cases "u_open (tp s i)")
      (auto simp: udp_transport_deinit_def set_tp_def split: if_splits)
qed

lemma udp_release_effect:
  assumes "udp_transport_release (Some (Some i)) s = (p, s')" "i < length (g_transport_pool (fst s))"
    "g_transport_used (fst s) ! i"
  shows "p = Some None \<and> disk_same (snd s) (snd s') \<and> script_same (snd s) (snd s') \<and>
    fst s' = (fst s)\<lparr>g_transport_pool :=
        (g_transport_pool (fst s))[i := udp_transport_zero\<lparr>u_fd := -1\<rparr>],
      g_transport_used := (g_transport_used (fst s))[i := False]\<rparr> \<and>
    fds (snd s') =
      (if u_initialized (tp s i) \<and> u_open (tp s i)
       then removeAll (u_fd (tp s i)) (fds (snd s)) else fds (snd s))"
proof -
  obtain st1 s1 where d: "udp_transport_deinit (Some i) s = (st1, s1)" by (meson surj_pair)
  show ?thesis
    using assms d udp_deinit_effect [OF d assms(2)]
    by (auto simp: udp_transport_release_def set_tp_def Let_def)
qed

lemma udp_bind_effect:
  assumes "udp_transport_bind (Some i) port s = (st, s')" "i < length (g_transport_pool (fst s))"
  shows "disk_same (snd s) (snd s') \<and> script_same (snd s) (snd s') \<and>
    fds (snd s') = fds (snd s) \<and>
    (\<exists>x. fst s' = (fst s)\<lparr>g_transport_pool := (g_transport_pool (fst s))[i := x]\<rparr> \<and>
      u_initialized x = u_initialized (tp s i) \<and> u_open x = u_open (tp s i) \<and>
      u_fd x = u_fd (tp s i))"
proof -
  obtain r k where b: "sys_bind (u_fd (tp s i)) (sockaddr_zero\<lparr>sin_family := AF_INET,
      s_addr := INADDR_ANY, sin_port := port\<rparr>) (snd s) = (r, k)" by (meson surj_pair)
  let ?t = "if u_initialized (tp s i) \<and> u_open (tp s i) \<and> 0 \<le> r
    then (tp s i)\<lparr>u_local_port := port\<rparr> else tp s i"
  have "fst s' = (fst s)\<lparr>g_transport_pool := (g_transport_pool (fst s))[i := ?t]\<rparr>"
    using assms b by (auto simp: udp_transport_bind_def set_tp_def Let_def split: if_splits)
  moreover have "disk_same (snd s) (snd s') \<and> script_same (snd s) (snd s') \<and>
      fds (snd s') = fds (snd s)"
    using assms b sys_bind_effect [OF b]
    by (auto simp: udp_transport_bind_def set_tp_def Let_def split: if_splits)
  ultimately show ?thesis by (intro conjI exI [of _ ?t]) auto
qed

lemma udp_send_effect:
  assumes "udp_transport_send p b n d s = (st, s')"
  shows "fst s' = fst s \<and> disk_same (snd s) (snd s') \<and> fds (snd s') = fds (snd s) \<and>
    rx (snd s') = rx (snd s) \<and> polls (snd s') = polls (snd s) \<and>
    (sent (snd s') = sent (snd s) \<or>
     (\<exists>i buf to m. p = Some i \<and> b = Some buf \<and> d = Some to \<and>
        sent (snd s') = sent (snd s) @ [(u_fd (tp s i), to, take m (take n buf))]))"
proof (cases "\<exists>i buf to. p = Some i \<and> b = Some buf \<and> d = Some to")
  case False
  then show ?thesis using assms
    by (auto simp: udp_transport_send_def split: option.splits)
next
  case True
  then obtain i buf to where a: "p = Some i" "b = Some buf" "d = Some to" by blast
  obtain r k where k: "sys_sendto (u_fd (tp s i)) (take n buf) to (snd s) = (r, k)"
    by (meson surj_pair)
  show ?thesis
    using assms a k sys_sendto_effect [OF k]
    by (auto simp: udp_transport_send_def Let_def split: if_splits io_result.splits)
qed

lemma udp_receive_effect:
  assumes "udp_transport_receive p b n r src s = (res, s')"
  shows "fst s' = fst s \<and> disk_same (snd s) (snd s') \<and> fds (snd s') = fds (snd s) \<and>
    sent (snd s') = sent (snd s) \<and> polls (snd s') = polls (snd s) \<and>
    faults (snd s') = faults (snd s)"
proof (cases "\<exists>i buf x y. p = Some i \<and> b = Some buf \<and> r = Some x \<and> src = Some y")
  case False
  then show ?thesis using assms
    by (auto simp: udp_transport_receive_def split: option.splits)
next
  case True
  then obtain i buf x y where a: "p = Some i" "b = Some buf" "r = Some x" "src = Some y" by blast
  obtain q k where k: "sys_recvfrom (u_fd (tp s i)) n (snd s) = (q, k)"
    by (meson surj_pair)
  show ?thesis
    using assms a k sys_recvfrom_effect [OF k]
    by (auto simp: udp_transport_receive_def Let_def split: if_splits io_result.splits prod.splits)
qed

section \<open>Invariant\<close>

text \<open>
  An initialised transport was acquired; an open one is initialised and owns an open
  descriptor that no other transport has.
\<close>

definition udp_inv :: "udp_os \<Rightarrow> bool" where
  "udp_inv s \<longleftrightarrow>
     length (g_transport_pool (fst s)) = UDP_TRANSPORT_POOL_SIZE \<and>
     length (g_transport_used (fst s)) = UDP_TRANSPORT_POOL_SIZE \<and>
     (\<forall>i<UDP_TRANSPORT_POOL_SIZE.
        (u_initialized (tp s i) \<longrightarrow> g_transport_used (fst s) ! i) \<and>
        (u_open (tp s i) \<longrightarrow> u_initialized (tp s i) \<and> u_fd (tp s i) \<in> set (fds (snd s)) \<and>
           0 \<le> u_fd (tp s i))) \<and>
     (\<forall>i<UDP_TRANSPORT_POOL_SIZE. \<forall>j<UDP_TRANSPORT_POOL_SIZE.
        i \<noteq> j \<and> u_open (tp s i) \<and> u_open (tp s j) \<longrightarrow> u_fd (tp s i) \<noteq> u_fd (tp s j))"

lemma udp_inv_lengths:
  assumes "udp_inv s"
  shows "length (g_transport_pool (fst s)) = UDP_TRANSPORT_POOL_SIZE"
    "length (g_transport_used (fst s)) = UDP_TRANSPORT_POOL_SIZE"
  using assms by (auto simp: udp_inv_def)

lemma udp_inv_init: "udp_inv (udp_state_init, k)"
  by (simp add: udp_inv_def udp_state_init_def udp_transport_zero_def)

text \<open>The invariant depends on the operating system only through the open descriptors.\<close>

lemma udp_inv_os: "udp_inv (u, k) \<Longrightarrow> set (fds k) \<subseteq> set (fds k') \<Longrightarrow> udp_inv (u, k')"
  by (auto simp: udp_inv_def)

text \<open>
  Writing one slot keeps the invariant when the new content is itself in order and its
  descriptor is not that of another open transport.
\<close>

lemma udp_inv_update:
  assumes inv: "udp_inv s" and i: "i < UDP_TRANSPORT_POOL_SIZE"
    and u: "u_initialized x \<longrightarrow> used' ! i" "length used' = UDP_TRANSPORT_POOL_SIZE"
      "\<forall>j<UDP_TRANSPORT_POOL_SIZE. j \<noteq> i \<longrightarrow> used' ! j = g_transport_used (fst s) ! j"
    and x: "u_open x \<longrightarrow> u_initialized x \<and> u_fd x \<in> set (fds k') \<and> 0 \<le> u_fd x \<and>
        (\<forall>j<UDP_TRANSPORT_POOL_SIZE. j \<noteq> i \<and> u_open (tp s j) \<longrightarrow> u_fd (tp s j) \<noteq> u_fd x)"
    and others: "\<forall>j<UDP_TRANSPORT_POOL_SIZE. j \<noteq> i \<and> u_open (tp s j) \<longrightarrow> u_fd (tp s j) \<in> set (fds k')"
  shows "udp_inv ((fst s)\<lparr>g_transport_pool := (g_transport_pool (fst s))[i := x],
      g_transport_used := used'\<rparr>, k')"
  using assms unfolding udp_inv_def by (auto simp: nth_list_update)

lemma udp_inv_slot:
  assumes inv: "udp_inv s" and i: "i < UDP_TRANSPORT_POOL_SIZE"
    and x: "u_initialized x \<longrightarrow> g_transport_used (fst s) ! i"
      "u_open x \<longrightarrow> u_initialized x \<and> u_fd x \<in> set (fds k') \<and> 0 \<le> u_fd x \<and>
        (\<forall>j<UDP_TRANSPORT_POOL_SIZE. j \<noteq> i \<and> u_open (tp s j) \<longrightarrow> u_fd (tp s j) \<noteq> u_fd x)"
    and others: "\<forall>j<UDP_TRANSPORT_POOL_SIZE. j \<noteq> i \<and> u_open (tp s j) \<longrightarrow> u_fd (tp s j) \<in> set (fds k')"
  shows "udp_inv ((fst s)\<lparr>g_transport_pool := (g_transport_pool (fst s))[i := x]\<rparr>, k')"
  using assms unfolding udp_inv_def by (auto simp: nth_list_update)

lemma udp_inv_openD:
  assumes "udp_inv s" "i < UDP_TRANSPORT_POOL_SIZE" "u_open (tp s i)"
  shows "u_initialized (tp s i)" "g_transport_used (fst s) ! i" "u_fd (tp s i) \<in> set (fds (snd s))"
    "0 \<le> u_fd (tp s i)"
  using assms by (auto simp: udp_inv_def)

lemma udp_inv_distinctD:
  assumes "udp_inv s" "i < UDP_TRANSPORT_POOL_SIZE" "j < UDP_TRANSPORT_POOL_SIZE" "i \<noteq> j"
    "u_open (tp s i)" "u_open (tp s j)"
  shows "u_fd (tp s i) \<noteq> u_fd (tp s j)"
  using assms by (auto simp: udp_inv_def)

lemma udp_inv_initD:
  "udp_inv s \<Longrightarrow> i < UDP_TRANSPORT_POOL_SIZE \<Longrightarrow> u_initialized (tp s i) \<Longrightarrow> g_transport_used (fst s) ! i"
  by (auto simp: udp_inv_def)

subsection \<open>Every operation preserves it\<close>

lemma udp_inv_acquire:
  assumes inv: "udp_inv s" and e: "udp_transport_acquire out s = (r, s')"
  shows "udp_inv s'"
proof (cases out)
  case None
  with e inv show ?thesis by (auto simp: udp_transport_acquire_def)
next
  case (Some x)
  obtain st p where r: "r = (st, p)" by fastforce
  from udp_acquire_effect [of x s st p s'] e Some r have os: "snd s' = snd s"
    and d: "(\<exists>i. first_index Not (g_transport_used (fst s)) = Some i \<and>
        fst s' = (fst s)\<lparr>g_transport_used := (g_transport_used (fst s))[i := True],
                         g_transport_pool :=
                           (g_transport_pool (fst s))[i := udp_transport_zero\<lparr>u_fd := -1\<rparr>]\<rparr>) \<or>
      fst s' = fst s" by auto
  from d show ?thesis
  proof
    assume "fst s' = fst s"
    with os inv show ?thesis by (metis prod.collapse)
  next
    assume "\<exists>i. first_index Not (g_transport_used (fst s)) = Some i \<and>
        fst s' = (fst s)\<lparr>g_transport_used := (g_transport_used (fst s))[i := True],
                         g_transport_pool :=
                           (g_transport_pool (fst s))[i := udp_transport_zero\<lparr>u_fd := -1\<rparr>]\<rparr>"
    then obtain i where i: "i < UDP_TRANSPORT_POOL_SIZE"
      and s': "fst s' = (fst s)\<lparr>g_transport_pool :=
          (g_transport_pool (fst s))[i := udp_transport_zero\<lparr>u_fd := -1\<rparr>],
          g_transport_used := (g_transport_used (fst s))[i := True]\<rparr>"
      using udp_inv_lengths [OF inv] by (auto simp: first_index_Some_iff)
    have "udp_inv ((fst s)\<lparr>g_transport_pool :=
          (g_transport_pool (fst s))[i := udp_transport_zero\<lparr>u_fd := -1\<rparr>],
          g_transport_used := (g_transport_used (fst s))[i := True]\<rparr>, snd s')"
      using inv i udp_inv_lengths [OF inv] os
      by (intro udp_inv_update) (auto simp: udp_transport_zero_def udp_inv_openD)
    then show ?thesis using s' by (metis prod.collapse)
  qed
qed

lemma udp_inv_init_op:
  assumes inv: "udp_inv s" and i: "i < UDP_TRANSPORT_POOL_SIZE" "g_transport_used (fst s) ! i"
    and e: "udp_transport_init (Some i) c s = (st, s')"
  shows "udp_inv s'"
proof (cases "c = None \<or> u_initialized (tp s i)")
  case True
  with e inv show ?thesis by (auto simp: udp_transport_init_def split: option.splits if_splits)
next
  case False
  then obtain c' where "c = Some c'" by auto
  with False e inv i show ?thesis
    unfolding udp_transport_init_def set_tp_def
    by (auto intro!: udp_inv_slot simp: udp_inv_openD)
qed

lemma udp_inv_open:
  assumes inv: "udp_inv s" and i: "i < UDP_TRANSPORT_POOL_SIZE"
    and e: "udp_transport_open (Some i) s = (st, s')"
  shows "udp_inv s'"
proof (cases "u_initialized (tp s i) \<and> \<not> u_open (tp s i)")
  case False
  with e inv show ?thesis by (auto simp: udp_transport_open_def split: if_splits)
next
  case True
  from i inv have "i < length (g_transport_pool (fst s))" by (simp add: udp_inv_lengths)
  from udp_open_effect [OF e this] True obtain x where
    s': "fst s' = (fst s)\<lparr>g_transport_pool := (g_transport_pool (fst s))[i := x]\<rparr>"
    and x: "u_initialized x"
      "u_open x \<and> u_fd x = alloc_fd (fds (snd s)) \<and> fds (snd s') = u_fd x # fds (snd s) \<or>
       \<not> u_open x \<and> fds (snd s') = fds (snd s)" by auto
  have fresh: "u_fd (tp s j) \<noteq> alloc_fd (fds (snd s))"
    if "j < UDP_TRANSPORT_POOL_SIZE" "u_open (tp s j)" for j
    using udp_inv_openD(3) [OF inv that] by (metis alloc_fd_fresh)
  have "udp_inv ((fst s)\<lparr>g_transport_pool := (g_transport_pool (fst s))[i := x]\<rparr>, snd s')"
    using x inv i udp_inv_initD [OF inv i] True fresh
    by (intro udp_inv_slot) (auto simp: udp_inv_openD)
  with s' show ?thesis by (metis prod.collapse)
qed

lemma udp_inv_bind:
  assumes inv: "udp_inv s" and i: "i < UDP_TRANSPORT_POOL_SIZE"
    and e: "udp_transport_bind (Some i) port s = (st, s')"
  shows "udp_inv s'"
proof -
  from i inv have "i < length (g_transport_pool (fst s))" by (simp add: udp_inv_lengths)
  from udp_bind_effect [OF e this] obtain x where
    s': "fst s' = (fst s)\<lparr>g_transport_pool := (g_transport_pool (fst s))[i := x]\<rparr>"
    and x: "u_initialized x = u_initialized (tp s i)" "u_open x = u_open (tp s i)"
      "u_fd x = u_fd (tp s i)" "fds (snd s') = fds (snd s)" by auto
  have "udp_inv ((fst s)\<lparr>g_transport_pool := (g_transport_pool (fst s))[i := x]\<rparr>, snd s')"
    using inv i x udp_inv_distinctD [OF inv]
    by (intro udp_inv_slot) (auto simp: udp_inv_openD udp_inv_initD)
  with s' show ?thesis by (metis prod.collapse)
qed


lemma udp_inv_closed_slot:
  assumes inv: "udp_inv s" and i: "i < UDP_TRANSPORT_POOL_SIZE"
    and x: "u_initialized x \<longrightarrow> g_transport_used (fst s) ! i" "\<not> u_open x"
    and k: "set (fds k') = set (fds (snd s)) - (if u_open (tp s i) then {u_fd (tp s i)} else {})"
  shows "udp_inv ((fst s)\<lparr>g_transport_pool := (g_transport_pool (fst s))[i := x]\<rparr>, k')"
proof (rule udp_inv_slot [OF inv i x(1)])
  show "u_open x \<longrightarrow> u_initialized x \<and> u_fd x \<in> set (fds k') \<and> 0 \<le> u_fd x \<and>
      (\<forall>j<UDP_TRANSPORT_POOL_SIZE. j \<noteq> i \<and> u_open (tp s j) \<longrightarrow> u_fd (tp s j) \<noteq> u_fd x)"
    using x(2) by simp
  show "\<forall>j<UDP_TRANSPORT_POOL_SIZE. j \<noteq> i \<and> u_open (tp s j) \<longrightarrow> u_fd (tp s j) \<in> set (fds k')"
    using udp_inv_distinctD [OF inv i] udp_inv_openD(3) [OF inv] k by fastforce
qed

lemma udp_inv_close:
  assumes inv: "udp_inv s" and i: "i < UDP_TRANSPORT_POOL_SIZE"
    and e: "udp_transport_close (Some i) s = (st, s')"
  shows "udp_inv s'"
proof -
  from i inv have "i < length (g_transport_pool (fst s))" by (simp add: udp_inv_lengths)
  note c = udp_close_effect [OF e this]
  show ?thesis
  proof (cases "u_initialized (tp s i) \<and> u_open (tp s i)")
    case False
    with c inv show ?thesis by auto
  next
    case True
    with c have "udp_inv (fst s', snd s')"
      using udp_inv_closed_slot [OF inv i, of "(tp s i)\<lparr>u_fd := -1, u_open := False\<rparr>" "snd s'"]
        udp_inv_initD [OF inv i] by auto
    then show ?thesis by simp
  qed
qed

lemma udp_inv_deinit:
  assumes inv: "udp_inv s" and i: "i < UDP_TRANSPORT_POOL_SIZE"
    and e: "udp_transport_deinit (Some i) s = (st, s')"
  shows "udp_inv s'"
proof -
  obtain st1 s1 where c: "udp_transport_close (Some i) s = (st1, s1)" by (meson surj_pair)
  have inv1: "udp_inv s1" by (rule udp_inv_close [OF inv i c])
  from i inv have "i < length (g_transport_pool (fst s))" by (simp add: udp_inv_lengths)
  then have closed: "u_initialized (tp s i) \<Longrightarrow> \<not> u_open (tp s1 i)"
    using udp_close_effect [OF c] by (auto split: if_splits)
  show ?thesis
  proof (cases "u_initialized (tp s i) \<and> (st1 = TFTP_OK \<or> st1 = TFTP_ERR_NOT_INITIALIZED)")
    case False
    with e c inv inv1 show ?thesis by (auto simp: udp_transport_deinit_def split: if_splits)
  next
    case True
    with e c have "s' = set_tp i ((tp s1 i)\<lparr>u_initialized := False, u_local_port := 0,
        u_non_blocking := False\<rparr>) s1"
      by (auto simp: udp_transport_deinit_def split: if_splits)
    then show ?thesis
      using udp_inv_closed_slot [OF inv1 i] True closed by (simp add: set_tp_def)
  qed
qed

lemma udp_inv_release:
  assumes inv: "udp_inv s" and i: "i < UDP_TRANSPORT_POOL_SIZE"
    and e: "udp_transport_release (Some (Some i)) s = (p, s')"
  shows "udp_inv s'"
proof -
  define s1 where "s1 = (if g_transport_used (fst s) ! i
    then snd (udp_transport_deinit (Some i) s) else s)"
  obtain st1 s2 where d: "udp_transport_deinit (Some i) s = (st1, s2)" by (meson surj_pair)
  have inv1: "udp_inv s1" using udp_inv_deinit [OF inv i d] inv d by (simp add: s1_def)
  have len: "i < length (g_transport_pool (fst s))" using i inv by (simp add: udp_inv_lengths)
  have closed: "\<not> u_open (tp s1 i)"
    using udp_deinit_effect [OF d len] udp_inv_openD [OF inv i] len d
    by (auto simp: s1_def split: if_splits)
  have "s' = ((fst s1)\<lparr>g_transport_pool :=
        (g_transport_pool (fst s1))[i := udp_transport_zero\<lparr>u_fd := -1\<rparr>],
      g_transport_used := (g_transport_used (fst s1))[i := False]\<rparr>, snd s1)"
    using e len by (auto simp: udp_transport_release_def set_tp_def Let_def s1_def)
  moreover have "udp_inv \<dots>"
    using inv1 i closed udp_inv_lengths [OF inv1]
    by (intro udp_inv_update) (auto simp: udp_transport_zero_def udp_inv_openD)
  ultimately show ?thesis by simp
qed

lemma udp_inv_send:
  "udp_inv s \<Longrightarrow> udp_transport_send p b n d s = (st, s') \<Longrightarrow> udp_inv s'"
  using udp_send_effect [of p b n d s st s'] udp_inv_os [of "fst s" "snd s" "snd s'"]
  by (metis order_refl prod.collapse)

lemma udp_inv_receive:
  "udp_inv s \<Longrightarrow> udp_transport_receive p b n r src s = (res, s') \<Longrightarrow> udp_inv s'"
  using udp_receive_effect [of p b n r src s res s'] udp_inv_os [of "fst s" "snd s" "snd s'"]
  by (metis order_refl prod.collapse)

section \<open>Runs of the module\<close>

text \<open>
  Any sequence of calls on handles of the pool, interleaved with whatever the rest of the
  process does to the operating system (\<open>environment\<close>: it may open and close descriptors,
  but none that an open transport owns).
\<close>

inductive udp_step :: "udp_os \<Rightarrow> udp_os \<Rightarrow> bool" where
  acquire: "udp_transport_acquire out s = (r, s') \<Longrightarrow> udp_step s s'"
| init: "i < UDP_TRANSPORT_POOL_SIZE \<Longrightarrow> g_transport_used (fst s) ! i \<Longrightarrow>
    udp_transport_init (Some i) c s = (st, s') \<Longrightarrow> udp_step s s'"
| "open": "i < UDP_TRANSPORT_POOL_SIZE \<Longrightarrow> udp_transport_open (Some i) s = (st, s') \<Longrightarrow> udp_step s s'"
| bind: "i < UDP_TRANSPORT_POOL_SIZE \<Longrightarrow> udp_transport_bind (Some i) port s = (st, s') \<Longrightarrow>
    udp_step s s'"
| close: "i < UDP_TRANSPORT_POOL_SIZE \<Longrightarrow> udp_transport_close (Some i) s = (st, s') \<Longrightarrow> udp_step s s'"
| deinit: "i < UDP_TRANSPORT_POOL_SIZE \<Longrightarrow> udp_transport_deinit (Some i) s = (st, s') \<Longrightarrow>
    udp_step s s'"
| release: "i < UDP_TRANSPORT_POOL_SIZE \<Longrightarrow> udp_transport_release (Some (Some i)) s = (p, s') \<Longrightarrow>
    udp_step s s'"
| send: "udp_transport_send p b n d s = (st, s') \<Longrightarrow> udp_step s s'"
| receive: "udp_transport_receive p b n r src s = (res, s') \<Longrightarrow> udp_step s s'"
| environment: "(\<And>i. i < UDP_TRANSPORT_POOL_SIZE \<Longrightarrow> u_open (g_transport_pool u ! i) \<Longrightarrow>
    u_fd (g_transport_pool u ! i) \<in> set (fds k')) \<Longrightarrow> udp_step (u, k) (u, k')"

inductive udp_reachable :: "udp_os \<Rightarrow> bool" where
  start: "udp_reachable (udp_state_init, k)"
| step: "udp_reachable s \<Longrightarrow> udp_step s s' \<Longrightarrow> udp_reachable s'"

inductive_cases udp_stepE: "udp_step s s'"

lemma udp_inv_step:
  assumes inv: "udp_inv s" and "udp_step s s'"
  shows "udp_inv s'"
  using assms(2)
proof (cases rule: udp_step.cases)
  case (environment u k' k)
  with inv show ?thesis by (auto simp: udp_inv_def)
qed (use inv in \<open>auto intro: udp_inv_acquire udp_inv_init_op udp_inv_open udp_inv_bind
      udp_inv_close udp_inv_deinit udp_inv_release udp_inv_send udp_inv_receive\<close>)

lemma udp_reachable_inv: "udp_reachable s \<Longrightarrow> udp_inv s"
  by (induction rule: udp_reachable.induct) (auto intro: udp_inv_init udp_inv_step)


section \<open>The pool as an object pool\<close>

text \<open>\<open>acquire\<close> with the caller's pointer read back, in the shape of the interface.\<close>

definition udp_take :: "udp_os \<Rightarrow> (tftp_status_t \<times> ptr) \<times> udp_os" where
  "udp_take s = (case udp_transport_acquire (Some None) s of ((st, p), s') \<Rightarrow> ((st, deref None p), s'))"

definition udp_give :: "nat \<Rightarrow> udp_os \<Rightarrow> udp_os" where
  "udp_give i s = snd (udp_transport_release (Some (Some i)) s)"

interpretation udp_pool: object_pool "\<lambda>s. g_transport_used (fst s)" udp_take udp_give udp_inv
proof
  fix s i
  assume inv: "udp_inv s"
  show "first_index Not (g_transport_used (fst s)) = Some i \<Longrightarrow> \<exists>s'. udp_take s = ((TFTP_OK, Some i), s') \<and>
      g_transport_used (fst s') = (g_transport_used (fst s))[i := True]"
    by (simp add: udp_take_def udp_transport_acquire_def)
  show "first_index Not (g_transport_used (fst s)) = None \<Longrightarrow>
      udp_take s = ((TFTP_ERR_NO_RESOURCE, None), s)"
    by (simp add: udp_take_def udp_transport_acquire_def)
  show "udp_inv (snd (udp_take s))"
    using udp_inv_acquire [OF inv] by (auto simp: udp_take_def split: prod.splits)
  assume "i < length (g_transport_used (fst s))"
  then have i: "i < UDP_TRANSPORT_POOL_SIZE" "i < length (g_transport_pool (fst s))"
    using inv by (simp_all add: udp_inv_lengths)
  obtain p s' where r: "udp_transport_release (Some (Some i)) s = (p, s')" by (meson surj_pair)
  show "udp_inv (udp_give i s)"
    using udp_inv_release [OF inv i(1) r] by (simp add: udp_give_def r)
  obtain st s1 where d: "udp_transport_deinit (Some i) s = (st, s1)" by (meson surj_pair)
  have "g_transport_used (fst s1) = g_transport_used (fst s)"
    using udp_deinit_effect [OF d i(2)] by auto
  then show "g_transport_used (fst (udp_give i s)) = (g_transport_used (fst s))[i := False]"
    using i by (auto simp: udp_give_def udp_transport_release_def set_tp_def Let_def d)
qed

section \<open>Properties\<close>

text \<open>An example: the first transport acquired, initialised and opened on an idle machine.\<close>

definition udp_example :: udp_os where
  "udp_example =
     snd (udp_transport_open (Some 0)
       (snd (udp_transport_init (Some 0) (Some \<lparr>tc_local_port = 0, tc_non_blocking = True\<rparr>)
         (snd (udp_transport_acquire (Some None) (udp_state_init, os_start Map.empty))))))"

lemmas udp_example_defs = udp_example_def udp_transport_open_def udp_transport_init_def
  udp_transport_acquire_def udp_state_init_def UDP_TRANSPORT_POOL_SIZE_def os_start_def set_tp_def
  udp_transport_zero_def

lemma udp_example_state:
  "udp_example =
     (\<lparr>g_transport_pool =
         [\<lparr>u_initialized = True, u_open = True, u_fd = 3, u_local_port = 0, u_non_blocking = True\<rparr>,
          udp_transport_zero],
       g_transport_used = [True, False]\<rparr>,
      (os_start Map.empty)\<lparr>fds := [3, 2, 1, 0], nonblock := [3]\<rparr>)"
  by (simp add: udp_example_defs numeral_2_eq_2 sys_socket_def sys_fcntl_getfl_def
      sys_fcntl_setfl_def alloc_fd_def Let_def O_NONBLOCK_def O_RDWR_def)

lemma udp_reachable_acquire: "udp_reachable s \<Longrightarrow> udp_reachable (snd (udp_transport_acquire out s))"
  by (rule udp_reachable.step, assumption, rule udp_step.acquire) (rule prod.collapse [symmetric])

lemma udp_reachable_init:
  "udp_reachable s \<Longrightarrow> i < UDP_TRANSPORT_POOL_SIZE \<Longrightarrow> g_transport_used (fst s) ! i \<Longrightarrow>
   udp_reachable (snd (udp_transport_init (Some i) c s))"
  by (rule udp_reachable.step, assumption, rule udp_step.init [where i = i and c = c])
    (auto intro: prod.collapse [symmetric])

lemma udp_reachable_open:
  "udp_reachable s \<Longrightarrow> i < UDP_TRANSPORT_POOL_SIZE \<Longrightarrow> udp_reachable (snd (udp_transport_open (Some i) s))"
  by (rule udp_reachable.step, assumption, rule udp_step.open [where i = i])
    (auto intro: prod.collapse [symmetric])

lemma udp_example_reachable: "udp_reachable udp_example"
  unfolding udp_example_def
  by (intro udp_reachable_open udp_reachable_init udp_reachable_acquire udp_reachable.start)
    (simp_all add: UDP_TRANSPORT_POOL_SIZE_def udp_transport_acquire_def udp_state_init_def
      numeral_2_eq_2)

text \<open>
  C29: In every run of the transport module, whatever the kernel answers, an open transport has
  been acquired and initialised and owns an open descriptor, and no two open transports share
  one.
\<close>

theorem open_transports_own_descriptors:
  assumes "udp_reachable s" "i < UDP_TRANSPORT_POOL_SIZE" "u_open (tp s i)"
  shows "g_transport_used (fst s) ! i \<and> u_initialized (tp s i) \<and>
    u_fd (tp s i) \<in> set (fds (snd s)) \<and> 0 \<le> udp_transport_get_fd (Some i) s \<and>
    (\<forall>j<UDP_TRANSPORT_POOL_SIZE. j \<noteq> i \<longrightarrow>
       udp_transport_get_fd (Some j) s \<noteq> udp_transport_get_fd (Some i) s)"
proof -
  note inv = udp_reachable_inv [OF assms(1)]
  note o = udp_inv_openD [OF inv assms(2,3)]
  have "u_fd (tp s j) \<noteq> u_fd (tp s i)" if "j < UDP_TRANSPORT_POOL_SIZE" "j \<noteq> i" "u_open (tp s j)" for j
    using udp_inv_distinctD [OF inv that(1) assms(2) that(2,3) assms(3)] .
  with o assms(3) show ?thesis by (auto simp: udp_transport_get_fd_def)
qed

theorem open_transports_own_descriptors_witness:
  "u_open (tp udp_example 0) \<and> u_fd (tp udp_example 0) \<in> set (fds (snd udp_example))"
proof -
  have "u_open (tp udp_example 0)" by (simp add: udp_example_state)
  then show ?thesis
    using open_transports_own_descriptors [OF udp_example_reachable, of 0]
    by (simp add: UDP_TRANSPORT_POOL_SIZE_def)
qed

text \<open>
  The pool hands out exactly its free slots: \<open>n\<close> acquisitions in a row succeed if and only
  if at least \<open>n\<close> slots are free, and they yield \<open>n\<close> distinct transports that were free.
\<close>

theorem transport_pool_capacity:
  assumes "udp_reachable s"
  shows "((\<exists>is t. udp_pool.acquire_many n s = (Some is, t)) \<longleftrightarrow>
      n \<le> length (filter Not (g_transport_used (fst s)))) \<and>
    (\<forall>is t. udp_pool.acquire_many n s = (Some is, t) \<longrightarrow>
      length is = n \<and> distinct is \<and>
      (\<forall>i\<in>set is. i < UDP_TRANSPORT_POOL_SIZE \<and> \<not> g_transport_used (fst s) ! i))"
proof -
  note inv = udp_reachable_inv [OF assms]
  have "(\<exists>is t. udp_pool.acquire_many n s = (Some is, t)) \<longleftrightarrow> fst (udp_pool.acquire_many n s) \<noteq> None"
    by (cases "udp_pool.acquire_many n s") auto
  then show ?thesis
    using udp_pool.acquire_many_iff [OF inv, of n] udp_pool.acquire_many_used [OF inv, of n]
      udp_inv_lengths [OF inv]
    by (fastforce simp: udp_pool.free_count_def)
qed

theorem transport_pool_capacity_witness:
  "(\<exists>is t. udp_pool.acquire_many 2 (udp_state_init, os_start Map.empty) = (Some is, t)) \<and>
   \<not> (\<exists>is t. udp_pool.acquire_many 3 (udp_state_init, os_start Map.empty) = (Some is, t))"
  using transport_pool_capacity [OF udp_reachable.start, of 2 "os_start Map.empty"]
    transport_pool_capacity [OF udp_reachable.start, of 3 "os_start Map.empty"]
  by (simp add: udp_state_init_def UDP_TRANSPORT_POOL_SIZE_def numeral_2_eq_2)


text \<open>
  C26: Whatever the kernel answers in between, acquiring a transport, initialising it, trying to
  open it and releasing it ends with the slots and descriptors of before: a failed open leaks
  neither its socket nor its slot, and nothing is sent, received or written on the way.
\<close>

theorem transport_life_cycle_leaks_nothing:
  assumes "udp_reachable s"
    and "udp_transport_acquire (Some x) s = ((TFTP_OK, Some p), s1)"
    and "udp_transport_init p (Some c) s1 = (st2, s2)"
    and "udp_transport_open p s2 = (st3, s3)"
    and "udp_transport_release (Some p) s3 = (q, s4)"
  shows "q = Some None \<and> st2 = TFTP_OK \<and> st3 \<in> {TFTP_OK, TFTP_ERR_IO} \<and>
    g_transport_used (fst s4) = g_transport_used (fst s) \<and> fds (snd s4) = fds (snd s) \<and>
    disk_same (snd s) (snd s4) \<and> script_same (snd s) (snd s4)"
proof -
  note inv = udp_reachable_inv [OF assms(1)]
  from udp_acquire_effect [OF assms(2)] obtain i where i: "p = Some i" "\<not> g_transport_used (fst s) ! i"
    "i < UDP_TRANSPORT_POOL_SIZE" and s1: "snd s1 = snd s"
    "fst s1 = (fst s)\<lparr>g_transport_used := (g_transport_used (fst s))[i := True],
      g_transport_pool := (g_transport_pool (fst s))[i := udp_transport_zero\<lparr>u_fd := -1\<rparr>]\<rparr>"
    using udp_inv_lengths [OF inv] by (auto simp: first_index_Some_iff)
  note len = udp_inv_lengths [OF inv]
  have s2: "st2 = TFTP_OK" "snd s2 = snd s" "g_transport_used (fst s2) = g_transport_used (fst s1)"
    "u_initialized (tp s2 i)" "\<not> u_open (tp s2 i)" "i < length (g_transport_pool (fst s2))"
    using assms(3) i s1 len
    by (auto simp: udp_transport_init_def set_tp_def udp_transport_zero_def)
  from udp_open_effect [OF assms(4) [unfolded i(1)] s2(6,4,5)] obtain y where
    s3: "disk_same (snd s) (snd s3)" "script_same (snd s) (snd s3)"
      "fst s3 = (fst s2)\<lparr>g_transport_pool := (g_transport_pool (fst s2))[i := y]\<rparr>"
      "st3 = TFTP_OK \<and> u_initialized y \<and> u_open y \<and> fds (snd s3) = u_fd y # fds (snd s) \<and>
         u_fd y = alloc_fd (fds (snd s)) \<or>
       st3 = TFTP_ERR_IO \<and> \<not> u_open y \<and> fds (snd s3) = fds (snd s)"
    using s2(2) by auto
  have len3: "i < length (g_transport_pool (fst s3))" using s3(3) s2(6) by simp
  have used3: "g_transport_used (fst s3) = (g_transport_used (fst s))[i := True]"
    using s3(3) s2(3) s1(2) by simp
  have "g_transport_used (fst s3) ! i" using used3 i(3) len by simp
  note r = udp_release_effect [OF assms(5) [unfolded i(1)] len3 this]
  have "fds (snd s4) = fds (snd s)"
    using r s3(3,4) s2(6) by (auto simp: removeAll_id)
  moreover have "g_transport_used (fst s4) = g_transport_used (fst s)"
  proof -
    have "g_transport_used (fst s4) = (g_transport_used (fst s))[i := False]"
      using r used3 by simp
    also have "\<dots> = g_transport_used (fst s)" using i(2) by (metis list_update_id)
    finally show ?thesis .
  qed
  ultimately show ?thesis using r s2(1) s3(1,2,4) by (auto intro: disk_same_trans script_same_trans)
qed

theorem transport_life_cycle_leaks_nothing_witness:
  "\<exists>s3 s4. udp_transport_open (Some 0) s3 = (TFTP_ERR_IO, s4) \<and>
     fds (snd (snd (udp_transport_release (Some (Some 0)) s4))) = [2, 1, 0]"
proof -
  define k where "k = (os_start Map.empty)\<lparr>faults := [F_none, F_none, F_io]\<rparr>"
  define s1 where "s1 = snd (udp_transport_acquire (Some None) (udp_state_init, k))"
  define s2 where "s2 = snd (udp_transport_init (Some 0) (Some \<lparr>tc_local_port = 0, tc_non_blocking = True\<rparr>) s1)"
  define s3 where "s3 = snd (udp_transport_open (Some 0) s2)"
  note d = s2_def s1_def k_def udp_example_defs sys_socket_def sys_fcntl_getfl_def
    sys_fcntl_setfl_def sys_close_def alloc_fd_def Let_def O_NONBLOCK_def O_RDWR_def
    close_failed_open_def next_fault_def numeral_2_eq_2
  have a: "udp_transport_acquire (Some None) (udp_state_init, k) = ((TFTP_OK, Some (Some 0)), s1)"
    by (simp add: d)
  have i: "udp_transport_init (Some 0) (Some \<lparr>tc_local_port = 0, tc_non_blocking = True\<rparr>) s1 = (TFTP_OK, s2)"
    by (simp add: d)
  have o: "udp_transport_open (Some 0) s2 = (TFTP_ERR_IO, s3)"
    by (simp add: s3_def d)
  have "fds (snd (udp_state_init, k)) = [2, 1, 0]" by (simp add: k_def os_start_def)
  then have "fds (snd (snd (udp_transport_release (Some (Some 0)) s3))) = [2, 1, 0]"
    using transport_life_cycle_leaks_nothing [OF udp_reachable.start a i o prod.collapse [symmetric]]
    by simp
  with o show ?thesis by blast
qed


text \<open>
  C34: On an open transport, \<open>udp_transport_send\<close> reports success exactly when the whole buffer
  left as one datagram to the given address; a full send queue is \<open>TFTP_ERR_BUSY\<close> with nothing
  sent, and a shortened or failed transmission is \<open>TFTP_ERR_IO\<close>.
\<close>

theorem send_ok_iff_datagram_sent:
  assumes "udp_reachable s" "i < UDP_TRANSPORT_POOL_SIZE" "u_open (tp s i)" "b \<noteq> []"
    and "udp_transport_send (Some i) (Some b) (length b) (Some d) s = (st, s')"
  shows "(st = TFTP_OK \<longleftrightarrow> sent (snd s') = sent (snd s) @ [(u_fd (tp s i), d, b)]) \<and>
    (st = TFTP_ERR_BUSY \<longleftrightarrow> fst (next_fault (snd s)) = F_again) \<and>
    (st = TFTP_ERR_BUSY \<longrightarrow> sent (snd s') = sent (snd s)) \<and>
    st \<in> {TFTP_OK, TFTP_ERR_BUSY, TFTP_ERR_IO} \<and> fst s' = fst s \<and> fds (snd s') = fds (snd s)"
proof -
  note inv = udp_reachable_inv [OF assms(1)]
  note o = udp_inv_openD [OF inv assms(2,3)]
  obtain f where f: "next_fault (snd s) = (f, (snd s)\<lparr>faults := tl (faults (snd s))\<rparr>)"
    using next_fault_obtain by blast
  have "take m b = b \<longleftrightarrow> length b \<le> m" for m by (auto dest: arg_cong [where f = length])
  then show ?thesis
    using assms(3-5) o f
    by (cases f) (auto simp: udp_transport_send_def sys_sendto_def Let_def min_def split: if_splits)
qed

theorem send_ok_iff_datagram_sent_witness:
  "sent (snd (snd (udp_transport_send (Some 0) (Some [7, 8]) 2 (Some sockaddr_zero) udp_example))) =
     [(3, sockaddr_zero, [7, 8])]"
proof -
  have o: "u_open (tp udp_example 0)" by (simp add: udp_example_state)
  obtain st s' where e: "udp_transport_send (Some 0) (Some [7, 8]) (length [7, 8 :: u8])
      (Some sockaddr_zero) udp_example = (st, s')" by (meson surj_pair)
  then have "st = TFTP_OK"
    by (simp add: udp_example_state udp_transport_send_def sys_sendto_def os_start_def Let_def)
  then show ?thesis
    using e send_ok_iff_datagram_sent [OF udp_example_reachable _ o _ e]
    by (simp add: UDP_TRANSPORT_POOL_SIZE_def udp_example_state os_start_def numeral_2_eq_2)
qed



end
