(* ===== verification/Tftp_File.thy ===== *)
theory Tftp_File
  imports Object_Pool Posix
begin

text \<open>
  \<open>src/tftp/file\<close>: local files behind handles from a static pool of \<open>TFTP_MAX_TRANSFERS\<close>
  objects.  The state is the pair of \<open>file_state\<close> (the file's static variables) and the
  operating system.
\<close>

section \<open>State\<close>

text \<open>
  The enum \<open>tftp_file_mode_t\<close>; \<open>TFTP_FILE_MODE_OTHER\<close> stands for the values of its integer
  type that are no enumerator, which \<open>tftp_file_open\<close> rejects.
\<close>

datatype tftp_file_mode_t = TFTP_FILE_READ | TFTP_FILE_WRITE | TFTP_FILE_MODE_OTHER

record tftp_file =
  f_in_use :: bool
  f_open :: bool
  f_fp :: ptr
  f_mode :: tftp_file_mode_t

definition tftp_file_zero :: tftp_file where
  "tftp_file_zero = \<lparr>f_in_use = False, f_open = False, f_fp = None, f_mode = TFTP_FILE_READ\<rparr>"

record file_state =
  g_file_pool :: "tftp_file list"

type_synonym file_os = "file_state \<times> os"

text \<open>The static variables at program start, for a pool of \<open>n\<close> objects.\<close>

definition file_state_init :: "nat \<Rightarrow> file_state" where
  "file_state_init n = \<lparr>g_file_pool = replicate n tftp_file_zero\<rparr>"

abbreviation fl :: "file_os \<Rightarrow> nat \<Rightarrow> tftp_file" where
  "fl s i \<equiv> g_file_pool (fst s) ! i"

definition set_fl :: "nat \<Rightarrow> tftp_file \<Rightarrow> file_os \<Rightarrow> file_os" where
  "set_fl i f s = ((fst s)\<lparr>g_file_pool := (g_file_pool (fst s))[i := f]\<rparr>, snd s)"

section \<open>Operations\<close>

definition tftp_file_acquire ::
  "ptr option \<Rightarrow> file_os \<Rightarrow> (tftp_status_t \<times> ptr option) \<times> file_os" where
  "tftp_file_acquire out s =
     (case out of
        None \<Rightarrow> ((TFTP_ERR_INVALID_ARGUMENT, None), s)
      | Some _ \<Rightarrow>
          (case first_index (\<lambda>f. \<not> f_in_use f) (g_file_pool (fst s)) of
             Some i \<Rightarrow>
               ((TFTP_OK, Some (Some i)),
                set_fl i ((fl s i)\<lparr>f_in_use := True, f_open := False, f_fp := None\<rparr>) s)
           | None \<Rightarrow> ((TFTP_ERR_NO_RESOURCE, Some None), s)))"

definition tftp_file_init :: "ptr \<Rightarrow> file_os \<Rightarrow> tftp_status_t \<times> file_os" where
  "tftp_file_init self s =
     (case self of
        None \<Rightarrow> (TFTP_ERR_INVALID_ARGUMENT, s)
      | Some i \<Rightarrow> (TFTP_OK, set_fl i ((fl s i)\<lparr>f_open := False, f_fp := None\<rparr>) s))"

text \<open>\<open>path\<close> is the array the pointer points to; the string ends at its first NUL.\<close>

definition tftp_file_open ::
  "ptr \<Rightarrow> bytes option \<Rightarrow> tftp_file_mode_t \<Rightarrow> file_os \<Rightarrow> tftp_status_t \<times> file_os" where
  "tftp_file_open self path mode s =
     (case (self, path) of
        (Some i, Some p) \<Rightarrow>
          if f_open (fl s i) then (TFTP_ERR_INVALID_STATE, s)
          else if mode \<noteq> TFTP_FILE_READ \<and> mode \<noteq> TFTP_FILE_WRITE
          then (TFTP_ERR_INVALID_ARGUMENT, s)
          else
            (case sys_fopen (c_string p) (mode = TFTP_FILE_WRITE) (snd s) of (fp, k) \<Rightarrow>
               let s = set_fl i ((fl s i)\<lparr>f_fp := fp\<rparr>) (fst s, k) in
               if fp = None then (TFTP_ERR_FILE, s)
               else (TFTP_OK, set_fl i ((fl s i)\<lparr>f_mode := mode, f_open := True\<rparr>) s))
      | _ \<Rightarrow> (TFTP_ERR_INVALID_ARGUMENT, s))"

text \<open>
  The result holds the status, the buffer and \<open>*bytes_read\<close>.  An open file has a stream
  (\<open>file_inv\<close> below), so the case of a missing one is never reached.
\<close>

definition tftp_file_read ::
  "ptr \<Rightarrow> bytes option \<Rightarrow> nat \<Rightarrow> nat option \<Rightarrow> file_os \<Rightarrow>
   (tftp_status_t \<times> bytes option \<times> nat option) \<times> file_os" where
  "tftp_file_read self buffer buffer_size bytes_read s =
     (case (self, buffer, bytes_read) of
        (Some i, Some b, Some _) \<Rightarrow>
          if \<not> f_open (fl s i) \<or> f_mode (fl s i) \<noteq> TFTP_FILE_READ
          then ((TFTP_ERR_INVALID_STATE, buffer, bytes_read), s)
          else
            (case f_fp (fl s i) of
               None \<Rightarrow> ((TFTP_ERR_INVALID_STATE, buffer, bytes_read), s)
             | Some fp \<Rightarrow>
                 (case sys_fread fp buffer_size (snd s) of (data, k) \<Rightarrow>
                    ((if sys_ferror fp k then TFTP_ERR_FILE else TFTP_OK,
                      Some (memcpy_at 0 data b), Some (length data)), (fst s, k))))
      | _ \<Rightarrow> ((TFTP_ERR_INVALID_ARGUMENT, buffer, bytes_read), s))"

definition tftp_file_write ::
  "ptr \<Rightarrow> bytes option \<Rightarrow> nat \<Rightarrow> nat option \<Rightarrow> file_os \<Rightarrow>
   (tftp_status_t \<times> nat option) \<times> file_os" where
  "tftp_file_write self buffer len bytes_written s =
     (case (self, buffer, bytes_written) of
        (Some i, Some b, Some _) \<Rightarrow>
          if \<not> f_open (fl s i) \<or> f_mode (fl s i) \<noteq> TFTP_FILE_WRITE
          then ((TFTP_ERR_INVALID_STATE, bytes_written), s)
          else
            (case f_fp (fl s i) of
               None \<Rightarrow> ((TFTP_ERR_INVALID_STATE, bytes_written), s)
             | Some fp \<Rightarrow>
                 (case sys_fwrite fp (take len b) (snd s) of (count, k) \<Rightarrow>
                    ((if count \<noteq> len then TFTP_ERR_FILE else TFTP_OK, Some count), (fst s, k))))
      | _ \<Rightarrow> ((TFTP_ERR_INVALID_ARGUMENT, bytes_written), s))"

definition tftp_file_close :: "ptr \<Rightarrow> file_os \<Rightarrow> tftp_status_t \<times> file_os" where
  "tftp_file_close self s =
     (case self of
        None \<Rightarrow> (TFTP_ERR_INVALID_ARGUMENT, s)
      | Some i \<Rightarrow>
          if f_open (fl s i) then
            (case f_fp (fl s i) of
               None \<Rightarrow> (TFTP_ERR_FILE, s)
             | Some fp \<Rightarrow>
                 (case sys_fclose fp (snd s) of (r, k) \<Rightarrow>
                    let s = set_fl i ((fl s i)\<lparr>f_fp := None, f_open := False\<rparr>) (fst s, k) in
                    if r \<noteq> 0 then (TFTP_ERR_FILE, s) else (TFTP_OK, s)))
          else (TFTP_OK, s))"

definition tftp_file_deinit :: "ptr \<Rightarrow> file_os \<Rightarrow> tftp_status_t \<times> file_os" where
  "tftp_file_deinit self s =
     (case self of
        None \<Rightarrow> (TFTP_ERR_INVALID_ARGUMENT, s)
      | Some i \<Rightarrow> tftp_file_close self s)"

definition tftp_file_release :: "ptr option \<Rightarrow> file_os \<Rightarrow> ptr option \<times> file_os" where
  "tftp_file_release self s =
     (case self of
        Some (Some i) \<Rightarrow> (Some None, set_fl i ((fl s i)\<lparr>f_in_use := False\<rparr>) s)
      | _ \<Rightarrow> (self, s))"


section \<open>Effects\<close>

lemma file_acquire_effect:
  assumes "tftp_file_acquire (Some x) s = ((st, p), s')"
  shows "snd s' = snd s \<and>
    ((st = TFTP_OK \<and> (\<exists>i. first_index (\<lambda>f. \<not> f_in_use f) (g_file_pool (fst s)) = Some i \<and>
        p = Some (Some i) \<and>
        fst s' = (fst s)\<lparr>g_file_pool := (g_file_pool (fst s))
          [i := (fl s i)\<lparr>f_in_use := True, f_open := False, f_fp := None\<rparr>]\<rparr>)) \<or>
     (st = TFTP_ERR_NO_RESOURCE \<and> p = Some None \<and> s' = s \<and>
        first_index (\<lambda>f. \<not> f_in_use f) (g_file_pool (fst s)) = None))"
  using assms by (auto simp: tftp_file_acquire_def set_fl_def split: option.splits)

lemma file_open_effect:
  assumes "tftp_file_open (Some i) (Some path) mode s = (st, s')" "\<not> f_open (fl s i)"
    "mode \<noteq> TFTP_FILE_MODE_OTHER"
  shows "script_same (snd s) (snd s') \<and>
    (st = TFTP_OK \<and> fds (snd s') = alloc_fd (fds (snd s)) # fds (snd s) \<and>
       fst s' = (fst s)\<lparr>g_file_pool := (g_file_pool (fst s))
         [i := (fl s i)\<lparr>f_fp := Some (next_stream (snd s)), f_mode := mode, f_open := True\<rparr>]\<rparr> \<and>
       next_stream (snd s') = Suc (next_stream (snd s)) \<and>
       fs (snd s') = (if mode = TFTP_FILE_WRITE then (fs (snd s))(c_string path \<mapsto> []) else fs (snd s)) \<and>
       fs (snd s') (c_string path) \<noteq> None \<and>
       streams (snd s') = (streams (snd s))(next_stream (snd s) \<mapsto>
         \<lparr>st_path = c_string path, st_fd = alloc_fd (fds (snd s)), st_pos = 0, st_err = False\<rparr>) \<or>
     st = TFTP_ERR_FILE \<and> disk_same (snd s) (snd s') \<and> fds (snd s') = fds (snd s) \<and>
       fst s' = (fst s)\<lparr>g_file_pool := (g_file_pool (fst s))[i := (fl s i)\<lparr>f_fp := None\<rparr>]\<rparr>)"
proof -
  obtain fp k where o: "sys_fopen (c_string path) (mode = TFTP_FILE_WRITE) (snd s) = (fp, k)"
    by (meson surj_pair)
  have i: "(g_file_pool (fst s))[i := x, i := y] ! i = y \<or> length (g_file_pool (fst s)) \<le> i" for x y
    by (cases "i < length (g_file_pool (fst s))") auto
  show ?thesis
  proof (cases "i < length (g_file_pool (fst s))")
    case True
    then show ?thesis
      using assms o sys_fopen_write_effect [OF o]
      by (cases mode) (auto simp: tftp_file_open_def set_fl_def split: if_splits)
  next
    case False
    then show ?thesis
      using assms o sys_fopen_write_effect [OF o]
      by (cases mode) (auto simp: tftp_file_open_def set_fl_def list_update_beyond split: if_splits)
  qed
qed


lemma file_read_effect:
  assumes "tftp_file_read (Some i) (Some b) n (Some x) s = ((st, b', n'), s')"
    "f_open (fl s i)" "f_fp (fl s i) = Some sid" "streams (snd s) sid = Some str"
  shows "fst s' = fst s \<and> script_same (snd s) (snd s') \<and> fs (snd s') = fs (snd s) \<and>
    fds (snd s') = fds (snd s) \<and> next_stream (snd s') = next_stream (snd s) \<and>
    (\<exists>str'. streams (snd s') = (streams (snd s))(sid \<mapsto> str') \<and> st_fd str' = st_fd str \<and>
       st_path str' = st_path str) \<and>
    st \<in> {TFTP_OK, TFTP_ERR_FILE, TFTP_ERR_INVALID_STATE} \<and>
    (st = TFTP_OK \<longrightarrow> (\<exists>data. n' = Some (length data) \<and> length data \<le> n \<and> b' = Some (memcpy_at 0 data b)))"
proof -
  obtain data k where r: "sys_fread sid n (snd s) = (data, k)" by (meson surj_pair)
  have same: "(streams (snd s))(sid \<mapsto> str) = streams (snd s)" using assms(4) by auto
  show ?thesis
    using assms(1-3) r sys_fread_effect [OF r assms(4)] assms(4) same
    by (auto simp: tftp_file_read_def intro: exI [of _ str] split: if_splits)
qed

lemma file_write_effect:
  assumes "tftp_file_write (Some i) (Some b) n (Some x) s = ((st, n'), s')"
    "f_open (fl s i)" "f_fp (fl s i) = Some sid" "streams (snd s) sid = Some str"
  shows "fst s' = fst s \<and> script_same (snd s) (snd s') \<and> fds (snd s') = fds (snd s) \<and>
    next_stream (snd s') = next_stream (snd s) \<and>
    (\<exists>str'. streams (snd s') = (streams (snd s))(sid \<mapsto> str') \<and> st_fd str' = st_fd str \<and>
       st_path str' = st_path str)"
proof -
  obtain c k where r: "sys_fwrite sid (take n b) (snd s) = (c, k)" by (meson surj_pair)
  have same: "(streams (snd s))(sid \<mapsto> str) = streams (snd s)" using assms(4) by auto
  show ?thesis
    using assms(1-3) r sys_fwrite_effect [OF r assms(4)] assms(4) same
    by (auto simp: tftp_file_write_def intro: exI [of _ str] split: if_splits)
qed

lemma file_close_effect:
  assumes "tftp_file_close (Some i) s = (st, s')"
    "f_open (fl s i)" "f_fp (fl s i) = Some sid" "streams (snd s) sid = Some str"
  shows "script_same (snd s) (snd s') \<and> fs (snd s') = fs (snd s) \<and>
    next_stream (snd s') = next_stream (snd s) \<and>
    streams (snd s') = (streams (snd s))(sid := None) \<and>
    fds (snd s') = removeAll (st_fd str) (fds (snd s)) \<and> st \<in> {TFTP_OK, TFTP_ERR_FILE} \<and>
    fst s' = (fst s)\<lparr>g_file_pool := (g_file_pool (fst s))[i := (fl s i)\<lparr>f_fp := None, f_open := False\<rparr>]\<rparr>"
proof -
  obtain r k where c: "sys_fclose sid (snd s) = (r, k)" by (meson surj_pair)
  show ?thesis
    using assms(1-3) c sys_fclose_effect [OF c assms(4)]
    by (auto simp: tftp_file_close_def set_fl_def Let_def split: if_splits)
qed

lemma file_close_closed: "\<not> f_open (fl s i) \<Longrightarrow> tftp_file_close (Some i) s = (TFTP_OK, s)"
  by (simp add: tftp_file_close_def)

section \<open>Invariant\<close>

text \<open>
  An open file is in use and has a stream of its own, and every stream belongs to an open
  file: no stream is lost.
\<close>

definition open_stream :: "tftp_file \<Rightarrow> ptr" where
  "open_stream f = (if f_open f then f_fp f else None)"

definition file_streams :: "file_os \<Rightarrow> ptr list" where
  "file_streams s = map open_stream (g_file_pool (fst s))"

definition file_inv :: "file_os \<Rightarrow> bool" where
  "file_inv s \<longleftrightarrow> streams_ok (snd s) \<and> exclusive (file_streams s) \<and>
     dom (streams (snd s)) = held (file_streams s) \<and>
     (\<forall>f\<in>set (g_file_pool (fst s)). f_open f \<longrightarrow> f_in_use f \<and> f_fp f \<noteq> None)"

lemma file_inv_start: "streams_ok k \<Longrightarrow> streams k = Map.empty \<Longrightarrow> file_inv (file_state_init n, k)"
  by (auto simp: file_inv_def file_streams_def file_state_init_def tftp_file_zero_def open_stream_def)

lemma file_inv_streams: "file_inv s \<Longrightarrow> streams_ok (snd s)"
  by (simp add: file_inv_def)

lemma file_streams_nth [simp]:
  "i < length (g_file_pool (fst s)) \<Longrightarrow> file_streams s ! i = open_stream (fl s i)"
  by (simp add: file_streams_def)

lemma file_streams_length [simp]: "length (file_streams s) = length (g_file_pool (fst s))"
  by (simp add: file_streams_def)

lemma file_streams_update:
  "file_streams ((fst s)\<lparr>g_file_pool := (g_file_pool (fst s))[i := x]\<rparr>, k) =
     (file_streams s)[i := open_stream x]"
  by (simp add: file_streams_def map_update)

lemma file_inv_openD:
  assumes "file_inv s" "i < length (g_file_pool (fst s))" "f_open (fl s i)"
  obtains sid str where "f_in_use (fl s i)" "f_fp (fl s i) = Some sid" "streams (snd s) sid = Some str"
proof -
  from assms obtain sid where i: "f_in_use (fl s i)" "f_fp (fl s i) = Some sid"
    by (fastforce simp: file_inv_def)
  then have "sid \<in> held (file_streams s)"
    using assms(2,3) by (intro heldI [of i]) (simp_all add: open_stream_def)
  then have "sid \<in> dom (streams (snd s))" using assms(1) by (simp add: file_inv_def)
  with i that show thesis by blast
qed

text \<open>The invariant needs only the streams and their descriptors of the operating system.\<close>

lemma file_inv_os:
  assumes "file_inv (u, k)" "streams k' = streams k" "next_stream k' = next_stream k"
    "\<And>sid st. streams k sid = Some st \<Longrightarrow> st_fd st \<in> set (fds k')"
  shows "file_inv (u, k')"
  using assms streams_ok_fds [of k k'] by (auto simp: file_inv_def file_streams_def)

lemma file_inv_stream_update:
  assumes inv: "file_inv (u, k)" and st: "streams k sid = Some st"
    and k': "streams k' = (streams k)(sid \<mapsto> st')" "st_fd st' = st_fd st" "fds k' = fds k"
      "next_stream k' = next_stream k"
  shows "file_inv (u, k')"
proof -
  have "streams_ok k'"
    by (rule streams_ok_update [OF _ st k']) (use inv in \<open>simp add: file_inv_def\<close>)
  moreover have "dom (streams k') = dom (streams k)" using st k'(1) by auto
  ultimately show ?thesis using inv by (simp add: file_inv_def file_streams_def)
qed

text \<open>A slot that is not open may be rewritten by another that is not open.\<close>

lemma file_inv_closed_slot:
  assumes inv: "file_inv s" and c: "\<not> f_open (fl s i)" "\<not> f_open x"
  shows "file_inv ((fst s)\<lparr>g_file_pool := (g_file_pool (fst s))[i := x]\<rparr>, snd s)"
proof -
  have "(file_streams s)[i := open_stream x] = file_streams s"
    using c by (cases "i < length (g_file_pool (fst s))")
      (auto simp: open_stream_def list_update_same_conv list_update_beyond)
  then show ?thesis
    using inv c(2) unfolding file_inv_def file_streams_update
    by (auto dest!: set_update_subset_insert [THEN subsetD])
qed

lemma file_inv_open:
  assumes inv: "file_inv s" and i: "i < length (g_file_pool (fst s))" "f_in_use (fl s i)"
    and e: "tftp_file_open (Some i) path mode s = (st, s')"
  shows "file_inv s'"
proof (cases "f_open (fl s i) \<or> mode = TFTP_FILE_MODE_OTHER \<or> path = None")
  case True
  then have "s' = s" using e by (cases path; cases mode) (auto simp: tftp_file_open_def split: if_splits)
  with inv show ?thesis by simp
next
  case False
  then obtain p where p: "path = Some p" "\<not> f_open (fl s i)" "mode \<noteq> TFTP_FILE_MODE_OTHER" by auto
  note ok = file_inv_streams [OF inv]
  let ?sid = "next_stream (snd s)"
  obtain fp k where o: "sys_fopen (c_string p) (mode = TFTP_FILE_WRITE) (snd s) = (fp, k)"
    by (meson surj_pair)
  then have "snd s' = k"
    using e p by (cases mode) (auto simp: tftp_file_open_def set_fl_def Let_def split: if_splits)
  with streams_ok_fopen [OF ok o] have ok': "streams_ok (snd s')" by simp
  from file_open_effect [OF e [unfolded p(1)] p(2,3)] show ?thesis
  proof (elim conjE disjE)
    assume d: "disk_same (snd s) (snd s')" "fds (snd s') = fds (snd s)"
      and s': "fst s' = (fst s)\<lparr>g_file_pool := (g_file_pool (fst s))[i := (fl s i)\<lparr>f_fp := None\<rparr>]\<rparr>"
    have "file_inv (fst s', snd s)"
      unfolding s' by (rule file_inv_closed_slot [OF inv]) (use p in auto)
    then have "file_inv (fst s', snd s')"
      by (rule file_inv_os) (use d streams_okD(2) [OF ok] in \<open>auto simp: disk_same_def\<close>)
    then show ?thesis by simp
  next
    let ?x = "(fl s i)\<lparr>f_fp := Some ?sid, f_mode := mode, f_open := True\<rparr>"
    assume s': "fst s' = (fst s)\<lparr>g_file_pool := (g_file_pool (fst s))[i := ?x]\<rparr>"
      and str: "streams (snd s') = (streams (snd s))(?sid \<mapsto>
         \<lparr>st_path = c_string p, st_fd = alloc_fd (fds (snd s)), st_pos = 0, st_err = False\<rparr>)"
    have fresh: "?sid \<notin> held (file_streams s)"
      using inv streams_ok_fresh [OF ok] by (metis domIff file_inv_def)
    have h: "file_streams s' = (file_streams s)[i := Some ?sid]"
      using file_streams_update [of s i ?x "snd s'"] s' by (metis open_stream_def prod.collapse
        tftp_file.select_convs(2,3) tftp_file.surjective tftp_file.update_convs(2,3,4))
    have "held (file_streams s') = insert ?sid (held (file_streams s))"
      unfolding h by (rule held_update_Some) (use i p in \<open>simp_all add: open_stream_def\<close>)
    moreover have "exclusive (file_streams s')"
      unfolding h by (rule exclusive_update_Some [OF _ fresh]) (use inv in \<open>simp add: file_inv_def\<close>)
    ultimately show ?thesis
      using inv ok' i(2) unfolding file_inv_def s' str
      by (auto dest!: set_update_subset_insert [THEN subsetD])
  qed
qed


lemma file_inv_close:
  assumes inv: "file_inv s" and i: "i < length (g_file_pool (fst s))"
    and e: "tftp_file_close (Some i) s = (st, s')"
  shows "file_inv s'"
proof (cases "f_open (fl s i)")
  case False
  with e inv show ?thesis by (simp add: file_close_closed)
next
  case True
  then obtain sid str where f: "f_in_use (fl s i)" "f_fp (fl s i) = Some sid"
      "streams (snd s) sid = Some str"
    using file_inv_openD [OF inv i] by blast
  let ?x = "(fl s i)\<lparr>f_fp := None, f_open := False\<rparr>"
  from file_close_effect [OF e True f(2,3)] have c: "streams (snd s') = (streams (snd s))(sid := None)"
      "fds (snd s') = removeAll (st_fd str) (fds (snd s))" "next_stream (snd s') = next_stream (snd s)"
      "fst s' = (fst s)\<lparr>g_file_pool := (g_file_pool (fst s))[i := ?x]\<rparr>" by auto
  have ex: "exclusive (file_streams s)" using inv by (simp add: file_inv_def)
  have at: "i < length (file_streams s)" "file_streams s ! i = Some sid"
    using i f True by (simp_all add: open_stream_def)
  have h: "file_streams s' = (file_streams s)[i := None]"
    using file_streams_update [of s i ?x "snd s'"] c(4)
    by (simp add: open_stream_def file_streams_def map_update)
  have "streams_ok (snd s')"
    using streams_ok_fclose [OF file_inv_streams [OF inv] f(3) c(1-3)] .
  moreover have "held (file_streams s') = held (file_streams s) - {sid}"
    unfolding h by (rule held_update_None [OF ex at])
  moreover have "dom (streams (snd s')) = dom (streams (snd s)) - {sid}" using c(1) by auto
  moreover have "exclusive (file_streams s')" unfolding h by (rule exclusive_update_None [OF ex])
  ultimately show ?thesis
    using inv unfolding file_inv_def c(4) by (auto dest!: set_update_subset_insert [THEN subsetD])
qed

lemma file_inv_deinit:
  "file_inv s \<Longrightarrow> i < length (g_file_pool (fst s)) \<Longrightarrow> tftp_file_deinit (Some i) s = (st, s') \<Longrightarrow>
   file_inv s'"
  by (simp add: tftp_file_deinit_def file_inv_close)

lemma file_inv_read:
  assumes inv: "file_inv s" and i: "i < length (g_file_pool (fst s))"
    and e: "tftp_file_read (Some i) b n r s = (res, s')"
  shows "file_inv s'"
proof (cases "f_open (fl s i) \<and> b \<noteq> None \<and> r \<noteq> None")
  case False
  with e inv show ?thesis by (auto simp: tftp_file_read_def split: option.splits)
next
  case True
  then obtain sid str where f: "f_fp (fl s i) = Some sid" "streams (snd s) sid = Some str"
    using file_inv_openD [OF inv i] by blast
  obtain st b' n' where res: "res = (st, b', n')" by (cases res)
  from True e res obtain str' where "fst s' = fst s" "streams (snd s') = (streams (snd s))(sid \<mapsto> str')"
      "st_fd str' = st_fd str" "fds (snd s') = fds (snd s)" "next_stream (snd s') = next_stream (snd s)"
    using file_read_effect [OF _ _ f] by blast
  then show ?thesis
    using file_inv_stream_update [of "fst s" "snd s" sid str "snd s'" str'] inv f
    by (metis prod.collapse)
qed

lemma file_inv_write:
  assumes inv: "file_inv s" and i: "i < length (g_file_pool (fst s))"
    and e: "tftp_file_write (Some i) b n r s = (res, s')"
  shows "file_inv s'"
proof (cases "f_open (fl s i) \<and> b \<noteq> None \<and> r \<noteq> None")
  case False
  with e inv show ?thesis by (auto simp: tftp_file_write_def split: option.splits)
next
  case True
  then obtain sid str where f: "f_fp (fl s i) = Some sid" "streams (snd s) sid = Some str"
    using file_inv_openD [OF inv i] by blast
  obtain st n' where res: "res = (st, n')" by (cases res)
  from True e res obtain str' where "fst s' = fst s" "streams (snd s') = (streams (snd s))(sid \<mapsto> str')"
      "st_fd str' = st_fd str" "fds (snd s') = fds (snd s)" "next_stream (snd s') = next_stream (snd s)"
    using file_write_effect [OF _ _ f] by blast
  then show ?thesis
    using file_inv_stream_update [of "fst s" "snd s" sid str "snd s'" str'] inv f
    by (metis prod.collapse)
qed

lemma file_inv_not_in_use:
  "file_inv s \<Longrightarrow> i < length (g_file_pool (fst s)) \<Longrightarrow> \<not> f_in_use (fl s i) \<Longrightarrow> \<not> f_open (fl s i)"
  by (auto elim: file_inv_openD)

lemma file_inv_acquire:
  assumes inv: "file_inv s" and e: "tftp_file_acquire out s = (r, s')"
  shows "file_inv s'"
proof (cases out)
  case None
  with e inv show ?thesis by (auto simp: tftp_file_acquire_def)
next
  case (Some x)
  obtain st p where r: "r = (st, p)" by fastforce
  have "snd s' = snd s \<and> (s' = s \<or> (\<exists>i. first_index (\<lambda>f. \<not> f_in_use f) (g_file_pool (fst s)) = Some i \<and>
      fst s' = (fst s)\<lparr>g_file_pool := (g_file_pool (fst s))
        [i := (fl s i)\<lparr>f_in_use := True, f_open := False, f_fp := None\<rparr>]\<rparr>))"
    using file_acquire_effect [of x s st p s'] e Some r by blast
  then show ?thesis
  proof (elim conjE disjE exE)
    assume "s' = s"
    with inv show ?thesis by simp
  next
    fix i
    assume os: "snd s' = snd s" and i: "first_index (\<lambda>f. \<not> f_in_use f) (g_file_pool (fst s)) = Some i"
      and s': "fst s' = (fst s)\<lparr>g_file_pool := (g_file_pool (fst s))
        [i := (fl s i)\<lparr>f_in_use := True, f_open := False, f_fp := None\<rparr>]\<rparr>"
    have "\<not> f_open (fl s i)"
      using file_inv_not_in_use [OF inv, of i] i by (auto simp: first_index_Some_iff)
    then have "file_inv (fst s', snd s)" unfolding s' by (rule file_inv_closed_slot [OF inv]) simp
    with os show ?thesis by (metis prod.collapse)
  qed
qed

lemma file_inv_init_op:
  assumes "file_inv s" "\<not> f_open (fl s i)" "tftp_file_init (Some i) s = (st, s')"
  shows "file_inv s'"
  using assms by (auto simp: tftp_file_init_def set_fl_def intro!: file_inv_closed_slot)

lemma file_inv_release:
  assumes "file_inv s" "\<not> f_open (fl s i)" "tftp_file_release (Some (Some i)) s = (p, s')"
  shows "file_inv s'"
  using assms by (auto simp: tftp_file_release_def set_fl_def intro!: file_inv_closed_slot)

section \<open>Runs of the module\<close>

text \<open>
  The calls on handles of the pool as the rest of the program may make them: a file is
  initialised or given back only when it is not open (\<open>tftp_file_deinit\<close> comes first), and
  opened only while in use.  The environment may change files and descriptors, but not those
  of open streams.
\<close>

inductive file_step :: "file_os \<Rightarrow> file_os \<Rightarrow> bool" where
  acquire: "tftp_file_acquire out s = (r, s') \<Longrightarrow> file_step s s'"
| init: "\<not> f_open (fl s i) \<Longrightarrow> tftp_file_init (Some i) s = (st, s') \<Longrightarrow> file_step s s'"
| "open": "i < length (g_file_pool (fst s)) \<Longrightarrow> f_in_use (fl s i) \<Longrightarrow>
    tftp_file_open (Some i) path mode s = (st, s') \<Longrightarrow> file_step s s'"
| read: "i < length (g_file_pool (fst s)) \<Longrightarrow> tftp_file_read (Some i) b n r s = (res, s') \<Longrightarrow>
    file_step s s'"
| "write": "i < length (g_file_pool (fst s)) \<Longrightarrow> tftp_file_write (Some i) b n r s = (res, s') \<Longrightarrow>
    file_step s s'"
| close: "i < length (g_file_pool (fst s)) \<Longrightarrow> tftp_file_close (Some i) s = (st, s') \<Longrightarrow> file_step s s'"
| deinit: "i < length (g_file_pool (fst s)) \<Longrightarrow> tftp_file_deinit (Some i) s = (st, s') \<Longrightarrow>
    file_step s s'"
| release: "\<not> f_open (fl s i) \<Longrightarrow> tftp_file_release (Some (Some i)) s = (p, s') \<Longrightarrow> file_step s s'"
| environment: "streams k' = streams k \<Longrightarrow> next_stream k' = next_stream k \<Longrightarrow>
    (\<And>sid st. streams k sid = Some st \<Longrightarrow> st_fd st \<in> set (fds k')) \<Longrightarrow> file_step (u, k) (u, k')"

inductive file_reachable :: "nat \<Rightarrow> file_os \<Rightarrow> bool" for n where
  start: "streams k = Map.empty \<Longrightarrow> file_reachable n (file_state_init n, k)"
| step: "file_reachable n s \<Longrightarrow> file_step s s' \<Longrightarrow> file_reachable n s'"

inductive_cases file_stepE: "file_step s s'"

lemma file_inv_step: "file_step s s' \<Longrightarrow> file_inv s \<Longrightarrow> file_inv s'"
proof (induction rule: file_step.induct)
  case (environment k' k u)
  show ?case by (rule file_inv_os [OF environment(4,1,2,3)])
qed ((rule file_inv_acquire; assumption) | (rule file_inv_init_op; assumption) |
     (rule file_inv_open; assumption) | (rule file_inv_read; assumption) |
     (rule file_inv_write; assumption) | (rule file_inv_close; assumption) |
     (rule file_inv_deinit; assumption) | (rule file_inv_release; assumption))+

lemma file_reachable_inv: "file_reachable n s \<Longrightarrow> file_inv s"
proof (induction rule: file_reachable.induct)
  case (start k)
  then show ?case by (intro file_inv_start) (auto simp: streams_ok_def)
qed (rule file_inv_step)


section \<open>The pool as an object pool\<close>

definition file_take :: "file_os \<Rightarrow> (tftp_status_t \<times> ptr) \<times> file_os" where
  "file_take s = (case tftp_file_acquire (Some None) s of ((st, p), s') \<Rightarrow> ((st, deref None p), s'))"

text \<open>Giving a file back as its users do: \<open>tftp_file_deinit\<close>, then \<open>tftp_file_release\<close>.\<close>

definition file_give :: "nat \<Rightarrow> file_os \<Rightarrow> file_os" where
  "file_give i s = snd (tftp_file_release (Some (Some i)) (snd (tftp_file_deinit (Some i) s)))"

abbreviation file_used :: "file_os \<Rightarrow> bool list" where
  "file_used s \<equiv> map f_in_use (g_file_pool (fst s))"

lemma file_close_in_use:
  assumes "file_inv s" "i < length (g_file_pool (fst s))" "tftp_file_close (Some i) s = (st, s')"
  shows "file_used s' = file_used s \<and> \<not> f_open (fl s' i) \<and>
    length (g_file_pool (fst s')) = length (g_file_pool (fst s))"
proof (cases "f_open (fl s i)")
  case False
  with assms(3) show ?thesis by (simp add: file_close_closed)
next
  case True
  then obtain sid str where "f_fp (fl s i) = Some sid" "streams (snd s) sid = Some str"
    using file_inv_openD [OF assms(1,2)] by blast
  from file_close_effect [OF assms(3) True this] assms(2) show ?thesis
    by (simp add: map_list_update_same)
qed

interpretation file_pool: object_pool file_used file_take file_give file_inv
proof
  fix s i
  assume inv: "file_inv s"
  show "first_index Not (file_used s) = Some i \<Longrightarrow> \<exists>s'. file_take s = ((TFTP_OK, Some i), s') \<and>
      file_used s' = (file_used s)[i := True]"
    by (simp add: file_take_def tftp_file_acquire_def first_index_map comp_def set_fl_def map_update)
  show "first_index Not (file_used s) = None \<Longrightarrow> file_take s = ((TFTP_ERR_NO_RESOURCE, None), s)"
    by (simp add: file_take_def tftp_file_acquire_def first_index_map comp_def)
  show "file_inv (snd (file_take s))"
    using file_inv_acquire [OF inv] by (auto simp: file_take_def split: prod.splits)
  assume "i < length (file_used s)"
  then have i: "i < length (g_file_pool (fst s))" by simp
  obtain st s1 where c: "tftp_file_deinit (Some i) s = (st, s1)" by (meson surj_pair)
  then have c': "tftp_file_close (Some i) s = (st, s1)" by (simp add: tftp_file_deinit_def)
  note u = file_close_in_use [OF inv i c']
  obtain p s2 where r: "tftp_file_release (Some (Some i)) s1 = (p, s2)" by (meson surj_pair)
  have inv1: "file_inv s1" by (rule file_inv_close [OF inv i c'])
  show "file_inv (file_give i s)"
    using file_inv_release [OF inv1 _ r] u by (simp add: file_give_def c r)
  show "file_used (file_give i s) = (file_used s)[i := False]"
    using u i by (simp add: file_give_def c tftp_file_release_def set_fl_def map_update)
qed

section \<open>Properties\<close>

text \<open>
  In every run of the module a file that is open is in use and has an open stream of its
  own, and every stream belongs to exactly one open file: none is leaked, also when \<open>fopen\<close>,
  \<open>fread\<close> or \<open>fclose\<close> fail.
\<close>

theorem streams_belong_to_open_files:
  assumes "file_reachable n s"
  shows "(\<forall>i<length (g_file_pool (fst s)). f_open (fl s i) \<longrightarrow> f_in_use (fl s i) \<and>
      (\<exists>sid str. f_fp (fl s i) = Some sid \<and> streams (snd s) sid = Some str \<and>
         st_fd str \<in> set (fds (snd s)))) \<and>
    (\<forall>sid str. streams (snd s) sid = Some str \<longrightarrow>
       (\<exists>!i. i < length (g_file_pool (fst s)) \<and> f_open (fl s i) \<and> f_fp (fl s i) = Some sid))"
proof (intro conjI allI impI)
  note inv = file_reachable_inv [OF assms]
  fix i
  assume "i < length (g_file_pool (fst s))" "f_open (fl s i)"
  from file_inv_openD [OF inv this] show "f_in_use (fl s i)" by blast
  from file_inv_openD [OF inv \<open>i < _\<close> \<open>f_open _\<close>] obtain sid str
    where "f_fp (fl s i) = Some sid" "streams (snd s) sid = Some str" by blast
  with streams_okD(2) [OF file_inv_streams [OF inv]]
  show "\<exists>sid str. f_fp (fl s i) = Some sid \<and> streams (snd s) sid = Some str \<and>
      st_fd str \<in> set (fds (snd s))" by blast
next
  note inv = file_reachable_inv [OF assms]
  fix sid str
  assume "streams (snd s) sid = Some str"
  then have "sid \<in> held (file_streams s)" using inv by (auto simp: file_inv_def)
  then obtain i where i: "i < length (g_file_pool (fst s))" "open_stream (fl s i) = Some sid"
    by (auto elim: heldE)
  show "\<exists>!i. i < length (g_file_pool (fst s)) \<and> f_open (fl s i) \<and> f_fp (fl s i) = Some sid"
  proof (rule ex1I [of _ i])
    show "i < length (g_file_pool (fst s)) \<and> f_open (fl s i) \<and> f_fp (fl s i) = Some sid"
      using i by (auto simp: open_stream_def split: if_splits)
    fix j assume j: "j < length (g_file_pool (fst s)) \<and> f_open (fl s j) \<and> f_fp (fl s j) = Some sid"
    have "exclusive (file_streams s)" using inv by (simp add: file_inv_def)
    from exclusiveD [OF this, of j i sid] i j show "j = i" by (simp add: open_stream_def)
  qed
qed

text \<open>A machine with one file, which the first file object has open for reading.\<close>

definition file_example :: file_os where
  "file_example =
     snd (tftp_file_open (Some 0) (Some (cstr ''f'')) TFTP_FILE_READ
       (snd (tftp_file_acquire (Some None)
         (file_state_init 2, os_start [cstr ''f'' \<mapsto> [1, 2, 3]]))))"

lemma cstr_f: "c_string (cstr ''f'') = cstr ''f''"
  by (simp add: c_string_def cstr_def)

lemma file_example_state:
  "file_example =
     (\<lparr>g_file_pool = [\<lparr>f_in_use = True, f_open = True, f_fp = Some 0, f_mode = TFTP_FILE_READ\<rparr>,
        tftp_file_zero]\<rparr>,
      (os_start [cstr ''f'' \<mapsto> [1, 2, 3]])\<lparr>fds := [3, 2, 1, 0], next_stream := 1,
        streams := [0 \<mapsto> \<lparr>st_path = cstr ''f'', st_fd = 3, st_pos = 0, st_err = False\<rparr>]\<rparr>)"
  by (simp add: file_example_def tftp_file_acquire_def tftp_file_open_def file_state_init_def
      set_fl_def numeral_2_eq_2 tftp_file_zero_def cstr_f sys_fopen_def os_start_def alloc_fd_def
      Let_def)

lemma file_reachable_acquire:
  "file_reachable n s \<Longrightarrow> file_reachable n (snd (tftp_file_acquire out s))"
  by (rule file_reachable.step, assumption, rule file_step.acquire) (rule prod.collapse [symmetric])

lemma file_reachable_open:
  "file_reachable n s \<Longrightarrow> i < length (g_file_pool (fst s)) \<Longrightarrow> f_in_use (fl s i) \<Longrightarrow>
   file_reachable n (snd (tftp_file_open (Some i) path mode s))"
  by (rule file_reachable.step, assumption, rule file_step.open) (auto intro: prod.collapse [symmetric])

lemma file_example_reachable: "file_reachable 2 file_example"
  unfolding file_example_def
  by (intro file_reachable_open file_reachable_acquire file_reachable.start)
    (simp_all add: os_start_def tftp_file_acquire_def file_state_init_def numeral_2_eq_2
      tftp_file_zero_def set_fl_def)

theorem streams_belong_to_open_files_witness:
  "\<exists>!i. i < 2 \<and> f_open (fl file_example i) \<and> f_fp (fl file_example i) = Some 0"
  using streams_belong_to_open_files [OF file_example_reachable]
  by (simp add: file_example_state numeral_2_eq_2)


section \<open>Reading and writing in blocks\<close>

text \<open>
  The two loops of a client: \<open>n\<close> reads into a buffer of \<open>m\<close> bytes, with the bytes each of them
  delivered, and the writes of a list of blocks, with the status of each.
\<close>

fun read_blocks :: "nat \<Rightarrow> nat \<Rightarrow> nat \<Rightarrow> file_os \<Rightarrow> bytes list \<times> file_os" where
  "read_blocks i m 0 s = ([], s)"
| "read_blocks i m (Suc n) s =
     (case tftp_file_read (Some i) (Some (replicate m 0)) m (Some 0) s of
        ((st, b, r), s1) \<Rightarrow>
          (case read_blocks i m n s1 of (bs, t) \<Rightarrow> (take (deref 0 r) (deref [] b) # bs, t)))"

fun write_blocks :: "nat \<Rightarrow> bytes list \<Rightarrow> file_os \<Rightarrow> tftp_status_t list \<times> file_os" where
  "write_blocks i [] s = ([], s)"
| "write_blocks i (d # ds) s =
     (case tftp_file_write (Some i) (Some d) (length d) (Some 0) s of
        ((st, r), s1) \<Rightarrow> (case write_blocks i ds s1 of (sts, t) \<Rightarrow> (st # sts, t)))"

text \<open>The file \<open>i\<close> is open on \<open>path\<close> with content \<open>c\<close> and position \<open>pos\<close>, and no call fails.\<close>

definition open_on :: "nat \<Rightarrow> tftp_file_mode_t \<Rightarrow> nat \<Rightarrow> bytes \<Rightarrow> bytes \<Rightarrow> nat \<Rightarrow> file_os \<Rightarrow> bool" where
  "open_on i mode sid path c pos s \<longleftrightarrow>
     i < length (g_file_pool (fst s)) \<and> f_open (fl s i) \<and> f_mode (fl s i) = mode \<and>
     f_fp (fl s i) = Some sid \<and> faults (snd s) = [] \<and> fs (snd s) path = Some c \<and>
     (\<exists>fd. streams (snd s) sid = Some \<lparr>st_path = path, st_fd = fd, st_pos = pos, st_err = False\<rparr>)"

lemma file_open_ok:
  assumes "i < length (g_file_pool (fst s))" "\<not> f_open (fl s i)" "faults (snd s) = []"
    and "mode = TFTP_FILE_READ \<and> fs (snd s) (c_string p) = Some c \<or> mode = TFTP_FILE_WRITE \<and> c = []"
  shows "\<exists>s' sid. tftp_file_open (Some i) (Some p) mode s = (TFTP_OK, s') \<and>
    open_on i mode sid (c_string p) c 0 s'"
  using assms
  by (auto simp: tftp_file_open_def sys_fopen_def set_fl_def Let_def open_on_def)

lemma file_read_ok:
  assumes "open_on i TFTP_FILE_READ sid path c pos s" "length b = m"
  shows "\<exists>s'. tftp_file_read (Some i) (Some b) m (Some x) s =
      ((TFTP_OK, Some (memcpy_at 0 (take m (drop pos c)) b), Some (length (take m (drop pos c)))), s') \<and>
    open_on i TFTP_FILE_READ sid path c (pos + length (take m (drop pos c))) s' \<and> fst s' = fst s \<and>
    snd s' = (snd s)\<lparr>streams := streams (snd s')\<rparr>"
  using assms
  by (auto simp: tftp_file_read_def open_on_def sys_fread_def sys_ferror_def read_amount_def
      stream_content_def Let_def)

lemma file_write_ok:
  assumes "open_on i TFTP_FILE_WRITE sid path c (length c) s"
  shows "\<exists>s'. tftp_file_write (Some i) (Some d) (length d) (Some x) s =
      ((TFTP_OK, Some (length d)), s') \<and>
    open_on i TFTP_FILE_WRITE sid path (c @ d) (length (c @ d)) s' \<and> fst s' = fst s"
  using assms
  by (auto simp: tftp_file_write_def open_on_def sys_fwrite_def read_amount_def
      stream_content_def Let_def)

lemma file_close_ok:
  assumes "open_on i mode sid path c pos s"
  shows "\<exists>s'. tftp_file_close (Some i) s = (TFTP_OK, s') \<and> \<not> f_open (fl s' i) \<and>
    fs (snd s') = fs (snd s) \<and> faults (snd s') = [] \<and>
    length (g_file_pool (fst s')) = length (g_file_pool (fst s))"
  using assms
  by (auto simp: tftp_file_close_def open_on_def sys_fclose_def set_fl_def Let_def)

lemma read_blocks_ok:
  assumes "open_on i TFTP_FILE_READ sid path c (min pos (length c)) s"
  shows "fst (read_blocks i m n s) = map (\<lambda>k. take m (drop (pos + k * m) c)) [0..<n]"
  using assms
proof (induction n arbitrary: s pos)
  case 0
  then show ?case by simp
next
  case (Suc n)
  let ?d = "take m (drop (min pos (length c)) c)"
  obtain s1 where r: "tftp_file_read (Some i) (Some (replicate m 0)) m (Some 0) s =
      ((TFTP_OK, Some (memcpy_at 0 ?d (replicate m 0)), Some (length ?d)), s1)"
    and o: "open_on i TFTP_FILE_READ sid path c (min pos (length c) + length ?d) s1"
    using file_read_ok [OF Suc.prems length_replicate [of m "0 :: u8"]] by blast
  have d: "?d = take m (drop pos c)" by (cases "pos \<le> length c") (simp_all add: min_def)
  have "min pos (length c) + length ?d = min (pos + m) (length c)"
    by (simp add: min_def) arith
  then have "open_on i TFTP_FILE_READ sid path c (min (pos + m) (length c)) s1" using o by simp
  from Suc.IH [OF this] have "fst (read_blocks i m n s1) =
      map (\<lambda>k. take m (drop (pos + m + k * m) c)) [0..<n]" .
  also have "\<dots> = map (\<lambda>k. take m (drop (pos + k * m) c)) [Suc 0..<Suc n]"
    by (simp only: map_Suc_upt [symmetric] map_map) (simp add: comp_def add.assoc)
  finally have rest: "fst (read_blocks i m n s1) = map (\<lambda>k. take m (drop (pos + k * m) c)) [Suc 0..<Suc n]" .
  obtain bs t where rb: "read_blocks i m n s1 = (bs, t)" by (meson surj_pair)
  have "fst (read_blocks i m (Suc n) s) = ?d # bs"
    by (simp only: read_blocks.simps r rb prod.case fst_conv deref_simps take_memcpy_at_0)
  then show ?case using rest rb d by (simp add: upt_conv_Cons del: upt_Suc)
qed

lemma write_blocks_ok:
  assumes "open_on i TFTP_FILE_WRITE sid path c (length c) s"
  shows "\<exists>s'. write_blocks i ds s = (replicate (length ds) TFTP_OK, s') \<and>
    open_on i TFTP_FILE_WRITE sid path (c @ concat ds) (length (c @ concat ds)) s'"
  using assms
proof (induction ds arbitrary: s c)
  case Nil
  then show ?case by simp
next
  case (Cons d ds)
  obtain s1 where w: "tftp_file_write (Some i) (Some d) (length d) (Some 0) s =
      ((TFTP_OK, Some (length d)), s1)"
    and o: "open_on i TFTP_FILE_WRITE sid path (c @ d) (length (c @ d)) s1"
    using file_write_ok [OF Cons.prems] by blast
  from Cons.IH [OF o] w show ?case by auto
qed

text \<open>Cutting a byte string into blocks of \<open>m\<close> and joining them again.\<close>

lemma concat_blocks: "0 < m \<Longrightarrow> concat (map (\<lambda>k. take m (drop (k * m) c)) [0..<n]) = take (n * m) c"
proof (induction n)
  case (Suc n)
  have "take (Suc n * m) c = take (n * m) c @ take m (drop (n * m) c)"
    using take_add [of "n * m" m c] by (simp add: add.commute)
  with Suc show ?case by simp
qed simp

text \<open>
  C30: On a machine whose calls do not fail, what is written to a file block by block is what is
  read back block by block after closing and reopening it, for any two block sizes; every
  write, the close and both opens report success.
\<close>

theorem file_write_read_roundtrip:
  assumes "file_reachable n s" "i < length (g_file_pool (fst s))" "\<not> f_open (fl s i)"
    and "faults (snd s) = []" "0 < m" "length (concat ds) \<le> r * m"
  shows "\<exists>s1 s2 s3 s4. tftp_file_open (Some i) (Some path) TFTP_FILE_WRITE s = (TFTP_OK, s1) \<and>
    write_blocks i ds s1 = (replicate (length ds) TFTP_OK, s2) \<and>
    tftp_file_close (Some i) s2 = (TFTP_OK, s3) \<and>
    tftp_file_open (Some i) (Some path) TFTP_FILE_READ s3 = (TFTP_OK, s4) \<and>
    concat (fst (read_blocks i m r s4)) = concat ds"
proof -
  obtain s1 sid where o: "tftp_file_open (Some i) (Some path) TFTP_FILE_WRITE s = (TFTP_OK, s1)"
    and o': "open_on i TFTP_FILE_WRITE sid (c_string path) [] (length ([] :: bytes)) s1"
    using file_open_ok [OF assms(2-4), of TFTP_FILE_WRITE path "[]"] by auto
  from write_blocks_ok [OF o', of ds] obtain s2 where
    w: "write_blocks i ds s1 = (replicate (length ds) TFTP_OK, s2)"
    and w': "open_on i TFTP_FILE_WRITE sid (c_string path) (concat ds) (length (concat ds)) s2"
    by auto
  from file_close_ok [OF w'] obtain s3 where c: "tftp_file_close (Some i) s2 = (TFTP_OK, s3)"
    and c': "\<not> f_open (fl s3 i)" "fs (snd s3) = fs (snd s2)" "faults (snd s3) = []"
      "length (g_file_pool (fst s3)) = length (g_file_pool (fst s2))" by blast
  have "fs (snd s3) (c_string path) = Some (concat ds)" "i < length (g_file_pool (fst s3))"
    using w' c' by (simp_all add: open_on_def)
  with file_open_ok [of i s3 TFTP_FILE_READ path "concat ds"] c' obtain s4 sid' where
    q: "tftp_file_open (Some i) (Some path) TFTP_FILE_READ s3 = (TFTP_OK, s4)"
    and q': "open_on i TFTP_FILE_READ sid' (c_string path) (concat ds) (min 0 (length (concat ds))) s4"
    by auto
  from read_blocks_ok [OF q', of m r] have "concat (fst (read_blocks i m r s4)) = concat ds"
    using concat_blocks [of m "concat ds" r] assms(5,6) by simp
  with o w c q show ?thesis by blast
qed

theorem file_write_read_roundtrip_witness:
  "\<exists>s1 s2 s3 s4. tftp_file_open (Some 1) (Some (cstr ''f'')) TFTP_FILE_WRITE file_example = (TFTP_OK, s1) \<and>
    write_blocks 1 [[9, 8], [7]] s1 = ([TFTP_OK, TFTP_OK], s2) \<and>
    tftp_file_close (Some 1) s2 = (TFTP_OK, s3) \<and>
    tftp_file_open (Some 1) (Some (cstr ''f'')) TFTP_FILE_READ s3 = (TFTP_OK, s4) \<and>
    concat (fst (read_blocks 1 2 2 s4)) = [9, 8, 7]"
  using file_write_read_roundtrip [OF file_example_reachable, of 1 2 "[[9, 8], [7]]" 2 "cstr ''f''"]
  by (simp add: file_example_state tftp_file_zero_def os_start_def numeral_2_eq_2)

end
