(* ===== verification/Reactor.thy ===== *)
theory Reactor
  imports Object_Pool Posix
begin

text \<open>
  \<open>src/tftp/reactor\<close>: the table of registered descriptors, one \<open>poll\<close> round with its
  dispatch loop, and the main loop.  Handlers are called through function pointers; the
  model is generic in their type \<open>'h\<close> and takes from its host (a record of functions) what
  a call does to the program state \<open>'s\<close> that contains this reactor.
\<close>

section \<open>State\<close>

definition REACTOR_MAX_HANDLERS :: nat where "REACTOR_MAX_HANDLERS = 16"

definition REACTOR_EVENT_READ :: u32 where "REACTOR_EVENT_READ = 1"
definition REACTOR_EVENT_WRITE :: u32 where "REACTOR_EVENT_WRITE = 2"
definition REACTOR_EVENT_ERROR :: u32 where "REACTOR_EVENT_ERROR = 4"

lemmas reactor_events = REACTOR_EVENT_READ_def REACTOR_EVENT_WRITE_def REACTOR_EVENT_ERROR_def
lemmas poll_bits = POLLIN_def POLLOUT_def POLLERR_def POLLHUP_def POLLNVAL_def

record 'h reactor_registration =
  r_fd :: int
  r_events :: u32
  r_handler :: "'h option"
  r_context :: ptr

record 'h reactor =
  rc_initialized :: bool
  rc_running :: bool
  rc_registrations :: "'h reactor_registration list"
  rc_registration_count :: nat
  rc_max_handlers :: nat

record 'h reactor_state =
  g_reactor :: "'h reactor"
  g_reactor_in_use :: bool

text \<open>A \<open>reactor_t *\<close> is NULL or \<open>&g_reactor\<close>, \<open>Some 0\<close>.\<close>

record reactor_config_t =
  rcfg_max_handlers :: u32

section \<open>Event masks\<close>

definition reactor_to_poll_events :: "u32 \<Rightarrow> u16" where
  "reactor_to_poll_events events =
     (let p = 0;
          p = (if events AND REACTOR_EVENT_READ \<noteq> 0 then p OR POLLIN else p);
          p = (if events AND REACTOR_EVENT_WRITE \<noteq> 0 then p OR POLLOUT else p);
          p = (if events AND REACTOR_EVENT_ERROR \<noteq> 0 then p OR POLLERR else p)
      in p)"

definition poll_to_reactor_events :: "u16 \<Rightarrow> u32" where
  "poll_to_reactor_events events =
     (let r = 0;
          r = (if events AND POLLIN \<noteq> 0 then r OR REACTOR_EVENT_READ else r);
          r = (if events AND POLLOUT \<noteq> 0 then r OR REACTOR_EVENT_WRITE else r);
          r = (if events AND (POLLERR OR POLLHUP OR POLLNVAL) \<noteq> 0
               then r OR REACTOR_EVENT_ERROR else r)
      in r)"

section \<open>The table of registrations\<close>

definition reactor_init ::
  "ptr \<Rightarrow> reactor_config_t option \<Rightarrow> 'h reactor_state \<Rightarrow> tftp_status_t \<times> 'h reactor_state" where
  "reactor_init self config s =
     (case self of
        None \<Rightarrow> (TFTP_ERR_INVALID_ARGUMENT, s)
      | Some _ \<Rightarrow>
          let max_handlers = REACTOR_MAX_HANDLERS;
              max_handlers =
                (case config of
                   None \<Rightarrow> max_handlers
                 | Some c \<Rightarrow>
                     if rcfg_max_handlers c \<noteq> 0 then unat (rcfg_max_handlers c) else max_handlers);
              max_handlers =
                (if max_handlers > REACTOR_MAX_HANDLERS then REACTOR_MAX_HANDLERS else max_handlers)
          in
          (TFTP_OK,
           s\<lparr>g_reactor := (g_reactor s)\<lparr>rc_initialized := True, rc_running := False,
               rc_registration_count := 0, rc_max_handlers := max_handlers\<rparr>\<rparr>))"

definition reactor_register ::
  "ptr \<Rightarrow> 'h reactor_registration option \<Rightarrow> 'h reactor_state \<Rightarrow>
   tftp_status_t \<times> 'h reactor_state" where
  "reactor_register self registration s =
     (case (self, registration) of
        (Some _, Some reg) \<Rightarrow>
          let r = g_reactor s in
          if \<not> rc_initialized r then (TFTP_ERR_NOT_INITIALIZED, s)
          else if r_fd reg < 0 then (TFTP_ERR_INVALID_ARGUMENT, s)
          else if r_handler reg = None then (TFTP_ERR_INVALID_ARGUMENT, s)
          else if rc_registration_count r \<ge> rc_max_handlers r then (TFTP_ERR_NO_RESOURCE, s)
          else
            (TFTP_OK,
             s\<lparr>g_reactor := r
                 \<lparr>rc_registrations := (rc_registrations r)[rc_registration_count r := reg],
                  rc_registration_count := rc_registration_count r + 1\<rparr>\<rparr>)
      | _ \<Rightarrow> (TFTP_ERR_INVALID_ARGUMENT, s))"

text \<open>The inner loop of \<open>reactor_unregister\<close> moves the entries behind the removed one up.\<close>

function shift_down :: "'a list \<Rightarrow> nat \<Rightarrow> nat \<Rightarrow> 'a list" where
  "shift_down regs j count =
     (if j + 1 < count then shift_down (regs[j := regs ! (j + 1)]) (j + 1) count else regs)"
  by pat_completeness auto
termination
  by (relation "measure (\<lambda>(regs, j, count). count - j)") auto

declare shift_down.simps [simp del]

definition reactor_unregister ::
  "ptr \<Rightarrow> int \<Rightarrow> 'h reactor_state \<Rightarrow> tftp_status_t \<times> 'h reactor_state" where
  "reactor_unregister self fd s =
     (case self of
        None \<Rightarrow> (TFTP_ERR_INVALID_ARGUMENT, s)
      | Some _ \<Rightarrow>
          let r = g_reactor s in
          if \<not> rc_initialized r then (TFTP_ERR_NOT_INITIALIZED, s)
          else
            (case first_index (\<lambda>reg. r_fd reg = fd)
                    (take (rc_registration_count r) (rc_registrations r)) of
               Some i \<Rightarrow>
                 (TFTP_OK,
                  s\<lparr>g_reactor := r
                      \<lparr>rc_registrations :=
                         shift_down (rc_registrations r) i (rc_registration_count r),
                       rc_registration_count := rc_registration_count r - 1\<rparr>\<rparr>)
             | None \<Rightarrow> (TFTP_ERR_INVALID_ARGUMENT, s)))"

definition reactor_stop :: "ptr \<Rightarrow> 'h reactor_state \<Rightarrow> tftp_status_t \<times> 'h reactor_state" where
  "reactor_stop self s =
     (case self of
        None \<Rightarrow> (TFTP_ERR_INVALID_ARGUMENT, s)
      | Some _ \<Rightarrow> (TFTP_OK, s\<lparr>g_reactor := (g_reactor s)\<lparr>rc_running := False\<rparr>\<rparr>))"

definition reactor_is_running :: "ptr \<Rightarrow> 'h reactor_state \<Rightarrow> bool" where
  "reactor_is_running self s =
     (case self of None \<Rightarrow> False | Some _ \<Rightarrow> rc_running (g_reactor s))"

definition reactor_acquire ::
  "ptr option \<Rightarrow> 'h reactor_state \<Rightarrow> (tftp_status_t \<times> ptr option) \<times> 'h reactor_state" where
  "reactor_acquire out s =
     (case out of
        None \<Rightarrow> ((TFTP_ERR_INVALID_ARGUMENT, None), s)
      | Some _ \<Rightarrow>
          if g_reactor_in_use s then ((TFTP_ERR_NO_RESOURCE, Some None), s)
          else ((TFTP_OK, Some (Some 0)), s\<lparr>g_reactor_in_use := True\<rparr>))"

definition reactor_release ::
  "ptr option \<Rightarrow> 'h reactor_state \<Rightarrow> ptr option \<times> 'h reactor_state" where
  "reactor_release self s =
     (case self of
        Some (Some p) \<Rightarrow>
          if p = 0 then (Some None, s\<lparr>g_reactor_in_use := False\<rparr>) else (self, s)
      | _ \<Rightarrow> (self, s))"

definition reactor_deinit :: "ptr \<Rightarrow> 'h reactor_state \<Rightarrow> tftp_status_t \<times> 'h reactor_state" where
  "reactor_deinit self s =
     (case self of
        None \<Rightarrow> (TFTP_ERR_INVALID_ARGUMENT, s)
      | Some _ \<Rightarrow>
          if \<not> rc_initialized (g_reactor s) then (TFTP_ERR_NOT_INITIALIZED, s)
          else
            (TFTP_OK,
             s\<lparr>g_reactor := (g_reactor s)\<lparr>rc_running := False, rc_registration_count := 0,
                 rc_initialized := False\<rparr>\<rparr>))"

section \<open>One poll round and the main loop\<close>

record ('s, 'h) host =
  h_reactor :: "'s \<Rightarrow> 'h reactor_state"
  h_set_reactor :: "'h reactor_state \<Rightarrow> 's \<Rightarrow> 's"
  h_os :: "'s \<Rightarrow> os"
  h_set_os :: "os \<Rightarrow> 's \<Rightarrow> 's"
  h_call :: "'h \<Rightarrow> int \<Rightarrow> u32 \<Rightarrow> ptr \<Rightarrow> 's \<Rightarrow> 's"

text \<open>
  The first loop of \<open>reactor_run_once\<close> fills one \<open>pollfd\<close> per registration.  \<open>poll_fds\<close> is
  an uninitialised local array: \<open>stack\<close> is what its 16 entries hold before.
\<close>

definition fill_pollfd :: "'h reactor_registration \<Rightarrow> pollfd" where
  "fill_pollfd reg =
     \<lparr>pf_fd = r_fd reg, pf_events = reactor_to_poll_events (r_events reg), pf_revents = 0\<rparr>"

definition fill_pollfds :: "'h reactor \<Rightarrow> pollfd list \<Rightarrow> pollfd list" where
  "fill_pollfds r stack =
     (let n = rc_registration_count r in
      map fill_pollfd (take n (rc_registrations r)) @ drop n stack)"

text \<open>
  The dispatch loop.  Its bound is the registration count at that moment, which the handlers
  change; entry, descriptor and context are those registered at that moment, the events are
  those of the array.  The second part of the guard is the end of the array \<open>poll_fds\<close>; the
  count never exceeds it (\<open>reactor_inv\<close> below).
\<close>

function reactor_dispatch ::
  "('s, 'h) host \<Rightarrow> pollfd list \<Rightarrow> nat \<Rightarrow> 's \<Rightarrow> 's" where
  "reactor_dispatch H poll_fds i s =
     (let r = g_reactor (h_reactor H s) in
      if i < rc_registration_count r \<and> i < length poll_fds then
        let revents = pf_revents (poll_fds ! i);
            events = poll_to_reactor_events revents;
            reg = rc_registrations r ! i;
            s = (if revents \<noteq> 0 \<and> events \<noteq> 0 then
                   (case r_handler reg of
                      None \<Rightarrow> s
                    | Some h \<Rightarrow> h_call H h (r_fd reg) events (r_context reg) s)
                 else s)
        in reactor_dispatch H poll_fds (Suc i) s
      else s)"
  by pat_completeness auto
termination
  by (relation "measure (\<lambda>(H, poll_fds, i, s). length poll_fds - i)") auto

declare reactor_dispatch.simps [simp del]

definition reactor_run_once ::
  "('s, 'h) host \<Rightarrow> pollfd list \<Rightarrow> ptr \<Rightarrow> int \<Rightarrow> 's \<Rightarrow> tftp_status_t \<times> 's" where
  "reactor_run_once H stack self timeout_ms s =
     (case self of
        None \<Rightarrow> (TFTP_ERR_INVALID_ARGUMENT, s)
      | Some _ \<Rightarrow>
          let r = g_reactor (h_reactor H s) in
          if \<not> rc_initialized r then (TFTP_ERR_NOT_INITIALIZED, s)
          else
            let poll_fds = fill_pollfds r stack in
            (case sys_poll poll_fds (rc_registration_count r) (h_os H s) of
               ((result, poll_fds), k) \<Rightarrow>
                 let s = h_set_os H k s in
                 if result < 0 then (TFTP_ERR_IO, s)
                 else if result = 0 then (TFTP_ERR_TIMEOUT, s)
                 else (TFTP_OK, reactor_dispatch H poll_fds 0 s)))"

definition set_running :: "('s, 'h) host \<Rightarrow> bool \<Rightarrow> 's \<Rightarrow> 's" where
  "set_running H b s =
     (let rs = h_reactor H s in
      h_set_reactor H (rs\<lparr>g_reactor := (g_reactor rs)\<lparr>rc_running := b\<rparr>\<rparr>) s)"

text \<open>
  The main loop need not end, so it is a partial function: \<open>None\<close> is a run that does not
  return.  \<open>stacks n\<close> is the uninitialised array of the \<open>n\<close>-th round.
\<close>

partial_function (option) reactor_run_loop ::
  "('s, 'h) host \<Rightarrow> (nat \<Rightarrow> pollfd list) \<Rightarrow> nat \<Rightarrow> ptr \<Rightarrow> 's \<Rightarrow> (tftp_status_t \<times> 's) option" where
  "reactor_run_loop H stacks n self s =
     (if rc_running (g_reactor (h_reactor H s)) then
        (case reactor_run_once H (stacks n) self 100 s of (status, s') \<Rightarrow>
           if status \<noteq> TFTP_OK \<and> status \<noteq> TFTP_ERR_TIMEOUT
           then Some (status, set_running H False s')
           else reactor_run_loop H stacks (Suc n) self s')
      else Some (TFTP_OK, s))"

definition reactor_run ::
  "('s, 'h) host \<Rightarrow> (nat \<Rightarrow> pollfd list) \<Rightarrow> ptr \<Rightarrow> 's \<Rightarrow> (tftp_status_t \<times> 's) option" where
  "reactor_run H stacks self s =
     (case self of
        None \<Rightarrow> Some (TFTP_ERR_INVALID_ARGUMENT, s)
      | Some _ \<Rightarrow>
          if \<not> rc_initialized (g_reactor (h_reactor H s)) then Some (TFTP_ERR_NOT_INITIALIZED, s)
          else reactor_run_loop H stacks 0 self (set_running H True s))"


section \<open>The table as a list\<close>

text \<open>
  The abstract view of the registration array: its first \<open>registration_count\<close> entries.
  \<open>remove_fd\<close> is the specification of \<open>reactor_unregister\<close>: the first entry of the
  descriptor goes, the order of the others stays.
\<close>

definition reg_table :: "'h reactor_state \<Rightarrow> 'h reactor_registration list" where
  "reg_table s = take (rc_registration_count (g_reactor s)) (rc_registrations (g_reactor s))"

fun remove_fd :: "int \<Rightarrow> 'h reactor_registration list \<Rightarrow> 'h reactor_registration list" where
  "remove_fd fd [] = []"
| "remove_fd fd (r # rs) = (if r_fd r = fd then rs else r # remove_fd fd rs)"

definition reg_ok :: "'h reactor_registration \<Rightarrow> bool" where
  "reg_ok r \<longleftrightarrow> 0 \<le> r_fd r \<and> r_handler r \<noteq> None"

definition reactor_inv :: "'h reactor_state \<Rightarrow> bool" where
  "reactor_inv s \<longleftrightarrow>
     rc_registration_count (g_reactor s) \<le> rc_max_handlers (g_reactor s) \<and>
     rc_max_handlers (g_reactor s) \<le> REACTOR_MAX_HANDLERS \<and>
     length (rc_registrations (g_reactor s)) = REACTOR_MAX_HANDLERS \<and>
     (0 < rc_registration_count (g_reactor s) \<longrightarrow> rc_initialized (g_reactor s)) \<and>
     (\<forall>r\<in>set (reg_table s). reg_ok r)"

lemma length_shift_down [simp]: "length (shift_down regs j count) = length regs"
  by (induction regs j count rule: shift_down.induct) (simp add: shift_down.simps)

lemma shift_down_nth:
  "count \<le> length regs \<Longrightarrow> k < length regs \<Longrightarrow>
   shift_down regs j count ! k = (if j \<le> k \<and> k + 1 < count then regs ! (k + 1) else regs ! k)"
proof (induction regs j count rule: shift_down.induct)
  case (1 regs j count)
  show ?case
  proof (cases "j + 1 < count")
    case False
    then show ?thesis by (subst shift_down.simps) auto
  next
    case True
    with 1 show ?thesis
      by (subst shift_down.simps) (auto simp: nth_list_update)
  qed
qed

lemma shift_down_table:
  assumes "i < count" "count \<le> length regs"
  shows "take (count - 1) (shift_down regs i count) = take i (take count regs) @ drop (Suc i) (take count regs)"
proof (rule nth_equalityI)
  show "length (take (count - 1) (shift_down regs i count)) =
      length (take i (take count regs) @ drop (Suc i) (take count regs))"
    using assms by simp
  fix k
  assume "k < length (take (count - 1) (shift_down regs i count))"
  then have k: "k < count - 1" "k < length regs" using assms by simp_all
  then show "take (count - 1) (shift_down regs i count) ! k =
      (take i (take count regs) @ drop (Suc i) (take count regs)) ! k"
    using assms shift_down_nth [OF assms(2) k(2), of i] by (auto simp: nth_append)
qed

lemma remove_fd_index:
  "first_index (\<lambda>r. r_fd r = fd) t = Some i \<Longrightarrow> remove_fd fd t = take i t @ drop (Suc i) t"
proof (induction t arbitrary: i)
  case (Cons r t)
  then show ?case by (cases i) (auto split: if_splits)
qed simp

lemma remove_fd_none: "fd \<notin> r_fd ` set t \<Longrightarrow> remove_fd fd t = t"
  by (induction t) auto

lemma set_remove_fd_subset: "set (remove_fd fd t) \<subseteq> set t"
  by (induction t) auto

lemma remove_fd_append:
  "fd \<notin> r_fd ` set t \<Longrightarrow> remove_fd fd (t @ [r]) = (if r_fd r = fd then t else t @ [r])"
  by (induction t) auto

lemma length_reg_table: "reactor_inv s \<Longrightarrow> length (reg_table s) = rc_registration_count (g_reactor s)"
  by (simp add: reactor_inv_def reg_table_def)

lemma register_ok:
  assumes inv: "reactor_inv s" and "rc_initialized (g_reactor s)" "reg_ok reg"
    and "length (reg_table s) < rc_max_handlers (g_reactor s)"
  shows "\<exists>s'. reactor_register (Some 0) (Some reg) s = (TFTP_OK, s') \<and>
    reg_table s' = reg_table s @ [reg] \<and> reactor_inv s' \<and>
    rc_max_handlers (g_reactor s') = rc_max_handlers (g_reactor s) \<and>
    rc_initialized (g_reactor s') \<and> rc_running (g_reactor s') = rc_running (g_reactor s) \<and>
    g_reactor_in_use s' = g_reactor_in_use s"
proof -
  let ?r = "g_reactor s"
  let ?s = "s\<lparr>g_reactor := ?r\<lparr>rc_registrations := (rc_registrations ?r)[rc_registration_count ?r := reg],
      rc_registration_count := rc_registration_count ?r + 1\<rparr>\<rparr>"
  have n: "rc_registration_count ?r < rc_max_handlers ?r"
    using assms(4) length_reg_table [OF inv] by simp
  then have e: "reactor_register (Some 0) (Some reg) s = (TFTP_OK, ?s)"
    using assms(2,3) by (auto simp: reactor_register_def Let_def reg_ok_def)
  have l: "rc_registration_count ?r < length (rc_registrations ?r)"
    using inv n by (simp add: reactor_inv_def)
  then have t: "reg_table ?s = reg_table s @ [reg]"
    by (simp add: reg_table_def take_Suc_conv_app_nth)
  have "reactor_inv ?s"
    using inv n assms(2,3) unfolding reactor_inv_def t by simp
  with e t assms(2) show ?thesis by simp
qed

lemma unregister_ok:
  assumes inv: "reactor_inv s" and "rc_initialized (g_reactor s)" "fd \<in> r_fd ` set (reg_table s)"
  shows "\<exists>s'. reactor_unregister (Some 0) fd s = (TFTP_OK, s') \<and>
    reg_table s' = remove_fd fd (reg_table s) \<and> reactor_inv s' \<and>
    rc_max_handlers (g_reactor s') = rc_max_handlers (g_reactor s) \<and>
    rc_initialized (g_reactor s') \<and> rc_running (g_reactor s') = rc_running (g_reactor s) \<and>
    g_reactor_in_use s' = g_reactor_in_use s"
proof -
  let ?r = "g_reactor s"
  have "first_index (\<lambda>reg. r_fd reg = fd) (reg_table s) \<noteq> None"
    using assms(3) by (auto simp: first_index_None_iff)
  then obtain i where i: "first_index (\<lambda>reg. r_fd reg = fd) (reg_table s) = Some i" by blast
  let ?s = "s\<lparr>g_reactor := ?r\<lparr>rc_registrations :=
         shift_down (rc_registrations ?r) i (rc_registration_count ?r),
       rc_registration_count := rc_registration_count ?r - 1\<rparr>\<rparr>"
  have e: "reactor_unregister (Some 0) fd s = (TFTP_OK, ?s)"
    using assms(2) i by (simp add: reactor_unregister_def Let_def reg_table_def)
  have c: "i < rc_registration_count ?r" "rc_registration_count ?r \<le> length (rc_registrations ?r)"
    using first_index_lt [OF i] length_reg_table [OF inv] inv by (simp_all add: reactor_inv_def)
  have t: "reg_table ?s = remove_fd fd (reg_table s)"
    using shift_down_table [OF c] remove_fd_index [OF i] by (simp add: reg_table_def)
  have "reactor_inv ?s"
    using inv set_remove_fd_subset [of fd "reg_table s"] assms(2) unfolding reactor_inv_def t by auto
  with e t assms(2) show ?thesis by simp
qed

lemma register_fail:
  assumes "reactor_inv s"
    "\<not> (rc_initialized (g_reactor s) \<and> reg_ok reg \<and>
        length (reg_table s) < rc_max_handlers (g_reactor s))"
  shows "reactor_register (Some 0) (Some reg) s =
    (if \<not> rc_initialized (g_reactor s) then TFTP_ERR_NOT_INITIALIZED
     else if \<not> reg_ok reg then TFTP_ERR_INVALID_ARGUMENT else TFTP_ERR_NO_RESOURCE, s)"
  using assms length_reg_table [OF assms(1)] by (auto simp: reactor_register_def reg_ok_def Let_def)

lemma unregister_fail:
  assumes "\<not> (rc_initialized (g_reactor s) \<and> fd \<in> r_fd ` set (reg_table s))"
  shows "reactor_unregister (Some 0) fd s =
    (if \<not> rc_initialized (g_reactor s) then TFTP_ERR_NOT_INITIALIZED
     else TFTP_ERR_INVALID_ARGUMENT, s)"
proof -
  have "first_index (\<lambda>reg. r_fd reg = fd) (reg_table s) = None" if "fd \<notin> r_fd ` set (reg_table s)"
    using that by (auto simp: first_index_None_iff)
  then show ?thesis using assms by (auto simp: reactor_unregister_def Let_def reg_table_def)
qed

lemma reactor_init_ok:
  assumes "length (rc_registrations (g_reactor s)) = REACTOR_MAX_HANDLERS"
  shows "\<exists>s'. reactor_init (Some 0) c s = (TFTP_OK, s') \<and> reactor_inv s' \<and> reg_table s' = [] \<and>
    rc_initialized (g_reactor s') \<and> \<not> rc_running (g_reactor s') \<and>
    g_reactor_in_use s' = g_reactor_in_use s \<and>
    rc_max_handlers (g_reactor s') =
      (case c of None \<Rightarrow> 16 | Some c \<Rightarrow>
         if rcfg_max_handlers c = 0 then 16 else min 16 (unat (rcfg_max_handlers c)))"
  using assms
  by (auto simp: reactor_init_def Let_def reactor_inv_def reg_table_def REACTOR_MAX_HANDLERS_def
      split: option.split)

section \<open>Dispatch\<close>

text \<open>
  The calls that one round owes to the table \<open>t\<close> when \<open>poll\<close> filled \<open>pfds\<close>: one per entry with
  events, in the order of the table.
\<close>

definition due_calls :: "'h reactor_registration list \<Rightarrow> pollfd list \<Rightarrow> ('h reactor_registration \<times> u32) list" where
  "due_calls t pfds =
     filter (\<lambda>c. snd c \<noteq> 0) (map (\<lambda>(r, p). (r, poll_to_reactor_events (pf_revents p))) (zip t pfds))"

definition call_due :: "('s, 'h) host \<Rightarrow> 'h reactor_registration \<times> u32 \<Rightarrow> 's \<Rightarrow> 's" where
  "call_due H c s =
     (case r_handler (fst c) of
        None \<Rightarrow> s
      | Some h \<Rightarrow> h_call H h (r_fd (fst c)) (snd c) (r_context (fst c)) s)"

lemma poll_to_reactor_events_0 [simp]: "poll_to_reactor_events 0 = 0"
  by (simp add: poll_to_reactor_events_def)

lemma due_calls_drop:
  assumes "i < length t" "i < length pfds"
  shows "due_calls (drop i t) (drop i pfds) =
    (let e = poll_to_reactor_events (pf_revents (pfds ! i)) in
     (if e = 0 then [] else [(t ! i, e)]) @ due_calls (drop (Suc i) t) (drop (Suc i) pfds))"
  using assms by (simp add: due_calls_def Cons_nth_drop_Suc [symmetric])


lemma reg_table_cong: "g_reactor s = g_reactor s' \<Longrightarrow> reg_table s = reg_table s'"
  by (simp add: reg_table_def)

lemma reg_table_nth:
  "i < rc_registration_count (g_reactor s) \<Longrightarrow> rc_registrations (g_reactor s) ! i = reg_table s ! i"
  by (simp add: reg_table_def)

lemma dispatch_fold:
  assumes quiet: "\<And>h fd ev c s. h_reactor H (h_call H h fd ev c s) = h_reactor H s"
    and inv: "reactor_inv (h_reactor H s)"
    and len: "length (reg_table (h_reactor H s)) = length pfds"
  shows "reactor_dispatch H pfds i s =
    fold (call_due H) (due_calls (drop i (reg_table (h_reactor H s))) (drop i pfds)) s"
  using inv len
proof (induction "length pfds - i" arbitrary: i s)
  case 0
  then have "\<not> i < length pfds" by simp
  then show ?case by (subst reactor_dispatch.simps) (simp add: due_calls_def)
next
  case (Suc d)
  let ?t = "reg_table (h_reactor H s)"
  have i: "i < length pfds" "i < length ?t" using Suc.hyps(2) Suc.prems(2) by simp_all
  have n: "rc_registration_count (g_reactor (h_reactor H s)) = length ?t"
    using length_reg_table [OF Suc.prems(1)] by simp
  let ?e = "poll_to_reactor_events (pf_revents (pfds ! i))"
  let ?s = "if ?e = 0 then s else call_due H (?t ! i, ?e) s"
  have same: "h_reactor H ?s = h_reactor H s"
    by (auto simp: call_due_def quiet split: option.split)
  have step: "reactor_dispatch H pfds i s = reactor_dispatch H pfds (Suc i) ?s"
    using i n by (subst reactor_dispatch.simps)
      (auto simp: Let_def call_due_def reg_table_nth split: option.split)
  have "d = length pfds - Suc i" using Suc.hyps(2) by simp
  from Suc.hyps(1) [OF this, of ?s] Suc.prems show ?case
    by (simp add: step same due_calls_drop [OF i(2,1)] Let_def)
qed

text \<open>The content of \<open>poll_fds\<close> when \<open>poll\<close> reported the events \<open>evs\<close> for the table \<open>t\<close>.\<close>

definition polled :: "'h reactor_registration list \<Rightarrow> u16 list \<Rightarrow> pollfd list" where
  "polled t evs = map2 (poll_revents evs) [0..<length t] (map fill_pollfd t)"

lemma length_polled [simp]: "length (polled t evs) = length t"
  by (simp add: polled_def)

lemma fill_pollfds_table:
  "reactor_inv s \<Longrightarrow> fill_pollfds (g_reactor s) stack =
     map fill_pollfd (reg_table s) @ drop (length (reg_table s)) stack"
  using length_reg_table [of s] by (simp add: fill_pollfds_def Let_def reg_table_def [symmetric])

lemma sys_poll_table:
  assumes "reactor_inv s" "polls k = Poll_events evs # ps"
  shows "sys_poll (fill_pollfds (g_reactor s) stack) (rc_registration_count (g_reactor s)) k =
    ((int (length (filter (\<lambda>p. pf_revents p \<noteq> 0) (polled (reg_table s) evs))),
      polled (reg_table s) evs @ drop (length (reg_table s)) stack), k\<lparr>polls := ps\<rparr>)"
  using assms length_reg_table [OF assms(1)]
  by (simp add: sys_poll_def fill_pollfds_table Let_def polled_def)

lemma dispatch_append:
  assumes quiet: "\<And>h fd ev c s. h_reactor H (h_call H h fd ev c s) = h_reactor H s"
    and inv: "reactor_inv (h_reactor H s)"
    and len: "length (reg_table (h_reactor H s)) = length pfds"
  shows "reactor_dispatch H (pfds @ rest) i s = reactor_dispatch H pfds i s"
  using inv len
proof (induction "length pfds - i" arbitrary: i s)
  case 0
  then have "\<not> i < rc_registration_count (g_reactor (h_reactor H s))"
    using length_reg_table [of "h_reactor H s"] by simp
  then show ?case by (subst (1 2) reactor_dispatch.simps) (simp add: Let_def)
next
  case (Suc d)
  have i: "i < length pfds" using Suc.hyps(2) by simp
  have d: "d = length pfds - Suc i" using Suc.hyps(2) by simp
  have "reactor_dispatch H (pfds @ rest) (Suc i) s' = reactor_dispatch H pfds (Suc i) s'"
    if "h_reactor H s' = h_reactor H s" for s'
    using Suc.hyps(1) [OF d, of s'] that Suc.prems by simp
  then show ?case
    using i by (subst (1 2) reactor_dispatch.simps)
      (auto simp: Let_def nth_append quiet split: option.split)
qed

section \<open>Properties\<close>

text \<open>
  C28: The registration array implements an ordered list: registering appends, unregistering
  removes the first entry of the descriptor and keeps the order of the rest, every refusal
  leaves the reactor as it was with the status of its cause, and the bounds (at most
  \<open>max_handlers\<close>, at most 16 entries, all with a handler and a descriptor) are kept.
\<close>

theorem registration_table_refines_list:
  assumes "reactor_inv s"
    and "reactor_register (Some 0) (Some reg) s = (st, s')"
    and "reactor_unregister (Some 0) fd s = (su, u')"
  shows "reactor_inv s' \<and> reactor_inv u' \<and>
    (if \<not> rc_initialized (g_reactor s) then st = TFTP_ERR_NOT_INITIALIZED \<and> s' = s
     else if \<not> reg_ok reg then st = TFTP_ERR_INVALID_ARGUMENT \<and> s' = s
     else if rc_max_handlers (g_reactor s) \<le> length (reg_table s)
     then st = TFTP_ERR_NO_RESOURCE \<and> s' = s
     else st = TFTP_OK \<and> reg_table s' = reg_table s @ [reg]) \<and>
    (if \<not> rc_initialized (g_reactor s) then su = TFTP_ERR_NOT_INITIALIZED \<and> u' = s
     else if fd \<notin> r_fd ` set (reg_table s) then su = TFTP_ERR_INVALID_ARGUMENT \<and> u' = s
     else su = TFTP_OK \<and> reg_table u' = remove_fd fd (reg_table s))"
proof -
  have "reactor_inv s' \<and> (if \<not> rc_initialized (g_reactor s) then st = TFTP_ERR_NOT_INITIALIZED \<and> s' = s
     else if \<not> reg_ok reg then st = TFTP_ERR_INVALID_ARGUMENT \<and> s' = s
     else if rc_max_handlers (g_reactor s) \<le> length (reg_table s)
     then st = TFTP_ERR_NO_RESOURCE \<and> s' = s
     else st = TFTP_OK \<and> reg_table s' = reg_table s @ [reg])"
    using assms(1,2) register_ok [OF assms(1), of reg] register_fail [OF assms(1), of reg]
    by (cases "rc_initialized (g_reactor s) \<and> reg_ok reg \<and>
        length (reg_table s) < rc_max_handlers (g_reactor s)") auto
  moreover have "reactor_inv u' \<and> (if \<not> rc_initialized (g_reactor s) then su = TFTP_ERR_NOT_INITIALIZED \<and> u' = s
     else if fd \<notin> r_fd ` set (reg_table s) then su = TFTP_ERR_INVALID_ARGUMENT \<and> u' = s
     else su = TFTP_OK \<and> reg_table u' = remove_fd fd (reg_table s))"
    using assms(1,3) unregister_ok [OF assms(1), of fd] unregister_fail [of s fd]
    by (cases "rc_initialized (g_reactor s) \<and> fd \<in> r_fd ` set (reg_table s)") auto
  ultimately show ?thesis by blast
qed

lemma and_bit: "(e AND 1 \<noteq> 0 \<longleftrightarrow> bit e 0) \<and> (e AND 2 \<noteq> 0 \<longleftrightarrow> bit e 1) \<and> (e AND 4 \<noteq> 0 \<longleftrightarrow> bit e 2)"
  for e :: u32
  using bit_iff_and_push_bit_not_eq_0 [of e 0] bit_iff_and_push_bit_not_eq_0 [of e 1]
    bit_iff_and_push_bit_not_eq_0 [of e 2]
  by simp

lemma and_single: "e AND push_bit n 1 = (if bit e n then push_bit n 1 else 0)" for e :: u32
  by (rule bit_word_eqI) (auto simp: bit_simps)

lemma and_seven:
  "e AND 7 = (if e AND 1 \<noteq> 0 then 1 else 0) OR (if e AND 2 \<noteq> 0 then 2 else 0) OR
     (if e AND 4 \<noteq> 0 then 4 else 0)" for e :: u32
proof -
  have "e AND 7 = e AND (1 OR 2 OR 4)" by simp
  also have "\<dots> = (e AND 1) OR (e AND 2) OR (e AND 4)" by (simp only: bit.conj_disj_distrib)
  finally show ?thesis
    using and_single [of e 0] and_single [of e 1] and_single [of e 2] by (auto simp: and_bit)
qed

text \<open>
  The two event masks agree: an interest in reading, writing or errors that \<open>poll\<close> reports
  back unchanged arrives at the handler as that same set, and an error condition is delivered
  whether it was asked for or not.
\<close>

theorem event_masks_agree:
  "poll_to_reactor_events (reactor_to_poll_events e) =
     e AND (REACTOR_EVENT_READ OR REACTOR_EVENT_WRITE OR REACTOR_EVENT_ERROR) \<and>
   (p AND (POLLERR OR POLLHUP OR POLLNVAL) \<noteq> 0 \<longleftrightarrow>
      poll_to_reactor_events p AND REACTOR_EVENT_ERROR \<noteq> 0)"
proof
  have "e AND (REACTOR_EVENT_READ OR REACTOR_EVENT_WRITE OR REACTOR_EVENT_ERROR) =
      (if e AND 1 \<noteq> 0 then 1 else 0) OR (if e AND 2 \<noteq> 0 then 2 else 0) OR (if e AND 4 \<noteq> 0 then 4 else 0)"
    using and_seven [of e] by (simp add: reactor_events)
  then show "poll_to_reactor_events (reactor_to_poll_events e) =
      e AND (REACTOR_EVENT_READ OR REACTOR_EVENT_WRITE OR REACTOR_EVENT_ERROR)"
    by (auto simp: poll_to_reactor_events_def reactor_to_poll_events_def Let_def reactor_events poll_bits)
  show "p AND (POLLERR OR POLLHUP OR POLLNVAL) \<noteq> 0 \<longleftrightarrow>
      poll_to_reactor_events p AND REACTOR_EVENT_ERROR \<noteq> 0"
    by (auto simp: poll_to_reactor_events_def Let_def reactor_events)
qed


text \<open>
  C27: One round with handlers that leave the registrations alone calls every handler whose
  descriptor reported something exactly once, in the order of registration, with that
  descriptor, its events and its context, and nothing else; whatever the array \<open>poll_fds\<close> held
  before has no influence.  Without events the round is \<open>TFTP_ERR_TIMEOUT\<close>.
\<close>

theorem round_calls_ready_handlers_once:
  assumes quiet: "\<And>h fd ev c s. h_reactor H (h_call H h fd ev c s) = h_reactor H s"
    and set_os: "h_reactor H (h_set_os H ((h_os H s)\<lparr>polls := ps\<rparr>) s) = h_reactor H s"
    and inv: "reactor_inv (h_reactor H s)" and init: "rc_initialized (g_reactor (h_reactor H s))"
    and poll: "polls (h_os H s) = Poll_events evs # ps"
  shows "reactor_run_once H stack (Some 0) timeout s =
    (let s' = h_set_os H ((h_os H s)\<lparr>polls := ps\<rparr>) s;
         pfds = polled (reg_table (h_reactor H s)) evs in
     if \<forall>p\<in>set pfds. pf_revents p = 0 then (TFTP_ERR_TIMEOUT, s')
     else (TFTP_OK, fold (call_due H) (due_calls (reg_table (h_reactor H s)) pfds) s'))"
proof -
  let ?t = "reg_table (h_reactor H s)"
  let ?p = "polled ?t evs"
  let ?s = "h_set_os H ((h_os H s)\<lparr>polls := ps\<rparr>) s"
  have "reactor_inv (h_reactor H ?s)" "length (reg_table (h_reactor H ?s)) = length ?p"
    using inv set_os by simp_all
  from dispatch_append [OF quiet this] dispatch_fold [OF quiet this, of 0]
  have d: "reactor_dispatch H (?p @ r) 0 ?s = fold (call_due H) (due_calls ?t ?p) ?s" for r
    using set_os by simp
  have z: "length (filter (\<lambda>p. pf_revents p \<noteq> 0) ?p) = 0 \<longleftrightarrow> (\<forall>p\<in>set ?p. pf_revents p = 0)"
    by (simp add: filter_empty_conv)
  show ?thesis
    using init sys_poll_table [OF inv poll, of stack] z
    by (simp add: reactor_run_once_def Let_def d)
qed

text \<open>An example: two registrations and a host that records the calls.\<close>

definition log_host :: "(nat reactor_state \<times> os \<times> (nat \<times> int \<times> u32) list, nat) host" where
  "log_host =
     \<lparr>h_reactor = fst, h_set_reactor = (\<lambda>r (_, k, l). (r, k, l)), h_os = (\<lambda>s. fst (snd s)),
      h_set_os = (\<lambda>k (r, _, l). (r, k, l)), h_call = (\<lambda>h fd ev c (r, k, l). (r, k, l @ [(h, fd, ev)]))\<rparr>"

definition reactor_example :: "nat reactor_state" where
  "reactor_example =
     \<lparr>g_reactor = \<lparr>rc_initialized = True, rc_running = False,
        rc_registrations = \<lparr>r_fd = 3, r_events = 5, r_handler = Some 7, r_context = None\<rparr> #
          \<lparr>r_fd = 4, r_events = 5, r_handler = Some 8, r_context = None\<rparr> #
          replicate 14 \<lparr>r_fd = 0, r_events = 0, r_handler = None, r_context = None\<rparr>,
        rc_registration_count = 2, rc_max_handlers = 16\<rparr>,
      g_reactor_in_use = True\<rparr>"

lemma reactor_example_table:
  "reg_table reactor_example =
     [\<lparr>r_fd = 3, r_events = 5, r_handler = Some 7, r_context = None\<rparr>,
      \<lparr>r_fd = 4, r_events = 5, r_handler = Some 8, r_context = None\<rparr>]"
  by (simp add: reg_table_def reactor_example_def numeral_2_eq_2)

lemma reactor_example_inv: "reactor_inv reactor_example"
  unfolding reactor_inv_def reactor_example_table
  by (simp add: reactor_example_def REACTOR_MAX_HANDLERS_def reg_ok_def)

lemma polled_example:
  "polled (reg_table reactor_example) [0, 9] =
     [\<lparr>pf_fd = 3, pf_events = 9, pf_revents = 0\<rparr>, \<lparr>pf_fd = 4, pf_events = 9, pf_revents = 9\<rparr>]"
  by (simp add: polled_def reactor_example_table fill_pollfd_def poll_revents_def
      reactor_to_poll_events_def reactor_events poll_bits Let_def upt_conv_Cons)

theorem round_calls_ready_handlers_once_witness:
  "\<forall>stack. snd (snd (snd (reactor_run_once log_host stack (Some 0) 100
      (reactor_example, (os_start Map.empty)\<lparr>polls := [Poll_events [0, 9]]\<rparr>, [])))) = [(8, 4, 5)]"
proof
  fix stack
  let ?s = "(reactor_example, (os_start Map.empty)\<lparr>polls := [Poll_events [0, 9]]\<rparr>, [] :: (nat \<times> int \<times> u32) list)"
  have q: "h_reactor log_host (h_call log_host h fd ev c s) = h_reactor log_host s" for h fd ev c s
    by (simp add: log_host_def case_prod_beta)
  have "reactor_inv (h_reactor log_host ?s)" "rc_initialized (g_reactor (h_reactor log_host ?s))"
    "polls (h_os log_host ?s) = Poll_events [0, 9] # []"
    "h_reactor log_host (h_set_os log_host ((h_os log_host ?s)\<lparr>polls := []\<rparr>) ?s) = h_reactor log_host ?s"
    using reactor_example_inv by (simp_all add: log_host_def) (simp add: reactor_example_def)
  from round_calls_ready_handlers_once [OF q this(4,1,2,3), of stack 100]
  show "snd (snd (snd (reactor_run_once log_host stack (Some 0) 100 ?s))) = [(8, 4, 5)]"
    by (simp add: log_host_def polled_example [unfolded reactor_example_table] reactor_example_table due_calls_def call_due_def Let_def
        poll_to_reactor_events_def reactor_events poll_bits)
qed

theorem registration_table_refines_list_witness:
  "\<exists>s' u'. reactor_unregister (Some 0) 3 reactor_example = (TFTP_OK, u') \<and>
     map r_fd (reg_table u') = [4] \<and>
     reactor_register (Some 0) (Some (hd (reg_table reactor_example))) reactor_example = (TFTP_OK, s') \<and>
     map r_fd (reg_table s') = [3, 4, 3]"
proof -
  obtain st s' where r: "reactor_register (Some 0) (Some (hd (reg_table reactor_example)))
      reactor_example = (st, s')" by (meson surj_pair)
  obtain su u' where u: "reactor_unregister (Some 0) 3 reactor_example = (su, u')" by (meson surj_pair)
  have i: "rc_initialized (g_reactor reactor_example)" "rc_max_handlers (g_reactor reactor_example) = 16"
    by (simp_all add: reactor_example_def)
  from registration_table_refines_list [OF reactor_example_inv r u]
  have "st = TFTP_OK" "su = TFTP_OK" "map r_fd (reg_table s') = [3, 4, 3]" "map r_fd (reg_table u') = [4]"
    by (simp_all add: i reactor_example_table reg_ok_def)
  with r u show ?thesis by auto
qed

section \<open>The interface to the host\<close>

text \<open>
  What the reactor relies on when it runs inside a program: \<open>inv\<close> is an invariant of the
  program state that holds in particular of the reactor, handlers that are registered keep it
  and do not touch the \<open>running\<close> flag, and so do advances of the poll script.
\<close>

locale reactor_host =
  fixes H :: "('s, 'h) host" and inv :: "'s \<Rightarrow> bool"
  assumes inv_reactor: "inv s \<Longrightarrow> reactor_inv (h_reactor H s)"
    and call_inv: "inv s \<Longrightarrow> reg \<in> set (reg_table (h_reactor H s)) \<Longrightarrow> r_handler reg = Some h \<Longrightarrow>
      inv (h_call H h (r_fd reg) ev (r_context reg) s)"
    and call_running: "inv s \<Longrightarrow> reg \<in> set (reg_table (h_reactor H s)) \<Longrightarrow> r_handler reg = Some h \<Longrightarrow>
      rc_running (g_reactor (h_reactor H (h_call H h (r_fd reg) ev (r_context reg) s))) =
      rc_running (g_reactor (h_reactor H s))"
    and call_initialized: "inv s \<Longrightarrow> reg \<in> set (reg_table (h_reactor H s)) \<Longrightarrow>
      r_handler reg = Some h \<Longrightarrow>
      rc_initialized (g_reactor (h_reactor H (h_call H h (r_fd reg) ev (r_context reg) s))) =
      rc_initialized (g_reactor (h_reactor H s))"
    and call_polls: "inv s \<Longrightarrow> reg \<in> set (reg_table (h_reactor H s)) \<Longrightarrow> r_handler reg = Some h \<Longrightarrow>
      polls (h_os H (h_call H h (r_fd reg) ev (r_context reg) s)) = polls (h_os H s)"
    and os_inv: "inv s \<Longrightarrow> inv (h_set_os H ((h_os H s)\<lparr>polls := ps\<rparr>) s)"
    and os_reactor: "h_reactor H (h_set_os H k s) = h_reactor H s"
    and os_set: "h_os H (h_set_os H k s) = k"
    and running_inv: "inv s \<Longrightarrow> inv (set_running H b s)"
    and running_set: "h_reactor H (set_running H b s) =
      (h_reactor H s)\<lparr>g_reactor := (g_reactor (h_reactor H s))\<lparr>rc_running := b\<rparr>\<rparr>"
    and running_os: "h_os H (set_running H b s) = h_os H s"
begin

text \<open>What the main loop relies on: the invariant, the two flags and the poll results to come.\<close>

definition kept :: "'s \<Rightarrow> 's \<Rightarrow> bool" where
  "kept s s' \<longleftrightarrow> inv s' \<and>
     rc_running (g_reactor (h_reactor H s')) = rc_running (g_reactor (h_reactor H s)) \<and>
     rc_initialized (g_reactor (h_reactor H s')) = rc_initialized (g_reactor (h_reactor H s)) \<and>
     polls (h_os H s') = polls (h_os H s)"

lemma kept_refl: "inv s \<Longrightarrow> kept s s"
  by (simp add: kept_def)

lemma kept_trans: "kept a b \<Longrightarrow> kept b c \<Longrightarrow> kept a c"
  by (simp add: kept_def)

lemma dispatch_kept: "inv s \<Longrightarrow> kept s (reactor_dispatch H pfds i s)"
proof (induction "length pfds - i" arbitrary: i s)
  case 0
  then have "\<not> i < length pfds" by simp
  with 0 show ?case by (subst reactor_dispatch.simps) (simp add: kept_refl)
next
  case (Suc d)
  let ?r = "g_reactor (h_reactor H s)"
  show ?case
  proof (cases "i < rc_registration_count ?r")
    case False
    with Suc.prems show ?thesis by (subst reactor_dispatch.simps) (simp add: Let_def kept_refl)
  next
    case True
    let ?e = "poll_to_reactor_events (pf_revents (pfds ! i))"
    let ?reg = "rc_registrations ?r ! i"
    let ?s = "if pf_revents (pfds ! i) \<noteq> 0 \<and> ?e \<noteq> 0 then
        (case r_handler ?reg of None \<Rightarrow> s
         | Some h \<Rightarrow> h_call H h (r_fd ?reg) ?e (r_context ?reg) s) else s"
    have i: "i < length pfds" "d = length pfds - Suc i" using Suc.hyps(2) by simp_all
    have "?reg \<in> set (reg_table (h_reactor H s))"
      using True length_reg_table [OF inv_reactor [OF Suc.prems]] by (simp add: reg_table_nth)
    then have k: "kept s ?s"
      using call_inv [OF Suc.prems] call_running [OF Suc.prems] call_initialized [OF Suc.prems]
        call_polls [OF Suc.prems] Suc.prems
      by (auto simp: kept_def split: option.split)
    then have "inv ?s" by (simp add: kept_def)
    moreover have "reactor_dispatch H pfds i s = reactor_dispatch H pfds (Suc i) ?s"
      using True i by (subst reactor_dispatch.simps) (simp add: Let_def)
    ultimately show ?thesis using Suc.hyps(1) [OF i(2), of ?s] kept_trans [OF k] by simp
  qed
qed

lemma sys_poll_result:
  assumes "sys_poll pfds n k = ((res, pfds'), k')"
  shows "k' = k\<lparr>polls := tl (polls k)\<rparr> \<and> (res < 0 \<longleftrightarrow> (\<exists>r. polls k = Poll_fail # r))"
  using assms by (cases k) (auto simp: sys_poll_def Let_def split: list.splits poll_answer.splits)

text \<open>One round takes one poll result, and its status is an error exactly when \<open>poll\<close> failed.\<close>

lemma run_once_result:
  assumes inv: "inv s" and init: "rc_initialized (g_reactor (h_reactor H s))"
    and e: "reactor_run_once H stack (Some p) t s = (st, s')"
  shows "inv s' \<and> rc_running (g_reactor (h_reactor H s')) = rc_running (g_reactor (h_reactor H s)) \<and>
    rc_initialized (g_reactor (h_reactor H s')) \<and> polls (h_os H s') = tl (polls (h_os H s)) \<and>
    (if \<exists>r. polls (h_os H s) = Poll_fail # r then st = TFTP_ERR_IO else st \<in> {TFTP_OK, TFTP_ERR_TIMEOUT})"
proof -
  let ?r = "g_reactor (h_reactor H s)"
  obtain res pfds k where q: "sys_poll (fill_pollfds ?r stack) (rc_registration_count ?r) (h_os H s) =
      ((res, pfds), k)" by (metis surj_pair)
  note sp = sys_poll_result [OF q]
  then have k: "k = (h_os H s)\<lparr>polls := tl (polls (h_os H s))\<rparr>" by blast
  let ?s = "h_set_os H k s"
  have i: "inv ?s" unfolding k by (rule os_inv [OF inv])
  have "st = (if res < 0 then TFTP_ERR_IO else if res = 0 then TFTP_ERR_TIMEOUT else TFTP_OK)"
    and "s' = (if res \<le> 0 then ?s else reactor_dispatch H pfds 0 ?s)"
    using e q init by (auto simp: reactor_run_once_def Let_def split: if_splits)
  moreover have "kept ?s (if res \<le> 0 then ?s else reactor_dispatch H pfds 0 ?s)"
    using dispatch_kept [OF i] kept_refl [OF i] by simp
  ultimately have "kept ?s s'" "if res < 0 then st = TFTP_ERR_IO else st \<in> {TFTP_OK, TFTP_ERR_TIMEOUT}"
    by simp_all
  moreover have "h_reactor H ?s = h_reactor H s" "polls (h_os H ?s) = tl (polls (h_os H s))"
    using k by (simp_all add: os_reactor os_set)
  ultimately show ?thesis using init sp by (simp add: kept_def)
qed

lemma run_once_inv:
  assumes "inv s" "reactor_run_once H stack p t s = (st, s')"
  shows "inv s' \<and> rc_running (g_reactor (h_reactor H s')) = rc_running (g_reactor (h_reactor H s)) \<and>
    rc_initialized (g_reactor (h_reactor H s')) = rc_initialized (g_reactor (h_reactor H s))"
proof (cases "p \<noteq> None \<and> rc_initialized (g_reactor (h_reactor H s))")
  case False
  with assms show ?thesis by (auto simp: reactor_run_once_def split: option.splits)
next
  case True
  with run_once_result [OF assms(1)] assms(2) show ?thesis by fastforce
qed

text \<open>
  The main loop can only end with an error of \<open>poll\<close>: nothing that runs inside it clears the
  flag \<open>running\<close>.
\<close>

lemma run_loop_result:
  assumes "reactor_run_loop H stacks n (Some p) s = Some r" "inv s"
    "rc_running (g_reactor (h_reactor H s))" "rc_initialized (g_reactor (h_reactor H s))"
  shows "inv (snd r) \<and> fst r = TFTP_ERR_IO \<and> \<not> rc_running (g_reactor (h_reactor H (snd r))) \<and>
    rc_initialized (g_reactor (h_reactor H (snd r))) \<and> Poll_fail \<in> set (polls (h_os H s))"
proof -
  let ?P = "\<lambda>H' (stacks :: nat \<Rightarrow> pollfd list) (n :: nat) (q :: ptr) s r. H' = H \<longrightarrow> q = Some p \<longrightarrow> inv s \<longrightarrow>
      rc_running (g_reactor (h_reactor H s)) \<longrightarrow> rc_initialized (g_reactor (h_reactor H s)) \<longrightarrow>
      inv (snd r) \<and> fst r = TFTP_ERR_IO \<and> \<not> rc_running (g_reactor (h_reactor H (snd r))) \<and>
      rc_initialized (g_reactor (h_reactor H (snd r))) \<and> Poll_fail \<in> set (polls (h_os H s))"
  have "?P H stacks n (Some p) s r"
  proof (rule reactor_run_loop.raw_induct [OF _ assms(1), where P = ?P], intro impI, goal_cases)
    case (1 loop H' stacks n q s r)
    note loop = 1(1)
    obtain st s' where o: "reactor_run_once H (stacks n) (Some p) 100 s = (st, s')" by (meson surj_pair)
    note once = run_once_result [OF 1(5,7) o]
    show ?case
    proof (cases "\<exists>r. polls (h_os H s) = Poll_fail # r")
      case True
      with once have st: "st = TFTP_ERR_IO" by simp
      with 1(2-6) o have "r = (st, set_running H False s')" by auto
      with True st once running_inv [of s' False] show ?thesis by (auto simp: running_set)
    next
      case False
      with once have st: "st = TFTP_OK \<or> st = TFTP_ERR_TIMEOUT" by simp
      with 1(2-6) o have l: "loop H stacks (Suc n) (Some p) s' = Some r" by auto
      have "set (polls (h_os H s')) \<subseteq> set (polls (h_os H s))"
        using once by (cases "polls (h_os H s)") auto
      with loop [OF l] once 1(6) show ?thesis by auto
    qed
  qed
  with assms(2-4) show ?thesis by blast
qed

lemma run_result:
  assumes "reactor_run H stacks (Some p) s = Some r" "inv s"
    "rc_initialized (g_reactor (h_reactor H s))"
  shows "inv (snd r) \<and> fst r = TFTP_ERR_IO \<and> \<not> rc_running (g_reactor (h_reactor H (snd r))) \<and>
    rc_initialized (g_reactor (h_reactor H (snd r))) \<and> Poll_fail \<in> set (polls (h_os H s))"
  using assms run_loop_result [of stacks 0 p "set_running H True s" r] running_inv [of s True]
  by (simp add: reactor_run_def running_set running_os)

end

section \<open>A round with one registered handler\<close>

text \<open>
  The handler is called, and the dispatch goes on with the state that it left; entries of the
  array that report nothing are passed over.
\<close>

lemma run_once_one_ready:
  assumes "rc_initialized (g_reactor (h_reactor H s))" "rc_registration_count (g_reactor (h_reactor H s)) = 1"
    and "rc_registrations (g_reactor (h_reactor H s)) = reg # entries" "r_handler reg = Some h"
    and "polls (h_os H s) = Poll_events [POLLIN] # ps" "reactor_to_poll_events (r_events reg) AND POLLIN = POLLIN"
    and "s0 = h_set_os H ((h_os H s)\<lparr>polls := ps\<rparr>) s" "h_reactor H s0 = h_reactor H s"
    and "s1 = h_call H h (r_fd reg) REACTOR_EVENT_READ (r_context reg) s0"
  shows "reactor_run_once H (first # stack) (Some 0) t s =
    (TFTP_OK, reactor_dispatch H (poll_revents [POLLIN] 0 (fill_pollfd reg) # stack) 1 s1)"
proof -
  let ?p = "poll_revents [POLLIN] 0 (fill_pollfd reg)"
  have "(reactor_to_poll_events (r_events reg) OR POLLERR OR POLLHUP OR POLLNVAL) AND POLLIN =
      (reactor_to_poll_events (r_events reg) AND POLLIN) OR (POLLERR OR POLLHUP OR POLLNVAL) AND POLLIN"
    by (simp add: bit.conj_disj_distrib2 or.assoc)
  then have rev: "pf_revents ?p = POLLIN"
    using assms(6) by (simp add: poll_revents_def fill_pollfd_def and.commute poll_bits)
  have ev: "poll_to_reactor_events POLLIN = REACTOR_EVENT_READ" "POLLIN \<noteq> 0" "REACTOR_EVENT_READ \<noteq> 0"
    by (simp_all add: poll_to_reactor_events_def poll_bits reactor_events)
  have poll: "sys_poll (fill_pollfds (g_reactor (h_reactor H s)) (first # stack)) 1 (h_os H s) =
      ((1, ?p # stack), (h_os H s)\<lparr>polls := ps\<rparr>)"
    using assms(2,3,5) rev ev(2) by (simp add: sys_poll_def fill_pollfds_def Let_def)
  have "reactor_dispatch H (?p # stack) 0 s0 = reactor_dispatch H (?p # stack) 1 s1"
    using assms(2-4,8,9) rev ev by (subst reactor_dispatch.simps) (simp add: Let_def)
  then show ?thesis
    using assms(1,2,7) poll by (simp add: reactor_run_once_def Let_def)
qed

lemma dispatch_quiet:
  assumes "\<forall>j<length pfds. i \<le> j \<longrightarrow> pf_revents (pfds ! j) = 0"
  shows "reactor_dispatch H pfds i s = s"
  using assms
proof (induction "length pfds - i" arbitrary: i)
  case 0
  then show ?case by (subst reactor_dispatch.simps) (simp add: Let_def)
next
  case (Suc m)
  then have "reactor_dispatch H pfds (Suc i) s = s" by simp
  with Suc show ?case by (subst reactor_dispatch.simps) (simp add: Let_def)
qed

end
