(* ===== verification/Tftp_Transfer.thy ===== *)
theory Tftp_Transfer
  imports Tftp_Packet Udp_Transport Tftp_File Reactor
begin

text \<open>
  \<open>src/tftp/transfer\<close>: one TFTP transaction, its pool, its start, its state machine and its
  clean-up.  A transfer calls the transport, file and reactor modules, so the state here is
  \<open>tsys\<close>: the static variables of all of them with the operating system and the transfer
  pool.  \<open>udp_call\<close>, \<open>file_call\<close> and \<open>reactor_call\<close> run an operation of such a module on its
  part of the state.
\<close>

section \<open>State\<close>

datatype tftp_transfer_state_t =
    TFTP_TRANSFER_IDLE
  | TFTP_TRANSFER_RRQ
  | TFTP_TRANSFER_WRQ
  | TFTP_TRANSFER_WAIT_ACK
  | TFTP_TRANSFER_WAIT_DATA
  | TFTP_TRANSFER_COMPLETE
  | TFTP_TRANSFER_ERROR
  | TFTP_TRANSFER_CLEANUP

text \<open>\<open>TFTP_TRANSFER_EVENT_OTHER\<close>: the values of the enum's type that are no enumerator.\<close>

datatype tftp_transfer_event_t =
    TFTP_TRANSFER_EVENT_RX_PACKET
  | TFTP_TRANSFER_EVENT_TIMEOUT
  | TFTP_TRANSFER_EVENT_START
  | TFTP_TRANSFER_EVENT_ERROR
  | TFTP_TRANSFER_EVENT_OTHER

record tftp_transfer_config_t =
  xc_opcode :: tftp_opcode_t
  xc_filename :: "bytes option"
  xc_peer :: udp_endpoint_t
  xc_reactor :: ptr

text \<open>
  \<open>struct tftp_transfer\<close>.  The array \<open>t_filename\<close> has \<open>TFTP_MAX_FILENAME_LENGTH + 1\<close> bytes
  (the constant comes from \<open>tftp_config.h\<close>, which the repository does not hold), the packet
  buffer \<open>TFTP_MAX_PACKET_SIZE\<close>.
\<close>

record tftp_transfer =
  t_in_use :: bool
  t_initialized :: bool
  t_registered :: bool
  t_final_data :: bool
  t_state :: tftp_transfer_state_t
  t_opcode :: tftp_opcode_t
  t_block :: u16
  t_expected_block :: u16
  t_retry_count :: u32
  t_peer :: udp_endpoint_t
  t_filename :: bytes
  t_packet_buffer :: bytes
  t_packet_length :: nat
  t_file :: ptr
  t_timer :: ptr
  t_transport :: ptr
  t_reactor :: ptr

definition tftp_transfer_zero :: "nat \<Rightarrow> tftp_transfer" where
  "tftp_transfer_zero name_size =
     \<lparr>t_in_use = False, t_initialized = False, t_registered = False, t_final_data = False,
      t_state = TFTP_TRANSFER_IDLE, t_opcode = TFTP_OPCODE_ZERO, t_block = 0,
      t_expected_block = 0, t_retry_count = 0, t_peer = sockaddr_zero,
      t_filename = replicate name_size 0, t_packet_buffer = replicate TFTP_MAX_PACKET_SIZE 0,
      t_packet_length = 0, t_file = None, t_timer = None, t_transport = None,
      t_reactor = None\<rparr>"

definition max_filename_length :: "tftp_transfer \<Rightarrow> nat" where
  "max_filename_length t = length (t_filename t) - 1"

text \<open>The functions that are registered as reactor handlers.\<close>

datatype handler = Transfer_udp_handler | Server_udp_handler

record tsys =
  ts_os :: os
  ts_udp :: udp_state
  ts_file :: file_state
  ts_reactor :: "handler reactor_state"
  g_transfer_pool :: "tftp_transfer list"

definition registration_zero :: "handler reactor_registration" where
  "registration_zero = \<lparr>r_fd = 0, r_events = 0, r_handler = None, r_context = None\<rparr>"

definition reactor_state_init :: "handler reactor_state" where
  "reactor_state_init =
     \<lparr>g_reactor =
        \<lparr>rc_initialized = False, rc_running = False,
         rc_registrations = replicate REACTOR_MAX_HANDLERS registration_zero,
         rc_registration_count = 0, rc_max_handlers = 0\<rparr>,
      g_reactor_in_use = False\<rparr>"

text \<open>The constants of \<open>tftp_config.h\<close>, and the static variables at program start.\<close>

record tftp_config =
  TFTP_MAX_TRANSFERS :: nat
  TFTP_MAX_FILENAME_LENGTH :: nat

definition tsys_init :: "tftp_config \<Rightarrow> os \<Rightarrow> tsys" where
  "tsys_init cfg k =
     \<lparr>ts_os = k, ts_udp = udp_state_init, ts_file = file_state_init (TFTP_MAX_TRANSFERS cfg),
      ts_reactor = reactor_state_init,
      g_transfer_pool =
        replicate (TFTP_MAX_TRANSFERS cfg) (tftp_transfer_zero (TFTP_MAX_FILENAME_LENGTH cfg + 1))\<rparr>"

definition udp_call :: "(udp_os \<Rightarrow> 'r \<times> udp_os) \<Rightarrow> tsys \<Rightarrow> 'r \<times> tsys" where
  "udp_call f s =
     (case f (ts_udp s, ts_os s) of (r, (u, k)) \<Rightarrow> (r, s\<lparr>ts_udp := u, ts_os := k\<rparr>))"

definition file_call :: "(file_os \<Rightarrow> 'r \<times> file_os) \<Rightarrow> tsys \<Rightarrow> 'r \<times> tsys" where
  "file_call f s =
     (case f (ts_file s, ts_os s) of (r, (u, k)) \<Rightarrow> (r, s\<lparr>ts_file := u, ts_os := k\<rparr>))"

definition reactor_call ::
  "(handler reactor_state \<Rightarrow> 'r \<times> handler reactor_state) \<Rightarrow> tsys \<Rightarrow> 'r \<times> tsys" where
  "reactor_call f s = (case f (ts_reactor s) of (r, u) \<Rightarrow> (r, s\<lparr>ts_reactor := u\<rparr>))"

definition get_fd :: "ptr \<Rightarrow> tsys \<Rightarrow> int" where
  "get_fd p s = udp_transport_get_fd p (ts_udp s, ts_os s)"

abbreviation tr :: "tsys \<Rightarrow> nat \<Rightarrow> tftp_transfer" where
  "tr s i \<equiv> g_transfer_pool s ! i"

definition upd_tr :: "nat \<Rightarrow> (tftp_transfer \<Rightarrow> tftp_transfer) \<Rightarrow> tsys \<Rightarrow> tsys" where
  "upd_tr i f s = s\<lparr>g_transfer_pool := (g_transfer_pool s)[i := f (g_transfer_pool s ! i)]\<rparr>"

section \<open>Helpers\<close>

text \<open>\<open>memset(self, 0, sizeof(*self)); self->state = TFTP_TRANSFER_IDLE;\<close>\<close>

definition transfer_reset :: "ptr \<Rightarrow> tsys \<Rightarrow> tsys" where
  "transfer_reset self s =
     (case self of
        None \<Rightarrow> s
      | Some i \<Rightarrow>
          upd_tr i (\<lambda>t. (tftp_transfer_zero (length (t_filename t)))\<lparr>t_state := TFTP_TRANSFER_IDLE\<rparr>) s)"

definition transfer_filename_valid :: "bytes option \<Rightarrow> bool" where
  "transfer_filename_valid name =
     (case name of
        None \<Rightarrow> False
      | Some n \<Rightarrow>
          if c_string n = [] then False
          else if c_string n = cstr ''.'' \<or> c_string n = cstr ''..'' then False
          else if of_char (CHR ''/'') \<in> set (c_string n) \<or> of_char (CHR 0x5C) \<in> set (c_string n)
          then False
          else True)"

definition transfer_same_peer :: "udp_endpoint_t \<Rightarrow> udp_endpoint_t \<Rightarrow> bool" where
  "transfer_same_peer a b \<longleftrightarrow>
     sin_family a = sin_family b \<and> s_addr a = s_addr b \<and> sin_port a = sin_port b"

text \<open>
  \<open>payload\<close> is a local array of 512 bytes; what it holds before the read is irrelevant, since
  only the bytes read are copied (it starts as zeros here).
\<close>

definition transfer_send_next_data :: "nat \<Rightarrow> tsys \<Rightarrow> tftp_status_t \<times> tsys" where
  "transfer_send_next_data i s =
     (case file_call (tftp_file_read (t_file (tr s i)) (Some (replicate TFTP_BLOCK_SIZE 0))
                        TFTP_BLOCK_SIZE (Some 0)) s of
        ((status, payload, bytes_read), s) \<Rightarrow>
          if status \<noteq> TFTP_OK then (status, s)
          else
            let s = upd_tr i (\<lambda>t. t\<lparr>t_block := t_block t + 1\<rparr>) s in
            (case tftp_packet_build_data (t_block (tr s i)) payload (deref 0 bytes_read)
                    (Some (t_packet_buffer (tr s i))) TFTP_MAX_PACKET_SIZE (Some 0) of
               (status, buffer, packet_length) \<Rightarrow>
                 let s = upd_tr i (\<lambda>t. t\<lparr>t_packet_buffer := deref [] buffer\<rparr>) s in
                 if status \<noteq> TFTP_OK then (status, s)
                 else
                   let s = upd_tr i (\<lambda>t. t
                         \<lparr>t_packet_length := deref 0 packet_length,
                          t_final_data := tftp_packet_is_final_data (deref 0 bytes_read),
                          t_expected_block := t_block t\<rparr>) s in
                   (case udp_call (udp_transport_send (t_transport (tr s i))
                            (Some (t_packet_buffer (tr s i))) (t_packet_length (tr s i))
                            (Some (t_peer (tr s i)))) s of
                      (status, s) \<Rightarrow>
                        if status \<noteq> TFTP_OK then (status, s)
                        else (TFTP_OK, upd_tr i (\<lambda>t. t\<lparr>t_state := TFTP_TRANSFER_WAIT_ACK\<rparr>) s))))"

section \<open>Life cycle\<close>

definition tftp_transfer_acquire ::
  "ptr option \<Rightarrow> tsys \<Rightarrow> (tftp_status_t \<times> ptr option) \<times> tsys" where
  "tftp_transfer_acquire out s =
     (case out of
        None \<Rightarrow> ((TFTP_ERR_INVALID_ARGUMENT, None), s)
      | Some _ \<Rightarrow>
          (case first_index (\<lambda>t. \<not> t_in_use t) (g_transfer_pool s) of
             Some i \<Rightarrow>
               ((TFTP_OK, Some (Some i)),
                upd_tr i (\<lambda>t. t\<lparr>t_in_use := True\<rparr>) (transfer_reset (Some i) s))
           | None \<Rightarrow> ((TFTP_ERR_NO_RESOURCE, Some None), s)))"

definition tftp_transfer_init :: "ptr \<Rightarrow> tsys \<Rightarrow> tftp_status_t \<times> tsys" where
  "tftp_transfer_init self s =
     (case self of
        None \<Rightarrow> (TFTP_ERR_INVALID_ARGUMENT, s)
      | Some i \<Rightarrow>
          if \<not> t_in_use (tr s i) then (TFTP_ERR_INVALID_STATE, s)
          else
            (TFTP_OK,
             upd_tr i (\<lambda>t. t\<lparr>t_initialized := True, t_state := TFTP_TRANSFER_IDLE\<rparr>) s))"

definition tftp_transfer_start ::
  "ptr \<Rightarrow> tftp_transfer_config_t option \<Rightarrow> tsys \<Rightarrow> tftp_status_t \<times> tsys" where
  "tftp_transfer_start self config s =
     (case (self, config) of
        (Some i, Some c) \<Rightarrow>
          if \<not> t_initialized (tr s i) then (TFTP_ERR_NOT_INITIALIZED, s)
          else if xc_reactor c = None \<or> \<not> transfer_filename_valid (xc_filename c)
          then (TFTP_ERR_INVALID_ARGUMENT, s)
          else if strlen (deref [] (xc_filename c)) > max_filename_length (tr s i)
          then (TFTP_ERR_INVALID_ARGUMENT, s)
          else
            let s = upd_tr i (\<lambda>t. t
                  \<lparr>t_opcode := xc_opcode c, t_peer := xc_peer c, t_reactor := xc_reactor c,
                   t_filename := snprintf_to (t_filename t) (c_string (deref [] (xc_filename c))),
                   t_block := 0, t_expected_block := 0, t_packet_length := 0\<rparr>) s in
            if t_opcode (tr s i) = TFTP_OPCODE_RRQ
            then (TFTP_OK, upd_tr i (\<lambda>t. t\<lparr>t_state := TFTP_TRANSFER_RRQ\<rparr>) s)
            else (TFTP_ERR_PROTOCOL, upd_tr i (\<lambda>t. t\<lparr>t_state := TFTP_TRANSFER_ERROR\<rparr>) s)
      | _ \<Rightarrow> (TFTP_ERR_INVALID_ARGUMENT, s))"

text \<open>
  \<open>char path[sizeof(self->filename) + sizeof("tftp_root/")]\<close> after the \<open>snprintf\<close>: an
  uninitialised local array (zeros here; \<open>snprintf\<close> terminates what it writes).
\<close>

definition transfer_path :: "tftp_transfer \<Rightarrow> bytes" where
  "transfer_path t =
     snprintf_to (replicate (length (t_filename t) + (length ''tftp_root/'' + 1)) 0)
       (cstr ''tftp_root/'' @ c_string (t_filename t))"

text \<open>Steps 4 and 5 of \<open>tftp_transfer_process\<close>: the ERROR datagram for a file that cannot be opened.\<close>

definition transfer_send_file_error :: "nat \<Rightarrow> tsys \<Rightarrow> tsys" where
  "transfer_send_file_error i s =
     (case tftp_packet_build_error (error_code TFTP_ERROR_FILE_NOT_FOUND)
             (Some (cstr ''File not found'' @ [0])) (Some (t_packet_buffer (tr s i)))
             TFTP_MAX_PACKET_SIZE (Some 0) of
        (error_status, buffer, error_length) \<Rightarrow>
          let s = upd_tr i (\<lambda>t. t\<lparr>t_packet_buffer := deref [] buffer\<rparr>) s in
          if error_status \<noteq> TFTP_OK then s
          else snd (udp_call (udp_transport_send (t_transport (tr s i))
                     (Some (t_packet_buffer (tr s i))) (deref 0 error_length)
                     (Some (t_peer (tr s i)))) s))"

text \<open>Step 1 of \<open>tftp_transfer_process\<close>: the dedicated ephemeral socket of the transfer.\<close>

definition transfer_open_transport :: "nat \<Rightarrow> tsys \<Rightarrow> tftp_status_t \<times> tsys" where
  "transfer_open_transport i s =
     (case udp_call (udp_transport_acquire (Some (t_transport (tr s i)))) s of ((status, p), s) \<Rightarrow>
      let s = upd_tr i (\<lambda>t. t\<lparr>t_transport := deref None p\<rparr>) s in
      if status \<noteq> TFTP_OK then (status, s) else
      (case udp_call (udp_transport_init (t_transport (tr s i))
              (Some \<lparr>tc_local_port = 0, tc_non_blocking = True\<rparr>)) s of (status, s) \<Rightarrow>
       if status \<noteq> TFTP_OK then (status, s)
       else udp_call (udp_transport_open (t_transport (tr s i))) s))"

text \<open>Steps 2 to 5: the file object, the attempt to open the file and the ERROR if it fails.\<close>

definition transfer_open_file :: "nat \<Rightarrow> bytes \<Rightarrow> tsys \<Rightarrow> tftp_status_t \<times> tsys" where
  "transfer_open_file i path s =
     (case file_call (tftp_file_acquire (Some (t_file (tr s i)))) s of ((status, p), s) \<Rightarrow>
      let s = upd_tr i (\<lambda>t. t\<lparr>t_file := deref None p\<rparr>) s in
      if status \<noteq> TFTP_OK then (status, s) else
      (case file_call (tftp_file_init (t_file (tr s i))) s of (status, s) \<Rightarrow>
       if status \<noteq> TFTP_OK then (status, s) else
       (case file_call (tftp_file_open (t_file (tr s i)) (Some path) TFTP_FILE_READ) s of
          (status, s) \<Rightarrow>
            if status \<noteq> TFTP_OK then (status, transfer_send_file_error i s) else (TFTP_OK, s))))"

text \<open>Step 6: the registration with the reactor.\<close>

definition transfer_register :: "nat \<Rightarrow> tsys \<Rightarrow> tftp_status_t \<times> tsys" where
  "transfer_register i s =
     (let registration =
            \<lparr>r_fd = get_fd (t_transport (tr s i)) s,
             r_events = REACTOR_EVENT_READ OR REACTOR_EVENT_ERROR,
             r_handler = Some Transfer_udp_handler, r_context = Some i\<rparr> in
      (case reactor_call (reactor_register (t_reactor (tr s i)) (Some registration)) s of
         (status, s) \<Rightarrow>
           if status \<noteq> TFTP_OK then (status, s)
           else (TFTP_OK, upd_tr i (\<lambda>t. t\<lparr>t_registered := True\<rparr>) s)))"

definition tftp_transfer_process :: "ptr \<Rightarrow> tsys \<Rightarrow> tftp_status_t \<times> tsys" where
  "tftp_transfer_process self s =
     (case self of
        None \<Rightarrow> (TFTP_ERR_INVALID_ARGUMENT, s)
      | Some i \<Rightarrow>
          if \<not> t_initialized (tr s i) then (TFTP_ERR_NOT_INITIALIZED, s)
          else if t_state (tr s i) \<noteq> TFTP_TRANSFER_RRQ then (TFTP_ERR_INVALID_STATE, s)
          else
            let path = transfer_path (tr s i) in
            (case transfer_open_transport i s of (status, s) \<Rightarrow>
             if status \<noteq> TFTP_OK then (status, s) else
             (case transfer_open_file i path s of (status, s) \<Rightarrow>
              if status \<noteq> TFTP_OK then (status, s) else
              (case transfer_register i s of (status, s) \<Rightarrow>
               if status \<noteq> TFTP_OK then (status, s)
               else transfer_send_next_data i s))))"

definition tftp_transfer_abort :: "ptr \<Rightarrow> tsys \<Rightarrow> tftp_status_t \<times> tsys" where
  "tftp_transfer_abort self s =
     (case self of
        None \<Rightarrow> (TFTP_ERR_INVALID_ARGUMENT, s)
      | Some i \<Rightarrow> (TFTP_OK, upd_tr i (\<lambda>t. t\<lparr>t_state := TFTP_TRANSFER_ERROR\<rparr>) s))"

definition tftp_transfer_cleanup :: "ptr \<Rightarrow> tsys \<Rightarrow> tftp_status_t \<times> tsys" where
  "tftp_transfer_cleanup self s =
     (case self of
        None \<Rightarrow> (TFTP_ERR_INVALID_ARGUMENT, s)
      | Some i \<Rightarrow>
          let s = (if t_registered (tr s i) \<and> t_reactor (tr s i) \<noteq> None \<and> t_transport (tr s i) \<noteq> None
                   then
                     let s = snd (reactor_call (reactor_unregister (t_reactor (tr s i))
                                    (get_fd (t_transport (tr s i)) s)) s) in
                     upd_tr i (\<lambda>t. t\<lparr>t_registered := False\<rparr>) s
                   else s);
              s = (if t_file (tr s i) \<noteq> None then
                     let s = snd (file_call (tftp_file_deinit (t_file (tr s i))) s) in
                     (case file_call (tftp_file_release (Some (t_file (tr s i)))) s of
                        (p, s) \<Rightarrow> upd_tr i (\<lambda>t. t\<lparr>t_file := deref None p\<rparr>) s)
                   else s);
              s = (if t_transport (tr s i) \<noteq> None then
                     (case udp_call (udp_transport_release (Some (t_transport (tr s i)))) s of
                        (p, s) \<Rightarrow> upd_tr i (\<lambda>t. t\<lparr>t_transport := deref None p\<rparr>) s)
                   else s)
          in (TFTP_OK, transfer_reset self s))"

definition tftp_transfer_release :: "ptr option \<Rightarrow> tsys \<Rightarrow> ptr option \<times> tsys" where
  "tftp_transfer_release self s =
     (case self of
        Some (Some i) \<Rightarrow> (Some None, snd (tftp_transfer_cleanup (Some i) s))
      | _ \<Rightarrow> (self, s))"

definition tftp_transfer_get_state :: "ptr \<Rightarrow> tsys \<Rightarrow> tftp_transfer_state_t" where
  "tftp_transfer_get_state self s =
     (case self of None \<Rightarrow> TFTP_TRANSFER_ERROR | Some i \<Rightarrow> t_state (tr s i))"

definition tftp_transfer_get_block :: "ptr \<Rightarrow> tsys \<Rightarrow> u16" where
  "tftp_transfer_get_block self s = (case self of None \<Rightarrow> 0 | Some i \<Rightarrow> t_block (tr s i))"

definition tftp_transfer_is_complete :: "ptr \<Rightarrow> tsys \<Rightarrow> bool" where
  "tftp_transfer_is_complete self s =
     (case self of None \<Rightarrow> False | Some i \<Rightarrow> t_state (tr s i) = TFTP_TRANSFER_COMPLETE)"

section \<open>Events\<close>

definition tftp_transfer_handle_event ::
  "ptr \<Rightarrow> tftp_transfer_event_t \<Rightarrow> bytes option \<Rightarrow> nat \<Rightarrow> tsys \<Rightarrow> tftp_status_t \<times> tsys" where
  "tftp_transfer_handle_event self event data len s =
     (case self of
        None \<Rightarrow> (TFTP_ERR_INVALID_ARGUMENT, s)
      | Some i \<Rightarrow>
          if \<not> t_initialized (tr s i) then (TFTP_ERR_NOT_INITIALIZED, s)
          else if event = TFTP_TRANSFER_EVENT_START then tftp_transfer_process self s
          else if event = TFTP_TRANSFER_EVENT_ERROR
          then (TFTP_ERR_PROTOCOL, upd_tr i (\<lambda>t. t\<lparr>t_state := TFTP_TRANSFER_ERROR\<rparr>) s)
          else if event = TFTP_TRANSFER_EVENT_TIMEOUT then (TFTP_ERR_TIMEOUT, s)
          else if event \<noteq> TFTP_TRANSFER_EVENT_RX_PACKET then (TFTP_ERR_INVALID_ARGUMENT, s)
          else if data = None \<or> len < TFTP_PACKET_HEADER_SIZE then (TFTP_ERR_INVALID_PACKET, s)
          else if t_state (tr s i) \<noteq> TFTP_TRANSFER_WAIT_ACK then (TFTP_ERR_INVALID_STATE, s)
          else
            (case tftp_packet_parse data len (Some packet_zero) of (status, packet) \<Rightarrow>
               if status \<noteq> TFTP_OK then (status, s)
               else
                 let packet = deref packet_zero packet in
                 if p_opcode packet \<noteq> TFTP_OPCODE_ACK then (TFTP_ERR_PROTOCOL, s)
                 else if p_block packet \<noteq> t_expected_block (tr s i)
                 then (TFTP_ERR_INVALID_BLOCK, s)
                 else if t_final_data (tr s i)
                 then (TFTP_OK, upd_tr i (\<lambda>t. t\<lparr>t_state := TFTP_TRANSFER_COMPLETE\<rparr>) s)
                 else transfer_send_next_data i s))"

text \<open>
  The reactor handler of a transfer.  \<open>buffer\<close> is a local array of 516 bytes, of which only
  the bytes received are read (\<open>parsers_stay_in_bounds\<close>).
\<close>

definition transfer_udp_handler :: "int \<Rightarrow> u32 \<Rightarrow> ptr \<Rightarrow> tsys \<Rightarrow> tsys" where
  "transfer_udp_handler fd events context s =
     (case context of
        None \<Rightarrow> s
      | Some i \<Rightarrow>
          if t_transport (tr s i) = None then s
          else if fd \<noteq> get_fd (t_transport (tr s i)) s then s
          else if events AND REACTOR_EVENT_ERROR \<noteq> 0 then snd (tftp_transfer_abort (Some i) s)
          else if events AND REACTOR_EVENT_READ = 0 then s
          else
            (case udp_call (udp_transport_receive (t_transport (tr s i))
                    (Some (replicate TFTP_MAX_PACKET_SIZE 0)) TFTP_MAX_PACKET_SIZE (Some 0)
                    (Some sockaddr_zero)) s of
               ((status, buffer, received, source), s) \<Rightarrow>
                 if status = TFTP_ERR_BUSY then s
                 else if status \<noteq> TFTP_OK then snd (tftp_transfer_abort (Some i) s)
                 else if \<not> transfer_same_peer (t_peer (tr s i)) (deref sockaddr_zero source) then s
                 else
                   (case tftp_transfer_handle_event (Some i) TFTP_TRANSFER_EVENT_RX_PACKET
                           buffer (deref 0 received) s of
                      (status, s) \<Rightarrow>
                        let s = (if status \<noteq> TFTP_OK
                                 then snd (tftp_transfer_abort (Some i) s) else s) in
                        if t_state (tr s i) = TFTP_TRANSFER_COMPLETE \<or>
                           t_state (tr s i) = TFTP_TRANSFER_ERROR
                        then snd (tftp_transfer_release (Some (Some i)) s)
                        else s)))"

end
