(* ===== verification/Tftp_Resources.thy ===== *)
theory Tftp_Resources
  imports Tftp_Transfer
begin

text \<open>
  Who owns what: the resource invariant of transfers, transports, files, streams, descriptors
  and registrations.  The parameters describe the users outside this module: \<open>E\<close>, the
  descriptors of the environment, \<open>S\<close>, the server's transport pointer, and \<open>R\<close>, whether the
  server is registered with the reactor.  Every operation that the transfer module and the
  server call keeps it (the lemmas \<open>owned_...\<close>).
\<close>

section \<open>The invariant\<close>

abbreviation sock :: "tsys \<Rightarrow> nat \<Rightarrow> udp_transport" where
  "sock s p \<equiv> g_transport_pool (ts_udp s) ! p"

definition transports :: "ptr \<Rightarrow> tsys \<Rightarrow> ptr list" where
  "transports S s = S # map t_transport (g_transfer_pool s)"

definition files :: "tsys \<Rightarrow> ptr list" where
  "files s = map t_file (g_transfer_pool s)"

text \<open>Every transport in use belongs to exactly one owner, and likewise every file.\<close>

definition transports_owned :: "ptr \<Rightarrow> tsys \<Rightarrow> bool" where
  "transports_owned S s \<longleftrightarrow> exclusive (transports S s) \<and>
     held (transports S s) = {p. p < UDP_TRANSPORT_POOL_SIZE \<and> g_transport_used (ts_udp s) ! p}"

definition files_owned :: "tsys \<Rightarrow> bool" where
  "files_owned s \<longleftrightarrow> exclusive (files s) \<and>
     held (files s) = {q. q < length (g_file_pool (ts_file s)) \<and> f_in_use (g_file_pool (ts_file s) ! q)}"

text \<open>The open descriptors are those of the environment, the open transports and the streams.\<close>

definition sock_fds :: "tsys \<Rightarrow> int set" where
  "sock_fds s = {u_fd (sock s p) | p. p < UDP_TRANSPORT_POOL_SIZE \<and> u_open (sock s p)}"

definition stream_fds :: "tsys \<Rightarrow> int set" where
  "stream_fds s = {st_fd st | sid st. streams (ts_os s) sid = Some st}"

definition fds_owned :: "int set \<Rightarrow> tsys \<Rightarrow> bool" where
  "fds_owned E s \<longleftrightarrow> set (fds (ts_os s)) = E \<union> sock_fds s \<union> stream_fds s \<and>
     E \<inter> (sock_fds s \<union> stream_fds s) = {} \<and> sock_fds s \<inter> stream_fds s = {}"

text \<open>A transfer that is not in use holds nothing; one in use has its buffers.\<close>

definition transfer_ok :: "tftp_transfer \<Rightarrow> bool" where
  "transfer_ok t \<longleftrightarrow> length (t_packet_buffer t) = TFTP_MAX_PACKET_SIZE \<and> t_filename t \<noteq> [] \<and>
     (\<not> t_in_use t \<longrightarrow> \<not> t_initialized t \<and> \<not> t_registered t \<and> t_transport t = None \<and> t_file t = None)"

text \<open>
  The reactor's table holds exactly the entries of the registered owners, each with the
  descriptor of its open transport.
\<close>

definition reg_of :: "tsys \<Rightarrow> handler \<Rightarrow> nat \<Rightarrow> nat \<Rightarrow> handler reactor_registration" where
  "reg_of s h c p =
     \<lparr>r_fd = u_fd (sock s p), r_events = REACTOR_EVENT_READ OR REACTOR_EVENT_ERROR,
      r_handler = Some h, r_context = Some c\<rparr>"

lemma reg_of_upd [simp]: "reg_of (upd_tr i f s) = reg_of s"
  by (intro ext) (simp add: reg_of_def upd_tr_def)

definition registrants :: "ptr \<Rightarrow> bool \<Rightarrow> tsys \<Rightarrow> (handler \<times> nat \<times> nat) set" where
  "registrants S R s =
     {(Server_udp_handler, 0, p) | p. R \<and> S = Some p} \<union>
     {(Transfer_udp_handler, i, p) | i p.
        i < length (g_transfer_pool s) \<and> t_registered (tr s i) \<and> t_transport (tr s i) = Some p}"

definition registrations_owned :: "ptr \<Rightarrow> bool \<Rightarrow> tsys \<Rightarrow> bool" where
  "registrations_owned S R s \<longleftrightarrow>
     set (reg_table (ts_reactor s)) = (\<lambda>(h, c, p). reg_of s h c p) ` registrants S R s \<and>
     distinct (map r_fd (reg_table (ts_reactor s))) \<and>
     (\<forall>(h, c, p)\<in>registrants S R s. u_open (sock s p)) \<and>
     (\<forall>i<length (g_transfer_pool s). t_registered (tr s i) \<longrightarrow>
        t_transport (tr s i) \<noteq> None \<and> t_reactor (tr s i) = Some 0)"

definition tsys_inv :: "int set \<Rightarrow> ptr \<Rightarrow> bool \<Rightarrow> tsys \<Rightarrow> bool" where
  "tsys_inv E S R s \<longleftrightarrow> udp_inv (ts_udp s, ts_os s) \<and> file_inv (ts_file s, ts_os s) \<and>
     reactor_inv (ts_reactor s) \<and> (\<forall>t\<in>set (g_transfer_pool s). transfer_ok t) \<and>
     transports_owned S s \<and> files_owned s \<and> fds_owned E s \<and> registrations_owned S R s"

lemma tsys_invD:
  assumes "tsys_inv E S R s"
  shows "udp_inv (ts_udp s, ts_os s)" "file_inv (ts_file s, ts_os s)" "reactor_inv (ts_reactor s)"
    "\<forall>t\<in>set (g_transfer_pool s). transfer_ok t" "transports_owned S s" "files_owned s"
    "fds_owned E s" "registrations_owned S R s"
  using assms by (simp_all add: tsys_inv_def)

lemma tsys_inv_tr: "tsys_inv E S R s \<Longrightarrow> i < length (g_transfer_pool s) \<Longrightarrow> transfer_ok (tr s i)"
  by (simp add: tsys_inv_def)

lemma owner_transport:
  assumes "tsys_inv E S R s" "i < length (g_transfer_pool s)" "t_transport (tr s i) = Some p"
  shows "p < UDP_TRANSPORT_POOL_SIZE" "g_transport_used (ts_udp s) ! p"
proof -
  have "p \<in> held (transports S s)"
    using assms(2,3) by (intro heldI [of "Suc i"]) (simp_all add: transports_def)
  then show "p < UDP_TRANSPORT_POOL_SIZE" "g_transport_used (ts_udp s) ! p"
    using tsys_invD(5) [OF assms(1)] by (simp_all add: transports_owned_def)
qed

lemma owner_server:
  assumes "tsys_inv E (Some p) R s"
  shows "p < UDP_TRANSPORT_POOL_SIZE" "g_transport_used (ts_udp s) ! p"
proof -
  have "p \<in> held (transports (Some p) s)" by (intro heldI [of 0]) (simp_all add: transports_def)
  then show "p < UDP_TRANSPORT_POOL_SIZE" "g_transport_used (ts_udp s) ! p"
    using tsys_invD(5) [OF assms(1)] by (simp_all add: transports_owned_def)
qed

lemma owner_file:
  assumes "tsys_inv E S R s" "i < length (g_transfer_pool s)" "t_file (tr s i) = Some q"
  shows "q < length (g_file_pool (ts_file s))" "f_in_use (g_file_pool (ts_file s) ! q)"
proof -
  have "q \<in> held (files s)" using assms(2,3) by (intro heldI [of i]) (simp_all add: files_def)
  then show "q < length (g_file_pool (ts_file s))" "f_in_use (g_file_pool (ts_file s) ! q)"
    using tsys_invD(6) [OF assms(1)] by (simp_all add: files_owned_def)
qed

lemma transports_distinct:
  assumes "tsys_inv E S R s" "i < length (g_transfer_pool s)" "j < length (g_transfer_pool s)"
    "t_transport (tr s i) = Some p" "t_transport (tr s j) = Some p"
  shows "i = j"
  using exclusiveD [of "transports S s" "Suc i" "Suc j" p] tsys_invD(5) [OF assms(1)] assms(2-)
  by (simp add: transports_owned_def transports_def)

lemma transports_not_server:
  assumes "tsys_inv E (Some p) R s" "i < length (g_transfer_pool s)"
  shows "t_transport (tr s i) \<noteq> Some p"
  using exclusiveD [of "transports (Some p) s" "Suc i" 0 p] tsys_invD(5) [OF assms(1)] assms(2-)
  by (auto simp: transports_owned_def transports_def)

lemma files_distinct:
  assumes "tsys_inv E S R s" "i < length (g_transfer_pool s)" "j < length (g_transfer_pool s)"
    "t_file (tr s i) = Some q" "t_file (tr s j) = Some q"
  shows "i = j"
  using exclusiveD [of "files s" i j q] tsys_invD(6) [OF assms(1)] assms(2-)
  by (simp add: files_owned_def files_def)

section \<open>Changes of a transfer's own data\<close>

lemma tr_upd [simp]:
  "i < length (g_transfer_pool s) \<Longrightarrow> tr (upd_tr i f s) i = f (tr s i)"
  "j \<noteq> i \<Longrightarrow> tr (upd_tr i f s) j = tr s j"
  "length (g_transfer_pool (upd_tr i f s)) = length (g_transfer_pool s)"
  "ts_os (upd_tr i f s) = ts_os s" "ts_udp (upd_tr i f s) = ts_udp s"
  "ts_file (upd_tr i f s) = ts_file s" "ts_reactor (upd_tr i f s) = ts_reactor s"
  by (simp_all add: upd_tr_def)

text \<open>The fields that say what a transfer owns.\<close>

definition same_owner :: "tftp_transfer \<Rightarrow> tftp_transfer \<Rightarrow> bool" where
  "same_owner t t' \<longleftrightarrow> t_in_use t' = t_in_use t \<and> t_initialized t' = t_initialized t \<and>
     t_registered t' = t_registered t \<and>
     t_transport t' = t_transport t \<and> t_file t' = t_file t \<and> (t_registered t \<longrightarrow> t_reactor t' = t_reactor t) \<and>
     length (t_packet_buffer t') = length (t_packet_buffer t) \<and> (t_filename t \<noteq> [] \<longrightarrow> t_filename t' \<noteq> [])"

lemma tr_upd_if:
  "i < length (g_transfer_pool s) \<Longrightarrow> tr (upd_tr i f s) j = (if j = i then f (tr s i) else tr s j)"
  by simp

lemma registrants_upd:
  assumes i: "i < length (g_transfer_pool s)"
    and "t_registered (f (tr s i)) = t_registered (tr s i)"
    and "t_registered (tr s i) \<longrightarrow> t_transport (f (tr s i)) = t_transport (tr s i)"
  shows "registrants S R (upd_tr i f s) = registrants S R s"
proof -
  have "t_registered (tr (upd_tr i f s) j) = t_registered (tr s j) \<and>
      (t_registered (tr s j) \<longrightarrow> t_transport (tr (upd_tr i f s) j) = t_transport (tr s j))" for j
    using assms by (simp add: tr_upd_if)
  then show ?thesis by (auto simp: registrants_def)
qed

lemma owned_cosmetic:
  assumes inv: "tsys_inv E S R s" and i: "i < length (g_transfer_pool s)"
    and f: "same_owner (tr s i) (f (tr s i))"
  shows "tsys_inv E S R (upd_tr i f s)"
proof -
  let ?s = "upd_tr i f s"
  have t: "transports S ?s = transports S s" "files ?s = files s"
    using i f by (simp_all add: transports_def files_def upd_tr_def map_list_update_same same_owner_def)
  have "transfer_ok (f (tr s i))"
    using tsys_inv_tr [OF inv i] f by (auto simp: transfer_ok_def same_owner_def)
  then have ok: "\<forall>t\<in>set (g_transfer_pool ?s). transfer_ok t"
    using tsys_invD(4) [OF inv] by (auto simp: upd_tr_def dest!: set_update_subset_insert [THEN subsetD])
  have r: "registrants S R ?s = registrants S R s"
    using i f by (intro registrants_upd) (simp_all add: same_owner_def)
  have "t_registered (tr ?s j) = t_registered (tr s j) \<and>
      (t_registered (tr s j) \<longrightarrow> t_transport (tr ?s j) = t_transport (tr s j) \<and>
         t_reactor (tr ?s j) = t_reactor (tr s j))" for j
    using i f by (simp add: tr_upd_if same_owner_def)
  then have "registrations_owned S R ?s"
    using tsys_invD(8) [OF inv] by (simp add: registrations_owned_def r reg_of_def)
  then show ?thesis
    using inv ok by (simp add: tsys_inv_def transports_owned_def files_owned_def t fds_owned_def
        sock_fds_def stream_fds_def)
qed


section \<open>Changes of a transport\<close>

text \<open>The effect of the transport operations on one slot, in the form the invariant needs.\<close>

definition sock_change :: "nat \<Rightarrow> udp_transport \<Rightarrow> os \<Rightarrow> tsys \<Rightarrow> tsys" where
  "sock_change p x k s =
     s\<lparr>ts_udp := (ts_udp s)\<lparr>g_transport_pool := (g_transport_pool (ts_udp s))[p := x]\<rparr>, ts_os := k\<rparr>"

lemma sock_change_simps [simp]:
  "g_transfer_pool (sock_change p x k s) = g_transfer_pool s"
  "ts_file (sock_change p x k s) = ts_file s" "ts_reactor (sock_change p x k s) = ts_reactor s"
  "ts_os (sock_change p x k s) = k"
  "g_transport_used (ts_udp (sock_change p x k s)) = g_transport_used (ts_udp s)"
  "g_transport_pool (ts_udp (sock_change p x k s)) = (g_transport_pool (ts_udp s))[p := x]"
  "registrants S R (sock_change p x k s) = registrants S R s"
  by (simp_all add: sock_change_def registrants_def)

definition fds_follow :: "udp_transport \<Rightarrow> udp_transport \<Rightarrow> os \<Rightarrow> os \<Rightarrow> bool" where
  "fds_follow old new k k' \<longleftrightarrow>
     set (fds k') = (set (fds k) - (if u_open old then {u_fd old} else {})) \<union>
       (if u_open new then {u_fd new} else {}) \<and>
     (u_open new \<longrightarrow> (if u_open old then u_fd new = u_fd old else u_fd new \<notin> set (fds k)))"

lemma sock_fds_change:
  assumes inv: "udp_inv (ts_udp s, ts_os s)" and p: "p < UDP_TRANSPORT_POOL_SIZE"
  shows "sock_fds (sock_change p x k s) =
    (sock_fds s - (if u_open (sock s p) then {u_fd (sock s p)} else {})) \<union>
      (if u_open x then {u_fd x} else {})"
proof -
  have len: "length (g_transport_pool (ts_udp s)) = UDP_TRANSPORT_POOL_SIZE"
    using udp_inv_lengths(1) [OF inv] by simp
  have dist: "u_fd (sock s q) \<noteq> u_fd (sock s p)"
    if "q < UDP_TRANSPORT_POOL_SIZE" "q \<noteq> p" "u_open (sock s q)" "u_open (sock s p)" for q
    using udp_inv_distinctD [OF inv that(1) p that(2)] that by simp
  have "sock_fds (sock_change p x k s) =
      {u_fd (sock s q) | q. q < UDP_TRANSPORT_POOL_SIZE \<and> q \<noteq> p \<and> u_open (sock s q)} \<union>
      (if u_open x then {u_fd x} else {})"
    using len p by (auto simp: sock_fds_def nth_list_update)
  moreover have "{u_fd (sock s q) | q. q < UDP_TRANSPORT_POOL_SIZE \<and> q \<noteq> p \<and> u_open (sock s q)} =
      sock_fds s - (if u_open (sock s p) then {u_fd (sock s p)} else {})"
    using dist p by (auto simp: sock_fds_def)
  ultimately show ?thesis by simp
qed

lemma reg_of_sock_change:
  assumes len: "p < length (g_transport_pool (ts_udp s))"
    and "q \<noteq> p \<or> u_fd x = u_fd (sock s p)"
  shows "reg_of (sock_change p x k s) h c q = reg_of s h c q"
  using assms by (auto simp: reg_of_def nth_list_update)

lemma owned_sock_change:
  assumes inv: "tsys_inv E S R s" and p: "p < UDP_TRANSPORT_POOL_SIZE"
    and u: "udp_inv (ts_udp (sock_change p x k s), k)"
    and k: "disk_same (ts_os s) k" "fds_follow (sock s p) x (ts_os s) k"
    and reg: "\<And>h c q. (h, c, q) \<in> registrants S R s \<Longrightarrow>
      q \<noteq> p \<or> u_open x = u_open (sock s p) \<and> u_fd x = u_fd (sock s p)"
  shows "tsys_inv E S R (sock_change p x k s)"
proof -
  let ?s = "sock_change p x k s"
  note i = tsys_invD [OF inv]
  have len: "p < length (g_transport_pool (ts_udp s))"
    using udp_inv_lengths(1) [OF i(1)] p by simp
  have str: "stream_fds ?s = stream_fds s" using k(1) by (simp add: stream_fds_def disk_same_def)
  have in_sock: "u_open (sock s p) \<Longrightarrow> u_fd (sock s p) \<in> sock_fds s" using p by (auto simp: sock_fds_def)
  have fds: "fds_owned E ?s"
    using i(7) k(2) in_sock unfolding fds_owned_def sock_fds_change [OF i(1) p] str fds_follow_def
    by (cases "u_open (sock s p)"; cases "u_open x") auto
  have "file_inv (ts_file s, k)"
  proof (rule file_inv_os [OF i(2)])
    show "streams k = streams (ts_os s)" "next_stream k = next_stream (ts_os s)"
      using k(1) by (simp_all add: disk_same_def)
    fix sid st assume "streams (ts_os s) sid = Some st"
    then have "st_fd st \<in> stream_fds ?s" unfolding str by (auto simp: stream_fds_def)
    with fds show "st_fd st \<in> set (fds k)" by (simp add: fds_owned_def)
  qed
  moreover have "registrations_owned S R ?s"
  proof -
    have e: "reg_of ?s h c q = reg_of s h c q" "u_open (sock ?s q) = u_open (sock s q)"
      if "(h, c, q) \<in> registrants S R s" for h c q
      using reg [OF that] reg_of_sock_change [OF len, of q x k h c] len
      by (auto simp: nth_list_update)
    have "(\<lambda>(h, c, q). reg_of ?s h c q) ` registrants S R s = (\<lambda>(h, c, q). reg_of s h c q) ` registrants S R s"
      by (rule image_cong [OF refl]) (auto simp: e)
    moreover have "\<forall>(h, c, q)\<in>registrants S R s. u_open (sock ?s q)"
      using i(8) e(2) by (auto simp: registrations_owned_def)
    ultimately show ?thesis using i(8) by (simp add: registrations_owned_def)
  qed
  ultimately show ?thesis
    using inv u fds by (simp add: tsys_inv_def transports_owned_def transports_def files_owned_def
        files_def)
qed


section \<open>Acquiring and releasing a transport\<close>

text \<open>The invariant without the two ownership tables, which such a step changes together.\<close>

definition rest_inv :: "int set \<Rightarrow> ptr \<Rightarrow> bool \<Rightarrow> tsys \<Rightarrow> bool" where
  "rest_inv E S R s \<longleftrightarrow> udp_inv (ts_udp s, ts_os s) \<and> file_inv (ts_file s, ts_os s) \<and>
     reactor_inv (ts_reactor s) \<and> (\<forall>t\<in>set (g_transfer_pool s). transfer_ok t) \<and>
     fds_owned E s \<and> registrations_owned S R s"

lemma tsys_inv_split:
  "tsys_inv E S R s \<longleftrightarrow> rest_inv E S R s \<and> transports_owned S s \<and> files_owned s"
  by (auto simp: tsys_inv_def rest_inv_def)

lemma rest_upd:
  assumes r: "rest_inv E S R s" and i: "i < length (g_transfer_pool s)"
    and f: "\<not> t_registered (tr s i)" "\<not> t_registered (f (tr s i))" "transfer_ok (f (tr s i))"
  shows "rest_inv E S R (upd_tr i f s)"
proof -
  let ?s = "upd_tr i f s"
  have ok: "\<forall>t\<in>set (g_transfer_pool ?s). transfer_ok t"
    using r f by (auto simp: rest_inv_def upd_tr_def dest!: set_update_subset_insert [THEN subsetD])
  have g: "registrants S R ?s = registrants S R s"
    using i f by (intro registrants_upd) simp_all
  have "t_registered (tr ?s j) = t_registered (tr s j) \<and> (t_registered (tr s j) \<longrightarrow> tr ?s j = tr s j)" for j
    using i f by (simp add: tr_upd_if)
  then have "registrations_owned S R ?s"
    using r by (simp add: rest_inv_def registrations_owned_def g)
  then show ?thesis using r ok by (simp add: rest_inv_def fds_owned_def sock_fds_def stream_fds_def)
qed

lemma rest_server:
  assumes "rest_inv E S False s"
  shows "rest_inv E S' False s"
proof -
  have "registrants S False s = registrants S' False s" by (simp add: registrants_def)
  with assms show ?thesis by (simp add: rest_inv_def registrations_owned_def)
qed

definition set_used :: "nat \<Rightarrow> bool \<Rightarrow> tsys \<Rightarrow> tsys" where
  "set_used p b s = s\<lparr>ts_udp := (ts_udp s)\<lparr>g_transport_used := (g_transport_used (ts_udp s))[p := b]\<rparr>\<rparr>"

lemma set_used_simps [simp]:
  "g_transfer_pool (set_used p b s) = g_transfer_pool s" "ts_file (set_used p b s) = ts_file s"
  "ts_reactor (set_used p b s) = ts_reactor s" "ts_os (set_used p b s) = ts_os s"
  "g_transport_pool (ts_udp (set_used p b s)) = g_transport_pool (ts_udp s)"
  "g_transport_used (ts_udp (set_used p b s)) = (g_transport_used (ts_udp s))[p := b]"
  by (simp_all add: set_used_def)

lemma rest_used:
  assumes "rest_inv E S R s" "p < UDP_TRANSPORT_POOL_SIZE" "\<not> u_initialized (sock s p)"
  shows "rest_inv E S R (set_used p b s)"
proof -
  have "udp_inv (ts_udp (set_used p b s), ts_os s)"
    using assms by (auto simp: rest_inv_def udp_inv_def nth_list_update)
  moreover have "registrants S R (set_used p b s) = registrants S R s"
    by (simp add: registrants_def)
  ultimately show ?thesis
    using assms(1) by (simp add: rest_inv_def registrations_owned_def reg_of_def fds_owned_def
        sock_fds_def stream_fds_def)
qed

abbreviation fresh_sock :: udp_transport where
  "fresh_sock \<equiv> udp_transport_zero\<lparr>u_fd := -1\<rparr>"

lemma fresh_sock_simps [simp]: "\<not> u_open fresh_sock" "\<not> u_initialized fresh_sock"
  by (simp_all add: udp_transport_zero_def)

lemma udp_call_eq:
  "udp_call f s = (r, s') \<longleftrightarrow>
     (\<exists>u k. f (ts_udp s, ts_os s) = (r, (u, k)) \<and> s' = s\<lparr>ts_udp := u, ts_os := k\<rparr>)"
  by (auto simp: udp_call_def split: prod.splits)

text \<open>
  \<open>udp_transport_acquire\<close>: a free slot becomes used, or nothing changes.  The caller then
  stores the pointer in the owner.
\<close>

lemma udp_acquire_call:
  assumes "tsys_inv E S R s" "udp_call (udp_transport_acquire (Some x)) s = ((st, p), s')"
  shows "st = TFTP_OK \<and> (\<exists>q. p = Some (Some q) \<and> q < UDP_TRANSPORT_POOL_SIZE \<and>
      \<not> g_transport_used (ts_udp s) ! q \<and>
      s' = set_used q True (sock_change q fresh_sock (ts_os s) s)) \<or>
    st = TFTP_ERR_NO_RESOURCE \<and> p = Some None \<and> s' = s"
proof -
  obtain u k where u: "udp_transport_acquire (Some x) (ts_udp s, ts_os s) = ((st, p), (u, k))"
    and s': "s' = s\<lparr>ts_udp := u, ts_os := k\<rparr>"
    using assms(2) by (auto simp: udp_call_eq)
  have len: "length (g_transport_used (ts_udp s)) = UDP_TRANSPORT_POOL_SIZE"
    using udp_inv_lengths(2) [OF tsys_invD(1) [OF assms(1)]] by simp
  from udp_acquire_effect [OF u] show ?thesis
    using len s' by (auto simp: first_index_Some_iff set_used_def sock_change_def)
qed

lemma unused_not_registered:
  assumes "tsys_inv E S R s" "(h, c, q) \<in> registrants S R s"
  shows "q < UDP_TRANSPORT_POOL_SIZE \<and> g_transport_used (ts_udp s) ! q \<and> u_open (sock s q)"
proof -
  from assms(2) have "q \<in> held (transports S s)"
    by (auto simp: registrants_def transports_def held_Cons intro: heldI)
  then show ?thesis
    using tsys_invD(5,8) [OF assms(1)] assms(2)
    by (auto simp: transports_owned_def registrations_owned_def)
qed

lemma owned_take_slot:
  assumes inv: "tsys_inv E S R s" and q: "q < UDP_TRANSPORT_POOL_SIZE" "\<not> g_transport_used (ts_udp s) ! q"
  shows "rest_inv E S R (set_used q True (sock_change q fresh_sock (ts_os s) s))"
    "files_owned (set_used q True (sock_change q fresh_sock (ts_os s) s))"
    "q \<notin> held (transports S s)"
proof -
  note i = tsys_invD [OF inv]
  have closed: "\<not> u_open (sock s q)" "\<not> u_initialized (sock s q)"
    using udp_inv_openD(2) [OF i(1) q(1)] udp_inv_initD [OF i(1) q(1)] q(2) by auto
  have u: "udp_inv (ts_udp (sock_change q fresh_sock (ts_os s) s), ts_os s)"
    using udp_inv_closed_slot [OF i(1) q(1), of fresh_sock "ts_os s"] closed
    by (simp add: sock_change_def)
  have c: "tsys_inv E S R (sock_change q fresh_sock (ts_os s) s)"
    by (rule owned_sock_change [OF inv q(1) u disk_same_refl])
      (use closed unused_not_registered [OF inv] q(2) in \<open>auto simp: fds_follow_def\<close>)
  have "\<not> u_initialized (sock (sock_change q fresh_sock (ts_os s) s) q)"
    using udp_inv_lengths(1) [OF i(1)] q(1) by simp
  with rest_used c q(1) show "rest_inv E S R (set_used q True (sock_change q fresh_sock (ts_os s) s))"
    by (simp add: tsys_inv_split)
  show "files_owned (set_used q True (sock_change q fresh_sock (ts_os s) s))"
    using i(6) by (simp add: files_owned_def files_def)
  show "q \<notin> held (transports S s)" using i(5) q(2) by (simp add: transports_owned_def)
qed

lemma transports_upd:
  "i < length (g_transfer_pool s) \<Longrightarrow>
   transports S (upd_tr i f s) = (transports S s)[Suc i := t_transport (f (tr s i))]"
  by (simp add: transports_def upd_tr_def map_update)

lemma files_upd: "files (upd_tr i f s) = (files s)[i := t_file (f (tr s i))]"
  by (simp add: files_def upd_tr_def map_update)

lemma used_insert:
  assumes "q < n" "length l = n"
  shows "{p. p < n \<and> l[q := True] ! p} = insert q {p. p < n \<and> l ! p}"
  using assms by (auto simp: nth_list_update)

lemma used_remove:
  assumes "q < n" "length l = n"
  shows "{p. p < n \<and> l[q := False] ! p} = {p. p < n \<and> l ! p} - {q}"
  using assms by (auto simp: nth_list_update)

text \<open>A transfer takes the slot.\<close>

lemma owned_acquire_transport:
  assumes inv: "tsys_inv E S R s" and i: "i < length (g_transfer_pool s)"
    and t: "t_transport (tr s i) = None" "t_in_use (tr s i)"
    and c: "udp_call (udp_transport_acquire (Some x)) s = ((st, p), s')"
  shows "tsys_inv E S R (upd_tr i (\<lambda>t. t\<lparr>t_transport := deref None p\<rparr>) s')"
  using udp_acquire_call [OF inv c]
proof (elim disjE conjE exE)
  fix q
  assume p: "p = Some (Some q)" and q: "q < UDP_TRANSPORT_POOL_SIZE" "\<not> g_transport_used (ts_udp s) ! q"
    and s': "s' = set_used q True (sock_change q fresh_sock (ts_os s) s)"
  let ?f = "\<lambda>t. t\<lparr>t_transport := Some q\<rparr> :: tftp_transfer"
  note o = owned_take_slot [OF inv q, folded s']
  have pool: "g_transfer_pool s' = g_transfer_pool s" by (simp add: s')
  have len: "length (g_transport_used (ts_udp s)) = UDP_TRANSPORT_POOL_SIZE"
    using udp_inv_lengths(2) [OF tsys_invD(1) [OF inv]] by simp
  have nr: "\<not> t_registered (tr s i)"
    using tsys_invD(8) [OF inv] i t(1) by (auto simp: registrations_owned_def)
  have rest: "rest_inv E S R (upd_tr i ?f s')"
    by (rule rest_upd [OF o(1)])
      (use i pool nr t tsys_inv_tr [OF inv i] in \<open>simp_all add: transfer_ok_def\<close>)
  have tl: "transports S (upd_tr i ?f s') = (transports S s)[Suc i := Some q]"
    using i pool by (simp add: transports_upd) (simp add: transports_def pool)
  have at: "Suc i < length (transports S s)" "transports S s ! Suc i = None"
    using i t(1) by (simp_all add: transports_def)
  have "transports_owned S (upd_tr i ?f s')"
    unfolding transports_owned_def tl held_update_Some [OF at]
    using tsys_invD(5) [OF inv] exclusive_update_Some [OF _ o(3)] used_insert [OF q(1) len]
    by (simp add: transports_owned_def s')
  moreover have "files_owned (upd_tr i ?f s')"
  proof -
    have "files (upd_tr i ?f s') = files s'"
      using i pool by (simp add: files_def upd_tr_def map_list_update_same)
    with o(2) show ?thesis by (simp add: files_owned_def)
  qed
  ultimately show ?thesis using rest p by (simp add: tsys_inv_split)
next
  assume "p = Some None" "s' = s"
  then show ?thesis using owned_cosmetic [OF inv i] t by (simp add: same_owner_def)
qed

text \<open>The server takes the slot.\<close>

lemma owned_acquire_server:
  assumes inv: "tsys_inv E None False s"
    and c: "udp_call (udp_transport_acquire (Some x)) s = ((st, p), s')"
  shows "tsys_inv E (deref None p) False s'"
  using udp_acquire_call [OF inv c]
proof (elim disjE conjE exE)
  fix q
  assume p: "p = Some (Some q)" and q: "q < UDP_TRANSPORT_POOL_SIZE" "\<not> g_transport_used (ts_udp s) ! q"
    and s': "s' = set_used q True (sock_change q fresh_sock (ts_os s) s)"
  note o = owned_take_slot [OF inv q, folded s']
  have len: "length (g_transport_used (ts_udp s)) = UDP_TRANSPORT_POOL_SIZE"
    using udp_inv_lengths(2) [OF tsys_invD(1) [OF inv]] by simp
  have tl: "transports (Some q) s' = (transports None s)[0 := Some q]"
    by (simp add: transports_def s')
  have at: "0 < length (transports None s)" "transports None s ! 0 = None"
    by (simp_all add: transports_def)
  have "transports_owned (Some q) s'"
    unfolding transports_owned_def tl held_update_Some [OF at]
    using tsys_invD(5) [OF inv] exclusive_update_Some [OF _ o(3)] used_insert [OF q(1) len]
    by (simp add: transports_owned_def s')
  with o p show ?thesis by (simp add: tsys_inv_split rest_server [OF o(1)])
next
  assume "p = Some None" "s' = s"
  with inv show ?thesis by simp
qed


section \<open>Operations on an owned transport\<close>

lemma sock_change_id:
  assumes "s' = s\<lparr>ts_udp := u, ts_os := k\<rparr>"
    and "u = (ts_udp s)\<lparr>g_transport_pool := (g_transport_pool (ts_udp s))[p := x]\<rparr>"
  shows "s' = sock_change p x k s"
  using assms by (simp add: sock_change_def)

lemma udp_call_noop: "f (ts_udp s, ts_os s) = (r, (ts_udp s, ts_os s)) \<Longrightarrow> udp_call f s = (r, s)"
  by (simp add: udp_call_def)

lemma pool_len: "tsys_inv E S R s \<Longrightarrow> length (g_transport_pool (ts_udp s)) = UDP_TRANSPORT_POOL_SIZE"
  using udp_inv_lengths(1) [OF tsys_invD(1)] by simp

lemma used_len: "tsys_inv E S R s \<Longrightarrow> length (g_transport_used (ts_udp s)) = UDP_TRANSPORT_POOL_SIZE"
  using udp_inv_lengths(2) [OF tsys_invD(1)] by simp

lemma owned_init_transport:
  assumes inv: "tsys_inv E S R s" and p: "p < UDP_TRANSPORT_POOL_SIZE" "g_transport_used (ts_udp s) ! p"
    and e: "udp_call (udp_transport_init (Some p) (Some c)) s = (st, s')"
  shows "tsys_inv E S R s' \<and> (st = TFTP_ERR_INVALID_STATE \<and> s' = s \<and> u_initialized (sock s p) \<or>
    st = TFTP_OK \<and> \<not> u_open (sock s p) \<and>
      (\<exists>x. s' = sock_change p x (ts_os s) s \<and> u_initialized x \<and> \<not> u_open x))"
proof (cases "u_initialized (sock s p)")
  case True
  with e inv show ?thesis by (auto simp: udp_call_eq udp_transport_init_def)
next
  case False
  let ?x = "(sock s p)\<lparr>u_fd := -1, u_local_port := tc_local_port c, u_non_blocking := tc_non_blocking c,
      u_open := False, u_initialized := True\<rparr>"
  have closed: "\<not> u_open (sock s p)" using udp_inv_openD(1) [OF tsys_invD(1) [OF inv] p(1)] False by auto
  have s': "s' = sock_change p ?x (ts_os s) s" "st = TFTP_OK"
    using e False by (auto simp: udp_call_eq udp_transport_init_def set_tp_def sock_change_def)
  have "udp_inv (ts_udp (sock_change p ?x (ts_os s) s), ts_os s)"
    using udp_inv_closed_slot [OF tsys_invD(1) [OF inv] p(1), of ?x "ts_os s"] closed p(2)
    by (simp add: sock_change_def)
  from owned_sock_change [OF inv p(1) this disk_same_refl] closed
  have "tsys_inv E S R s'"
    unfolding s'(1) using unused_not_registered [OF inv] by (fastforce simp: fds_follow_def)
  with s' closed show ?thesis by auto
qed

lemma owned_open_transport:
  assumes inv: "tsys_inv E S R s" and p: "p < UDP_TRANSPORT_POOL_SIZE"
    and c: "u_initialized (sock s p)" "\<not> u_open (sock s p)"
    and e: "udp_call (udp_transport_open (Some p)) s = (st, s')"
  shows "tsys_inv E S R s' \<and>
    (\<exists>x k. s' = sock_change p x k s \<and> u_initialized x \<and> disk_same (ts_os s) k \<and> script_same (ts_os s) k \<and>
      (st = TFTP_OK \<and> u_open x \<and> 0 \<le> u_fd x \<and> fds k = u_fd x # fds (ts_os s) \<or>
       st = TFTP_ERR_IO \<and> \<not> u_open x \<and> fds k = fds (ts_os s)))"
proof -
  obtain u k where o: "udp_transport_open (Some p) (ts_udp s, ts_os s) = (st, (u, k))"
    and s': "s' = s\<lparr>ts_udp := u, ts_os := k\<rparr>" using e by (auto simp: udp_call_eq)
  have len: "p < length (g_transport_pool (fst (ts_udp s, ts_os s)))" using pool_len [OF inv] p by simp
  from udp_open_effect [OF o len] c obtain x where
    u: "u = (ts_udp s)\<lparr>g_transport_pool := (g_transport_pool (ts_udp s))[p := x]\<rparr>"
    and k: "disk_same (ts_os s) k" "script_same (ts_os s) k" and xi: "u_initialized x"
    and x: "st = TFTP_OK \<and> u_open x \<and> u_fd x = alloc_fd (fds (ts_os s)) \<and> fds k = u_fd x # fds (ts_os s) \<or>
       st = TFTP_ERR_IO \<and> \<not> u_open x \<and> fds k = fds (ts_os s)" by auto
  have eq: "s' = sock_change p x k s" by (rule sock_change_id [OF s' u])
  have "udp_inv (u, k)" by (rule udp_inv_open [OF tsys_invD(1) [OF inv] p o])
  then have "udp_inv (ts_udp (sock_change p x k s), k)" using eq s' by (metis sock_change_simps(4)
      tsys.select_convs(2) tsys.surjective tsys.update_convs(1,2))
  moreover have "fds_follow (sock s p) x (ts_os s) k"
    using x c by (auto simp: fds_follow_def)
  ultimately have "tsys_inv E S R s'"
    unfolding eq using unused_not_registered [OF inv] c(2)
    by (intro owned_sock_change [OF inv p _ k(1)]) auto
  with eq k xi x show ?thesis by (metis alloc_fd_nonneg)
qed

lemma owned_bind_transport:
  assumes inv: "tsys_inv E S R s" and p: "p < UDP_TRANSPORT_POOL_SIZE"
    and e: "udp_call (udp_transport_bind (Some p) port) s = (st, s')"
  shows "tsys_inv E S R s' \<and>
    (\<exists>x k. s' = sock_change p x k s \<and> u_initialized x = u_initialized (sock s p) \<and>
      u_open x = u_open (sock s p) \<and> u_fd x = u_fd (sock s p) \<and> fds k = fds (ts_os s) \<and>
      disk_same (ts_os s) k)"
proof -
  obtain u k where o: "udp_transport_bind (Some p) port (ts_udp s, ts_os s) = (st, (u, k))"
    and s': "s' = s\<lparr>ts_udp := u, ts_os := k\<rparr>" using e by (auto simp: udp_call_eq)
  have len: "p < length (g_transport_pool (fst (ts_udp s, ts_os s)))" using pool_len [OF inv] p by simp
  from udp_bind_effect [OF o len] obtain x where
    u: "u = (ts_udp s)\<lparr>g_transport_pool := (g_transport_pool (ts_udp s))[p := x]\<rparr>"
    and k: "disk_same (ts_os s) k" "fds k = fds (ts_os s)"
    and x: "u_initialized x = u_initialized (sock s p)" "u_open x = u_open (sock s p)"
      "u_fd x = u_fd (sock s p)" by auto
  have eq: "s' = sock_change p x k s" by (rule sock_change_id [OF s' u])
  have "udp_inv (u, k)" by (rule udp_inv_bind [OF tsys_invD(1) [OF inv] p o])
  then have ui: "udp_inv (ts_udp (sock_change p x k s), k)" using eq s' by (metis sock_change_simps(4)
      tsys.select_convs(2) tsys.surjective tsys.update_convs(1,2))
  have "u_open (sock s p) \<Longrightarrow> u_fd (sock s p) \<in> set (fds (ts_os s))"
    using udp_inv_openD(3) [OF tsys_invD(1) [OF inv] p] by simp
  then have "fds_follow (sock s p) x (ts_os s) k" using x k by (auto simp: fds_follow_def)
  then have "tsys_inv E S R s'"
    unfolding eq using x by (intro owned_sock_change [OF inv p ui k(1)]) auto
  with eq x k show ?thesis by metis
qed

text \<open>Closing: the transport must not be registered any more.\<close>

lemma owned_close_transport:
  assumes inv: "tsys_inv E S R s" and p: "p < UDP_TRANSPORT_POOL_SIZE"
    and nr: "\<And>h c. (h, c, p) \<notin> registrants S R s"
    and x: "u_initialized x \<longrightarrow> g_transport_used (ts_udp s) ! p" "\<not> u_open x"
    and k: "disk_same (ts_os s) k"
      "fds k = (if u_open (sock s p) then removeAll (u_fd (sock s p)) (fds (ts_os s)) else fds (ts_os s))"
  shows "tsys_inv E S R (sock_change p x k s)"
proof (rule owned_sock_change [OF inv p _ k(1)])
  show "udp_inv (ts_udp (sock_change p x k s), k)"
    using udp_inv_closed_slot [OF tsys_invD(1) [OF inv] p, of x k] x k by (simp add: sock_change_def)
  show "fds_follow (sock s p) x (ts_os s) k" using x k by (auto simp: fds_follow_def)
  show "q \<noteq> p \<or> u_open x = u_open (sock s p) \<and> u_fd x = u_fd (sock s p)"
    if "(h, c, q) \<in> registrants S R s" for h c q using nr that by blast
qed

text \<open>\<open>udp_transport_release\<close> of a transport in use.\<close>

lemma udp_release_call:
  assumes inv: "tsys_inv E S R s" and p: "p < UDP_TRANSPORT_POOL_SIZE" "g_transport_used (ts_udp s) ! p"
    and e: "udp_call (udp_transport_release (Some (Some p))) s = (r, s')"
  shows "r = Some None \<and> (\<exists>k. s' = set_used p False (sock_change p fresh_sock k s) \<and>
    disk_same (ts_os s) k \<and> script_same (ts_os s) k \<and>
    fds k = (if u_open (sock s p) then removeAll (u_fd (sock s p)) (fds (ts_os s)) else fds (ts_os s)))"
proof -
  obtain u k where o: "udp_transport_release (Some (Some p)) (ts_udp s, ts_os s) = (r, (u, k))"
    and s': "s' = s\<lparr>ts_udp := u, ts_os := k\<rparr>" using e by (auto simp: udp_call_eq)
  have len: "p < length (g_transport_pool (fst (ts_udp s, ts_os s)))" using pool_len [OF inv] p by simp
  from udp_release_effect [OF o len] p(2) have r: "r = Some None" "disk_same (ts_os s) k"
    "script_same (ts_os s) k"
    "u = (ts_udp s)\<lparr>g_transport_pool := (g_transport_pool (ts_udp s))[p := fresh_sock],
      g_transport_used := (g_transport_used (ts_udp s))[p := False]\<rparr>"
    "fds k = (if u_initialized (sock s p) \<and> u_open (sock s p) then removeAll (u_fd (sock s p)) (fds (ts_os s))
       else fds (ts_os s))" by auto
  moreover have "u_open (sock s p) \<Longrightarrow> u_initialized (sock s p)"
    using udp_inv_openD(1) [OF tsys_invD(1) [OF inv] p(1)] by simp
  ultimately show ?thesis
  proof (intro conjI exI [of _ k])
    show "s' = set_used p False (sock_change p fresh_sock k s)"
      by (simp add: set_used_def sock_change_def s' r(4))
  qed auto
qed

lemma rest_release_transport:
  assumes inv: "tsys_inv E S R s" and p: "p < UDP_TRANSPORT_POOL_SIZE" "g_transport_used (ts_udp s) ! p"
    and nr: "\<And>h c. (h, c, p) \<notin> registrants S R s"
    and e: "udp_call (udp_transport_release (Some (Some p))) s = (r, s')"
  shows "r = Some None \<and> rest_inv E S R s' \<and> files_owned s' \<and> g_transfer_pool s' = g_transfer_pool s \<and>
    ts_file s' = ts_file s \<and> ts_reactor s' = ts_reactor s \<and>
    g_transport_used (ts_udp s') = (g_transport_used (ts_udp s))[p := False] \<and>
    disk_same (ts_os s) (ts_os s') \<and> script_same (ts_os s) (ts_os s')"
proof -
  from udp_release_call [OF inv p e] obtain k where r: "r = Some None"
    and s': "s' = set_used p False (sock_change p fresh_sock k s)"
    and k: "disk_same (ts_os s) k" "script_same (ts_os s) k"
      "fds k = (if u_open (sock s p) then removeAll (u_fd (sock s p)) (fds (ts_os s)) else fds (ts_os s))"
    by blast
  have "tsys_inv E S R (sock_change p fresh_sock k s)"
    by (rule owned_close_transport [OF inv p(1) nr _ _ k(1,3)]) simp_all
  moreover have "\<not> u_initialized (sock (sock_change p fresh_sock k s) p)"
    using pool_len [OF inv] p(1) by simp
  ultimately have "rest_inv E S R s'" unfolding s' using p(1) by (intro rest_used) (simp_all add: tsys_inv_split)
  moreover have "files_owned s'" using tsys_invD(6) [OF inv] by (simp add: s' files_owned_def files_def)
  ultimately show ?thesis using r s' k by simp
qed

lemma owner_not_registrant:
  assumes inv: "tsys_inv E S R s" and i: "i < length (g_transfer_pool s)"
    and t: "t_transport (tr s i) = Some p" "\<not> t_registered (tr s i)"
  shows "(h, c, p) \<notin> registrants S R s"
proof
  assume "(h, c, p) \<in> registrants S R s"
  then consider "S = Some p" | j where "j < length (g_transfer_pool s)" "t_registered (tr s j)"
      "t_transport (tr s j) = Some p"
    by (auto simp: registrants_def)
  then show False
  proof cases
    case 1
    with inv have "tsys_inv E (Some p) R s" by simp
    from transports_not_server [OF this i] t(1) show False by simp
  next
    case 2
    with transports_distinct [OF inv i 2(1) t(1)] t(2) show False by simp
  qed
qed

lemma owned_release_transport:
  assumes inv: "tsys_inv E S R s" and i: "i < length (g_transfer_pool s)"
    and t: "t_transport (tr s i) = Some p" "\<not> t_registered (tr s i)"
    and e: "udp_call (udp_transport_release (Some (Some p))) s = (r, s')"
  shows "tsys_inv E S R (upd_tr i (\<lambda>t. t\<lparr>t_transport := deref None r\<rparr>) s')"
proof -
  note p = owner_transport [OF inv i t(1)]
  have nr: "(h, c, p) \<notin> registrants S R s" for h c
    by (rule owner_not_registrant [OF inv i t])
  note q = rest_release_transport [OF inv p nr e]
  let ?f = "\<lambda>t. t\<lparr>t_transport := None\<rparr> :: tftp_transfer"
  have tl: "transports S (upd_tr i ?f s') = (transports S s)[Suc i := None]"
    using q i by (simp add: transports_upd) (simp add: transports_def q)
  have at: "Suc i < length (transports S s)" "transports S s ! Suc i = Some p"
    using i t(1) by (simp_all add: transports_def)
  have ex: "exclusive (transports S s)" using tsys_invD(5) [OF inv] by (simp add: transports_owned_def)
  have "transports_owned S (upd_tr i ?f s')"
    unfolding transports_owned_def tl held_update_None [OF ex at]
    using tsys_invD(5) [OF inv] exclusive_update_None [OF ex] used_remove [OF p(1) used_len [OF inv]] q
    by (simp add: transports_owned_def)
  moreover have "files_owned (upd_tr i ?f s')"
  proof -
    have "files (upd_tr i ?f s') = files s'"
      using i q by (simp add: files_def upd_tr_def map_list_update_same)
    with q show ?thesis by (simp add: files_owned_def)
  qed
  moreover have "rest_inv E S R (upd_tr i ?f s')"
    by (rule rest_upd) (use q i t tsys_inv_tr [OF inv i] in \<open>simp_all add: transfer_ok_def\<close>)
  ultimately show ?thesis using q by (simp add: tsys_inv_split)
qed

lemma owned_release_server:
  assumes inv: "tsys_inv E (Some p) False s"
    and e: "udp_call (udp_transport_release (Some (Some p))) s = (r, s')"
  shows "r = Some None \<and> tsys_inv E None False s'"
proof -
  note p = owner_server [OF inv]
  have nr: "(h, c, p) \<notin> registrants (Some p) False s" for h c
    using transports_not_server [OF inv] by (auto simp: registrants_def)
  note q = rest_release_transport [OF inv p nr e]
  have tl: "transports None s' = (transports (Some p) s)[0 := None]" by (simp add: transports_def q)
  have at: "0 < length (transports (Some p) s)" "transports (Some p) s ! 0 = Some p"
    by (simp_all add: transports_def)
  have ex: "exclusive (transports (Some p) s)" using tsys_invD(5) [OF inv] by (simp add: transports_owned_def)
  have "transports_owned None s'"
    unfolding transports_owned_def tl held_update_None [OF ex at]
    using tsys_invD(5) [OF inv] exclusive_update_None [OF ex] used_remove [OF p(1) used_len [OF inv]] q
    by (simp add: transports_owned_def)
  with q rest_server [of E "Some p" s' None] show ?thesis by (simp add: tsys_inv_split)
qed


section \<open>Operations on files\<close>

abbreviation filo :: "tsys \<Rightarrow> nat \<Rightarrow> tftp_file" where
  "filo s q \<equiv> g_file_pool (ts_file s) ! q"

definition file_change :: "nat \<Rightarrow> tftp_file \<Rightarrow> os \<Rightarrow> tsys \<Rightarrow> tsys" where
  "file_change q x k s =
     s\<lparr>ts_file := (ts_file s)\<lparr>g_file_pool := (g_file_pool (ts_file s))[q := x]\<rparr>, ts_os := k\<rparr>"

lemma file_change_simps [simp]:
  "g_transfer_pool (file_change q x k s) = g_transfer_pool s"
  "ts_udp (file_change q x k s) = ts_udp s" "ts_reactor (file_change q x k s) = ts_reactor s"
  "ts_os (file_change q x k s) = k"
  "g_file_pool (ts_file (file_change q x k s)) = (g_file_pool (ts_file s))[q := x]"
  "registrants S R (file_change q x k s) = registrants S R s"
  "reg_of (file_change q x k s) = reg_of s" "sock_fds (file_change q x k s) = sock_fds s"
  by (simp_all add: file_change_def registrants_def sock_fds_def fun_eq_iff reg_of_def)

lemma file_call_eq:
  "file_call f s = (r, s') \<longleftrightarrow>
     (\<exists>u k. f (ts_file s, ts_os s) = (r, (u, k)) \<and> s' = s\<lparr>ts_file := u, ts_os := k\<rparr>)"
  by (auto simp: file_call_def split: prod.splits)

lemma rest_file_change:
  assumes inv: "rest_inv E S R s"
    and f: "file_inv (ts_file (file_change q x k s), k)"
    and fd: "set (fds k) = (set (fds (ts_os s)) - stream_fds s) \<union> stream_fds (file_change q x k s)"
      "stream_fds (file_change q x k s) \<inter> (E \<union> sock_fds s) = {}"
  shows "rest_inv E S R (file_change q x k s)"
proof -
  have o: "fds_owned E s" "udp_inv (ts_udp s, ts_os s)" using inv by (simp_all add: rest_inv_def)
  have keep: "sock_fds s \<subseteq> set (fds k)" using o(1) fd by (auto simp: fds_owned_def)
  have "udp_inv (ts_udp s, k)" unfolding udp_inv_def fst_conv snd_conv
  proof (intro conjI)
    have sub: "u_fd (sock s p) \<in> set (fds k)" if "p < UDP_TRANSPORT_POOL_SIZE" "u_open (sock s p)" for p
      using keep that by (auto simp: sock_fds_def)
    show "\<forall>i<UDP_TRANSPORT_POOL_SIZE.
        (u_initialized (sock s i) \<longrightarrow> g_transport_used (ts_udp s) ! i) \<and>
        (u_open (sock s i) \<longrightarrow> u_initialized (sock s i) \<and> u_fd (sock s i) \<in> set (fds k) \<and>
           0 \<le> u_fd (sock s i))"
      using o(2) sub by (auto simp: udp_inv_def)
  qed (use o(2) in \<open>auto simp: udp_inv_def\<close>)
  moreover have "fds_owned E (file_change q x k s)"
    using o(1) fd by (auto simp: fds_owned_def)
  ultimately show ?thesis
    using inv f by (simp add: rest_inv_def registrations_owned_def)
qed

lemma owned_file_change:
  assumes inv: "tsys_inv E S R s" and u: "f_in_use x = f_in_use (filo s q)"
    and f: "file_inv (ts_file (file_change q x k s), k)"
    and fd: "set (fds k) = (set (fds (ts_os s)) - stream_fds s) \<union> stream_fds (file_change q x k s)"
      "stream_fds (file_change q x k s) \<inter> (E \<union> sock_fds s) = {}"
  shows "tsys_inv E S R (file_change q x k s)"
proof -
  have "rest_inv E S R (file_change q x k s)"
    using rest_file_change [OF _ f fd] inv by (simp add: tsys_inv_split)
  moreover have "{p. p < length (g_file_pool (ts_file s)) \<and> f_in_use ((g_file_pool (ts_file s))[q := x] ! p)} =
      {p. p < length (g_file_pool (ts_file s)) \<and> f_in_use (filo s p)}"
    using u by (cases "q < length (g_file_pool (ts_file s))")
      (auto simp: nth_list_update list_update_beyond)
  ultimately show ?thesis
    using inv by (simp add: tsys_inv_split files_owned_def files_def transports_owned_def transports_def)
qed

lemma stream_fds_same: "streams k = streams (ts_os s) \<Longrightarrow> stream_fds (file_change q x k s) = stream_fds s"
  by (simp add: stream_fds_def)

lemma fds_split:
  assumes "fds_owned E s"
  shows "set (fds (ts_os s)) = (set (fds (ts_os s)) - stream_fds s) \<union> stream_fds s"
    "stream_fds s \<inter> (E \<union> sock_fds s) = {}"
  using assms by (auto simp: fds_owned_def)

text \<open>A closed slot that stays closed.\<close>

lemma owned_closed_file:
  assumes inv: "tsys_inv E S R s" and c: "\<not> f_open (filo s q)" "\<not> f_open x"
    and u: "f_in_use x = f_in_use (filo s q)" and k: "disk_same (ts_os s) k" "fds k = fds (ts_os s)"
  shows "tsys_inv E S R (file_change q x k s)"
proof (rule owned_file_change [OF inv u])
  have "file_inv (ts_file (file_change q x k s), ts_os s)"
    using file_inv_closed_slot [OF tsys_invD(2) [OF inv], of q x] c by (simp add: file_change_def)
  then show "file_inv (ts_file (file_change q x k s), k)"
    by (rule file_inv_os) (use k streams_okD(2) [OF file_inv_streams [OF tsys_invD(2) [OF inv]]]
      in \<open>auto simp: disk_same_def\<close>)
  have "stream_fds (file_change q x k s) = stream_fds s"
    using k(1) by (intro stream_fds_same) (simp add: disk_same_def)
  then show "set (fds k) = (set (fds (ts_os s)) - stream_fds s) \<union> stream_fds (file_change q x k s)"
    "stream_fds (file_change q x k s) \<inter> (E \<union> sock_fds s) = {}"
    using fds_split [OF tsys_invD(7) [OF inv]] k(2) by simp_all
qed

lemma owned_init_file:
  assumes inv: "tsys_inv E S R s" and c: "\<not> f_open (filo s q)"
    and e: "file_call (tftp_file_init (Some q)) s = (st, s')"
  shows "tsys_inv E S R s' \<and> st = TFTP_OK \<and> s' = file_change q ((filo s q)\<lparr>f_open := False, f_fp := None\<rparr>) (ts_os s) s"
proof -
  have s': "s' = file_change q ((filo s q)\<lparr>f_open := False, f_fp := None\<rparr>) (ts_os s) s" "st = TFTP_OK"
    using e by (auto simp: file_call_eq tftp_file_init_def set_fl_def file_change_def)
  show ?thesis using owned_closed_file [OF inv c, of _ "ts_os s"] s' by simp
qed

text \<open>Acquiring a file and storing it in the transfer.\<close>

lemma owned_acquire_file:
  assumes inv: "tsys_inv E S R s" and i: "i < length (g_transfer_pool s)"
    and t: "t_file (tr s i) = None" "t_in_use (tr s i)" "\<not> t_registered (tr s i)"
    and c: "file_call (tftp_file_acquire (Some x)) s = ((st, p), s')"
  shows "tsys_inv E S R (upd_tr i (\<lambda>t. t\<lparr>t_file := deref None p\<rparr>) s') \<and>
    g_transfer_pool s' = g_transfer_pool s \<and> ts_udp s' = ts_udp s \<and> ts_reactor s' = ts_reactor s \<and>
    ts_os s' = ts_os s \<and>
    (st = TFTP_OK \<and> (\<exists>q. p = Some (Some q) \<and> q < length (g_file_pool (ts_file s)) \<and>
       \<not> f_in_use (filo s q) \<and> \<not> f_open (filo s' q)) \<or>
     st = TFTP_ERR_NO_RESOURCE \<and> p = Some None)"
proof -
  obtain u k where o: "tftp_file_acquire (Some x) (ts_file s, ts_os s) = ((st, p), (u, k))"
    and s': "s' = s\<lparr>ts_file := u, ts_os := k\<rparr>" using c by (auto simp: file_call_eq)
  have k: "k = ts_os s" using file_acquire_effect [OF o] by simp
  have "st = TFTP_OK \<and> (\<exists>q. p = Some (Some q) \<and>
      first_index (\<lambda>f. \<not> f_in_use f) (g_file_pool (ts_file s)) = Some q \<and>
      s' = file_change q ((filo s q)\<lparr>f_in_use := True, f_open := False, f_fp := None\<rparr>) (ts_os s) s) \<or>
    st = TFTP_ERR_NO_RESOURCE \<and> p = Some None \<and> s' = s"
    using file_acquire_effect [OF o] s' by (auto simp: file_change_def)
  then show ?thesis
  proof (elim disjE conjE exE)
    fix q
    let ?x = "(filo s q)\<lparr>f_in_use := True, f_open := False, f_fp := None\<rparr>"
    assume st: "st = TFTP_OK" and p: "p = Some (Some q)"
      and fi: "first_index (\<lambda>f. \<not> f_in_use f) (g_file_pool (ts_file s)) = Some q"
      and s': "s' = file_change q ?x (ts_os s) s"
    have q: "q < length (g_file_pool (ts_file s))" "\<not> f_in_use (filo s q)"
      using fi by (auto simp: first_index_Some_iff)
    have closed: "\<not> f_open (filo s q)"
      using file_inv_not_in_use [OF tsys_invD(2) [OF inv], of q] q by simp
    let ?f = "\<lambda>t. t\<lparr>t_file := Some q\<rparr> :: tftp_transfer"
    have pool: "g_transfer_pool s' = g_transfer_pool s" by (simp add: s')
    have "stream_fds s' = stream_fds s" unfolding s' by (rule stream_fds_same) simp
    then have "rest_inv E S R s'"
      using file_inv_closed_slot [OF tsys_invD(2) [OF inv], of q ?x] closed inv
        fds_split [OF tsys_invD(7) [OF inv]] unfolding s'
      by (intro rest_file_change) (simp_all add: tsys_inv_split file_change_def)
    then have rest: "rest_inv E S R (upd_tr i ?f s')"
      by (rule rest_upd) (use i t pool tsys_inv_tr [OF inv i] in \<open>simp_all add: transfer_ok_def\<close>)
    have fresh: "q \<notin> held (files s)" using tsys_invD(6) [OF inv] q by (simp add: files_owned_def)
    have fe: "files (upd_tr i ?f s') = (files s)[i := Some q]" by (simp add: files_upd) (simp add: files_def pool i)
    have at: "i < length (files s)" "files s ! i = None" using i t(1) by (simp_all add: files_def)
    have "{r. r < length (g_file_pool (ts_file s)) \<and> f_in_use ((g_file_pool (ts_file s))[q := ?x] ! r)} =
        insert q {r. r < length (g_file_pool (ts_file s)) \<and> f_in_use (filo s r)}"
      using q by (auto simp: nth_list_update)
    then have "files_owned (upd_tr i ?f s')"
      unfolding files_owned_def fe held_update_Some [OF at]
      using tsys_invD(6) [OF inv] exclusive_update_Some [OF _ fresh]
      by (simp add: files_owned_def s')
    moreover have "transports_owned S (upd_tr i ?f s')"
    proof -
      have "transports S (upd_tr i ?f s') = transports S s"
        using i pool by (simp add: transports_def upd_tr_def map_list_update_same)
      then show ?thesis using tsys_invD(5) [OF inv] by (simp add: transports_owned_def s')
    qed
    ultimately show ?thesis using rest p st q s' by (simp add: tsys_inv_split)
  next
    assume st: "st = TFTP_ERR_NO_RESOURCE" and p: "p = Some None" and s': "s' = s"
    have "tsys_inv E S R (upd_tr i (\<lambda>t. t\<lparr>t_file := deref None p\<rparr>) s)"
      by (rule owned_cosmetic [OF inv i]) (use t p in \<open>simp add: same_owner_def\<close>)
    with st p s' show ?thesis by simp
  qed
qed

lemma owned_open_file:
  assumes inv: "tsys_inv E S R s" and q: "q < length (g_file_pool (ts_file s))"
    "f_in_use (filo s q)" "\<not> f_open (filo s q)"
    and e: "file_call (tftp_file_open (Some q) (Some path) TFTP_FILE_READ) s = (st, s')"
  shows "tsys_inv E S R s' \<and> (\<exists>x. s' = file_change q x (ts_os s') s \<and>
    script_same (ts_os s) (ts_os s') \<and> fs (ts_os s') = fs (ts_os s) \<and>
    (st = TFTP_OK \<and> f_open x \<and> f_mode x = TFTP_FILE_READ \<and> fs (ts_os s) (c_string path) \<noteq> None \<or>
     st = TFTP_ERR_FILE \<and> \<not> f_open x))"
proof -
  obtain u k where o: "tftp_file_open (Some q) (Some path) TFTP_FILE_READ (ts_file s, ts_os s) = (st, (u, k))"
    and s': "s' = s\<lparr>ts_file := u, ts_os := k\<rparr>" using e by (auto simp: file_call_eq)
  have fi: "file_inv (u, k)"
    by (rule file_inv_open [OF tsys_invD(2) [OF inv] _ _ o]) (use q in \<open>simp_all\<close>)
  note own = tsys_invD(7) [OF inv]
  have ss: "script_same (ts_os s) k" using file_open_effect [OF o] q(3) by simp
  let ?sid = "next_stream (ts_os s)"
  let ?a = "alloc_fd (fds (ts_os s))"
  from file_open_effect [OF o] q(3) consider
      (fail) "st = TFTP_ERR_FILE" "disk_same (ts_os s) k" "fds k = fds (ts_os s)"
        "u = (ts_file s)\<lparr>g_file_pool := (g_file_pool (ts_file s))[q := (filo s q)\<lparr>f_fp := None\<rparr>]\<rparr>"
    | (ok) "st = TFTP_OK" "fds k = ?a # fds (ts_os s)" "fs k = fs (ts_os s)"
        "u = (ts_file s)\<lparr>g_file_pool := (g_file_pool (ts_file s))
           [q := (filo s q)\<lparr>f_fp := Some ?sid, f_mode := TFTP_FILE_READ, f_open := True\<rparr>]\<rparr>"
        "streams k = (streams (ts_os s))(?sid \<mapsto>
           \<lparr>st_path = c_string path, st_fd = ?a, st_pos = 0, st_err = False\<rparr>)"
        "fs (ts_os s) (c_string path) \<noteq> None"
    by fastforce
  then show ?thesis
  proof cases
    let ?x = "(filo s q)\<lparr>f_fp := None\<rparr>"
    case fail
    note st = fail(1) and d = fail(2,3) and u = fail(4)
    have eq: "s' = file_change q ?x k s" using s' u by (simp add: file_change_def)
    have "tsys_inv E S R s'" unfolding eq by (rule owned_closed_file [OF inv q(3) _ _ d(1,2)]) (use q in \<open>simp_all\<close>)
    then show ?thesis
      by (intro conjI exI [of _ ?x]) (use eq d st q ss in \<open>simp_all add: disk_same_def\<close>)
  next
    let ?x = "(filo s q)\<lparr>f_fp := Some ?sid, f_mode := TFTP_FILE_READ, f_open := True\<rparr>"
    case ok
    note st = ok(1) and k = ok(2,3) and u = ok(4) and str = ok(5) and ex = ok(6)
    have eq: "s' = file_change q ?x k s" using s' u by (simp add: file_change_def)
    have none: "streams (ts_os s) ?sid = None"
      using streams_ok_fresh [OF file_inv_streams [OF tsys_invD(2) [OF inv]]] by simp
    have sf: "stream_fds (file_change q ?x k s) = insert ?a (stream_fds s)"
    proof (intro equalityI subsetI)
      fix a assume "a \<in> stream_fds (file_change q ?x k s)"
      then show "a \<in> insert ?a (stream_fds s)"
        unfolding stream_fds_def by (auto simp: str split: if_splits)
    next
      fix a assume "a \<in> insert ?a (stream_fds s)"
      then consider "a = ?a" | sid st where "streams (ts_os s) sid = Some st" "a = st_fd st"
        by (auto simp: stream_fds_def)
      then show "a \<in> stream_fds (file_change q ?x k s)"
      proof cases
        case 1
        then show ?thesis unfolding stream_fds_def by (force simp: str)
      next
        case 2
        with none have "sid \<noteq> ?sid" by auto
        with 2 have "streams k sid = Some st" by (simp add: str)
        with 2 show ?thesis unfolding stream_fds_def by auto
      qed
    qed
    have fresh: "?a \<notin> set (fds (ts_os s))" by simp
    have "tsys_inv E S R s'"
      unfolding eq
    proof (rule owned_file_change [OF inv])
      show "file_inv (ts_file (file_change q ?x k s), k)" using fi u by (simp add: file_change_def)
      show "set (fds k) = (set (fds (ts_os s)) - stream_fds s) \<union> stream_fds (file_change q ?x k s)"
        using own k unfolding sf by (auto simp: fds_owned_def)
      show "stream_fds (file_change q ?x k s) \<inter> (E \<union> sock_fds s) = {}"
        using own fresh unfolding sf by (auto simp: fds_owned_def)
    qed simp
    then show ?thesis
      by (intro conjI exI [of _ ?x]) (use eq k st ex q ss in \<open>simp_all\<close>)
  qed
qed


text \<open>The invariant reads only descriptors and streams of the operating system.\<close>

lemma owned_os:
  assumes "tsys_inv E S R s" "fds k = fds (ts_os s)" "streams k = streams (ts_os s)"
    "next_stream k = next_stream (ts_os s)"
  shows "tsys_inv E S R (s\<lparr>ts_os := k\<rparr>)"
proof -
  have "udp_inv (ts_udp s, k)" "file_inv (ts_file s, k)"
    using assms udp_inv_os [of "ts_udp s" "ts_os s" k] file_inv_os [of "ts_file s" "ts_os s" k]
      streams_okD(2) [OF file_inv_streams [OF tsys_invD(2) [OF assms(1)]]]
    by (auto simp: tsys_inv_def)
  then show ?thesis
    using assms by (simp add: tsys_inv_def fds_owned_def sock_fds_def stream_fds_def
        registrations_owned_def reg_of_def registrants_def transports_owned_def transports_def
        files_owned_def files_def)
qed

lemma os_only:
  assumes "s' = s\<lparr>ts_os := k\<rparr>"
  shows "g_transfer_pool s' = g_transfer_pool s" "ts_udp s' = ts_udp s" "ts_file s' = ts_file s"
    "ts_reactor s' = ts_reactor s"
  by (simp_all add: assms)

lemma send_call:
  assumes "udp_call (udp_transport_send p b n d) s = (st, s')"
  shows "s' = s\<lparr>ts_os := ts_os s'\<rparr> \<and> disk_same (ts_os s) (ts_os s') \<and> fds (ts_os s') = fds (ts_os s) \<and>
    rx (ts_os s') = rx (ts_os s) \<and> polls (ts_os s') = polls (ts_os s)"
  using assms udp_send_effect [of p b n d "(ts_udp s, ts_os s)"]
  by (auto simp: udp_call_def split: prod.splits)

lemma receive_call:
  assumes "udp_call (udp_transport_receive p b n r src) s = (res, s')"
  shows "s' = s\<lparr>ts_os := ts_os s'\<rparr> \<and> disk_same (ts_os s) (ts_os s') \<and> fds (ts_os s') = fds (ts_os s) \<and>
    sent (ts_os s') = sent (ts_os s) \<and> faults (ts_os s') = faults (ts_os s) \<and>
    polls (ts_os s') = polls (ts_os s)"
  using assms udp_receive_effect [of p b n r src "(ts_udp s, ts_os s)"]
  by (auto simp: udp_call_def split: prod.splits)

lemma owned_send:
  assumes "tsys_inv E S R s" "udp_call (udp_transport_send p b n d) s = (st, s')"
  shows "tsys_inv E S R s'"
proof -
  note c = send_call [OF assms(2)]
  have "tsys_inv E S R (s\<lparr>ts_os := ts_os s'\<rparr>)"
    using c by (intro owned_os [OF assms(1)]) (simp_all add: disk_same_def)
  with c show ?thesis by simp
qed

lemma owned_receive:
  assumes "tsys_inv E S R s" "udp_call (udp_transport_receive p b n r src) s = (res, s')"
  shows "tsys_inv E S R s'"
proof -
  note c = receive_call [OF assms(2)]
  have "tsys_inv E S R (s\<lparr>ts_os := ts_os s'\<rparr>)"
    using c by (intro owned_os [OF assms(1)]) (simp_all add: disk_same_def)
  with c show ?thesis by simp
qed

lemma open_file_stream:
  assumes "tsys_inv E S R s" "q < length (g_file_pool (ts_file s))" "f_open (filo s q)"
  shows "\<exists>sid str. f_fp (filo s q) = Some sid \<and> streams (ts_os s) sid = Some str"
  using file_inv_openD [of "(ts_file s, ts_os s)" q] tsys_invD(2) [OF assms(1)] assms(2,3)
  by (metis fst_conv snd_conv)

lemma owned_read_file:
  assumes inv: "tsys_inv E S R s" and q: "q < length (g_file_pool (ts_file s))" "f_open (filo s q)"
    and e: "file_call (tftp_file_read (Some q) (Some b) n (Some x)) s = ((st, b', n'), s')"
  shows "tsys_inv E S R s' \<and> s' = s\<lparr>ts_os := ts_os s'\<rparr> \<and> script_same (ts_os s) (ts_os s') \<and>
    fs (ts_os s') = fs (ts_os s) \<and> fds (ts_os s') = fds (ts_os s) \<and>
    st \<in> {TFTP_OK, TFTP_ERR_FILE, TFTP_ERR_INVALID_STATE} \<and>
    (st = TFTP_OK \<longrightarrow> (\<exists>data. n' = Some (length data) \<and> length data \<le> n \<and> b' = Some (memcpy_at 0 data b)))"
proof -
  obtain u k where o: "tftp_file_read (Some q) (Some b) n (Some x) (ts_file s, ts_os s) = ((st, b', n'), (u, k))"
    and s': "s' = s\<lparr>ts_file := u, ts_os := k\<rparr>" using e by (auto simp: file_call_eq)
  obtain sid str where f: "f_fp (filo s q) = Some sid" "streams (ts_os s) sid = Some str"
    using open_file_stream [OF inv q] by blast
  from file_read_effect [OF o, unfolded fst_conv snd_conv, OF q(2) f] have r: "u = ts_file s" "script_same (ts_os s) k"
      "fs k = fs (ts_os s)" "fds k = fds (ts_os s)" "next_stream k = next_stream (ts_os s)"
      "\<exists>str'. streams k = (streams (ts_os s))(sid \<mapsto> str') \<and> st_fd str' = st_fd str"
      "st \<in> {TFTP_OK, TFTP_ERR_FILE, TFTP_ERR_INVALID_STATE}"
      "st = TFTP_OK \<longrightarrow> (\<exists>data. n' = Some (length data) \<and> length data \<le> n \<and> b' = Some (memcpy_at 0 data b))"
    by auto
  have eq: "s' = file_change q (filo s q) k s" using s' r(1) q(1) by (simp add: file_change_def)
  have sf: "stream_fds (file_change q (filo s q) k s) = stream_fds s"
    using r(6) f(2) by (auto simp: stream_fds_def) (metis option.inject)+
  have "file_inv (u, k)"
    by (rule file_inv_read [OF tsys_invD(2) [OF inv] _ o]) (use q in \<open>simp\<close>)
  then have "tsys_inv E S R s'"
    unfolding eq using fds_split [OF tsys_invD(7) [OF inv]] r(1,4) q(1) sf
    by (intro owned_file_change [OF inv]) (simp_all add: file_change_def)
  with r s' show ?thesis by simp
qed

lemma owned_close_file:
  assumes inv: "tsys_inv E S R s" and q: "q < length (g_file_pool (ts_file s))"
    and e: "file_call (tftp_file_deinit (Some q)) s = (st, s')"
  shows "tsys_inv E S R s' \<and> \<not> f_open (filo s' q) \<and> g_transfer_pool s' = g_transfer_pool s \<and>
    ts_udp s' = ts_udp s \<and> ts_reactor s' = ts_reactor s \<and> script_same (ts_os s) (ts_os s') \<and>
    fs (ts_os s') = fs (ts_os s) \<and> map f_in_use (g_file_pool (ts_file s')) = map f_in_use (g_file_pool (ts_file s))"
proof (cases "f_open (filo s q)")
  case False
  with e have "s' = s" by (simp add: file_call_def tftp_file_deinit_def file_close_closed)
  with inv False show ?thesis by simp
next
  case True
  obtain u k where o: "tftp_file_close (Some q) (ts_file s, ts_os s) = (st, (u, k))"
    and s': "s' = s\<lparr>ts_file := u, ts_os := k\<rparr>" using e by (auto simp: file_call_eq tftp_file_deinit_def)
  obtain sid str where f: "f_fp (filo s q) = Some sid" "streams (ts_os s) sid = Some str"
    using open_file_stream [OF inv q True] by blast
  let ?x = "(filo s q)\<lparr>f_fp := None, f_open := False\<rparr>"
  from file_close_effect [OF o] True f have c: "script_same (ts_os s) k" "fs k = fs (ts_os s)"
      "streams k = (streams (ts_os s))(sid := None)" "fds k = removeAll (st_fd str) (fds (ts_os s))"
      "u = (ts_file s)\<lparr>g_file_pool := (g_file_pool (ts_file s))[q := ?x]\<rparr>" by auto
  have eq: "s' = file_change q ?x k s" using s' c(5) by (simp add: file_change_def)
  note own = tsys_invD(7) [OF inv]
  have inj: "st_fd st \<noteq> st_fd str" if "streams (ts_os s) i = Some st" "i \<noteq> sid" for i st
    using streams_ok_inj [OF file_inv_streams [OF tsys_invD(2) [OF inv]], of i st sid str] that f(2) by simp
  have sf: "stream_fds (file_change q ?x k s) = stream_fds s - {st_fd str}"
  proof (intro equalityI subsetI)
    fix a assume "a \<in> stream_fds (file_change q ?x k s)"
    then show "a \<in> stream_fds s - {st_fd str}"
      unfolding stream_fds_def by (auto simp: c(3) dest: inj split: if_splits)
  next
    fix a assume "a \<in> stream_fds s - {st_fd str}"
    then obtain i st where i: "streams (ts_os s) i = Some st" "a = st_fd st" "a \<noteq> st_fd str"
      by (auto simp: stream_fds_def)
    then have "i \<noteq> sid" using f(2) by auto
    with i have "streams k i = Some st" by (simp add: c(3))
    with i show "a \<in> stream_fds (file_change q ?x k s)" unfolding stream_fds_def by auto
  qed
  have mem: "st_fd str \<in> stream_fds s" using f(2) by (auto simp: stream_fds_def)
  have "file_inv (u, k)"
    by (rule file_inv_close [OF tsys_invD(2) [OF inv] _ o]) (use q in \<open>simp\<close>)
  then have fi: "file_inv (ts_file (file_change q ?x k s), k)" using c(5) by (simp add: file_change_def)
  have "tsys_inv E S R s'"
    unfolding eq
    by (rule owned_file_change [OF inv _ fi]) (use own mem in \<open>auto simp: sf c(4) fds_owned_def\<close>)
  with eq c q show ?thesis by (simp add: map_list_update_same)
qed

lemma owned_release_file:
  assumes inv: "tsys_inv E S R s" and i: "i < length (g_transfer_pool s)"
    and t: "t_file (tr s i) = Some q" "\<not> t_registered (tr s i)" and c: "\<not> f_open (filo s q)"
    and e: "file_call (tftp_file_release (Some (Some q))) s = (r, s')"
  shows "tsys_inv E S R (upd_tr i (\<lambda>t. t\<lparr>t_file := deref None r\<rparr>) s') \<and> r = Some None \<and>
    s' = file_change q ((filo s q)\<lparr>f_in_use := False\<rparr>) (ts_os s) s"
proof -
  note q = owner_file [OF inv i t(1)]
  let ?x = "(filo s q)\<lparr>f_in_use := False\<rparr>"
  let ?f = "\<lambda>t. t\<lparr>t_file := None\<rparr> :: tftp_transfer"
  have s': "s' = file_change q ?x (ts_os s) s" "r = Some None"
    using e by (auto simp: file_call_eq tftp_file_release_def set_fl_def file_change_def)
  have pool: "g_transfer_pool s' = g_transfer_pool s" by (simp add: s')
  have "stream_fds s' = stream_fds s" unfolding s' by (rule stream_fds_same) simp
  then have "rest_inv E S R s'"
    using file_inv_closed_slot [OF tsys_invD(2) [OF inv], of q ?x] c inv
      fds_split [OF tsys_invD(7) [OF inv]] unfolding s'
    by (intro rest_file_change) (simp_all add: tsys_inv_split file_change_def)
  then have rest: "rest_inv E S R (upd_tr i ?f s')"
    by (rule rest_upd) (use i t pool tsys_inv_tr [OF inv i] in \<open>simp_all add: transfer_ok_def\<close>)
  have fe: "files (upd_tr i ?f s') = (files s)[i := None]"
    by (simp add: files_upd) (simp add: files_def pool i)
  have at: "i < length (files s)" "files s ! i = Some q" using i t(1) by (simp_all add: files_def)
  have ex: "exclusive (files s)" using tsys_invD(6) [OF inv] by (simp add: files_owned_def)
  have "{p. p < length (g_file_pool (ts_file s)) \<and> f_in_use ((g_file_pool (ts_file s))[q := ?x] ! p)} =
      {p. p < length (g_file_pool (ts_file s)) \<and> f_in_use (filo s p)} - {q}"
    using q by (auto simp: nth_list_update)
  then have "files_owned (upd_tr i ?f s')"
    unfolding files_owned_def fe held_update_None [OF ex at]
    using tsys_invD(6) [OF inv] exclusive_update_None [OF ex] by (simp add: files_owned_def s')
  moreover have "transports_owned S (upd_tr i ?f s')"
  proof -
    have "transports S (upd_tr i ?f s') = transports S s"
      using i pool by (simp add: transports_def upd_tr_def map_list_update_same)
    then show ?thesis using tsys_invD(5) [OF inv] by (simp add: transports_owned_def s')
  qed
  ultimately show ?thesis using rest s' by (simp add: tsys_inv_split)
qed


section \<open>Registering and unregistering\<close>

lemma reactor_call_eq:
  "reactor_call f s = (r, s') \<longleftrightarrow> (\<exists>u. f (ts_reactor s) = (r, u) \<and> s' = s\<lparr>ts_reactor := u\<rparr>)"
  by (auto simp: reactor_call_def split: prod.splits)

text \<open>Replacing the reactor keeps everything but the table.\<close>

lemma owned_reactor:
  assumes "tsys_inv E S R s" "reactor_inv u"
    and "registrations_owned S' R' (s'\<lparr>ts_reactor := u\<rparr>)" "transports S' s' = transports S s"
    and "s' = s \<or> (\<exists>i b. i < length (g_transfer_pool s) \<and> (b \<longrightarrow> t_in_use (tr s i)) \<and>
      s' = upd_tr i (\<lambda>t. t\<lparr>t_registered := b\<rparr>) s)"
  shows "tsys_inv E S' R' (s'\<lparr>ts_reactor := u\<rparr>)"
proof -
  have pool: "\<forall>t\<in>set (g_transfer_pool s'). transfer_ok t"
  proof (cases "s' = s")
    case True
    then show ?thesis using tsys_invD(4) [OF assms(1)] by simp
  next
    case False
    with assms(5) obtain i b where i: "i < length (g_transfer_pool s)" "b \<longrightarrow> t_in_use (tr s i)"
      and s': "s' = upd_tr i (\<lambda>t. t\<lparr>t_registered := b\<rparr>) s" by blast
    have "transfer_ok ((tr s i)\<lparr>t_registered := b\<rparr>)"
      using tsys_inv_tr [OF assms(1) i(1)] i(2) by (auto simp: transfer_ok_def)
    then show ?thesis using tsys_invD(4) [OF assms(1)]
      by (auto simp: s' upd_tr_def dest!: set_update_subset_insert [THEN subsetD])
  qed
  have parts: "ts_os s' = ts_os s" "ts_udp s' = ts_udp s" "ts_file s' = ts_file s"
    using assms(5) by auto
  have "files s' = files s"
    using assms(5) by (auto simp: files_def upd_tr_def map_list_update_same)
  then show ?thesis
    using assms(1-4) pool parts
    by (simp add: tsys_inv_def transports_owned_def files_owned_def transports_def files_def
        fds_owned_def sock_fds_def stream_fds_def)
qed

lemma registrant_fd_distinct:
  assumes inv: "tsys_inv E S R s" and p: "p < UDP_TRANSPORT_POOL_SIZE" "u_open (sock s p)"
    and nr: "\<And>h c. (h, c, p) \<notin> registrants S R s"
  shows "u_fd (sock s p) \<notin> r_fd ` set (reg_table (ts_reactor s))"
proof
  assume "u_fd (sock s p) \<in> r_fd ` set (reg_table (ts_reactor s))"
  then obtain h c q where r: "(h, c, q) \<in> registrants S R s" "u_fd (sock s q) = u_fd (sock s p)"
    using tsys_invD(8) [OF inv] by (auto simp: registrations_owned_def reg_of_def)
  with nr have "q \<noteq> p" by blast
  moreover have "q < UDP_TRANSPORT_POOL_SIZE" "u_open (sock s q)"
    using unused_not_registered [OF inv r(1)] by auto
  ultimately show False
    using udp_inv_distinctD [OF tsys_invD(1) [OF inv], of q p] p r(2) by simp
qed

lemma register_okD:
  assumes inv: "reactor_inv s" and e: "reactor_register (Some 0) (Some reg) s = (TFTP_OK, u)"
  shows "reactor_inv u \<and> reg_table u = reg_table s @ [reg] \<and>
    rc_max_handlers (g_reactor u) = rc_max_handlers (g_reactor s) \<and>
    rc_initialized (g_reactor u) \<and> rc_running (g_reactor u) = rc_running (g_reactor s) \<and>
    g_reactor_in_use u = g_reactor_in_use s"
proof -
  have "rc_initialized (g_reactor s) \<and> reg_ok reg \<and>
    length (reg_table s) < rc_max_handlers (g_reactor s)"
  proof (rule ccontr)
    assume "\<not> ?thesis"
    from register_fail [OF inv this] e show False by (simp split: if_splits)
  qed
  then have "rc_initialized (g_reactor s)" "reg_ok reg"
    "length (reg_table s) < rc_max_handlers (g_reactor s)" by simp_all
  from register_ok [OF inv this] e show ?thesis by auto
qed

lemma owned_register_transfer:
  assumes inv: "tsys_inv E S R s" and i: "i < length (g_transfer_pool s)"
    and t: "t_transport (tr s i) = Some p" "\<not> t_registered (tr s i)" "t_reactor (tr s i) = Some 0"
      "t_in_use (tr s i)" "u_open (sock s p)"
    and e: "reactor_call (reactor_register (Some 0) (Some (reg_of s Transfer_udp_handler i p))) s = (TFTP_OK, s')"
  shows "tsys_inv E S R (upd_tr i (\<lambda>t. t\<lparr>t_registered := True\<rparr>) s')"
proof -
  let ?f = "\<lambda>t. t\<lparr>t_registered := True\<rparr> :: tftp_transfer"
  let ?s = "upd_tr i ?f s"
  note p = owner_transport [OF inv i t(1)]
  note ri = tsys_invD(3) [OF inv]
  obtain u where o: "reactor_register (Some 0) (Some (reg_of s Transfer_udp_handler i p)) (ts_reactor s) = (TFTP_OK, u)"
    and s': "s' = s\<lparr>ts_reactor := u\<rparr>" using e by (auto simp: reactor_call_eq)
  have u: "reactor_inv u" "reg_table u = reg_table (ts_reactor s) @ [reg_of s Transfer_udp_handler i p]"
    using register_okD [OF ri o] by simp_all
  have nr: "(h, c, p) \<notin> registrants S R s" for h c by (rule owner_not_registrant [OF inv i t(1,2)])
  have g: "registrants S R ?s = insert (Transfer_udp_handler, i, p) (registrants S R s)"
    using i t(1) by (auto simp: registrants_def tr_upd_if split: if_splits)
  have ro: "registrations_owned S R s" by (rule tsys_invD(8) [OF inv])
  have "registrations_owned S R (?s\<lparr>ts_reactor := u\<rparr>)"
  proof -
    have gs: "registrants S R (?s\<lparr>ts_reactor := u\<rparr>) = registrants S R ?s"
      "reg_of (?s\<lparr>ts_reactor := u\<rparr>) = reg_of s" by (simp_all add: registrants_def fun_eq_iff reg_of_def)
    have "\<forall>j<length (g_transfer_pool ?s). t_registered (tr ?s j) \<longrightarrow>
        t_transport (tr ?s j) \<noteq> None \<and> t_reactor (tr ?s j) = Some 0"
      using ro i t by (simp add: registrations_owned_def tr_upd_if)
    then show ?thesis
      using ro registrant_fd_distinct [OF inv p(1) t(5) nr] t(5)
      unfolding registrations_owned_def gs g
      by (simp add: u(2)) (simp add: reg_of_def)
  qed
  moreover have "transports S ?s = transports S s"
    using i by (simp add: transports_def upd_tr_def map_list_update_same)
  ultimately have "tsys_inv E S R (?s\<lparr>ts_reactor := u\<rparr>)"
    by (rule owned_reactor [OF inv u(1)]) (use i t in blast)
  moreover have "upd_tr i ?f s' = ?s\<lparr>ts_reactor := u\<rparr>" by (simp add: s' upd_tr_def)
  ultimately show ?thesis by simp
qed

lemma remove_fd_distinct:
  assumes "distinct (map r_fd t)" "r \<in> set t"
  shows "set (remove_fd (r_fd r) t) = set t - {r}" "distinct (map r_fd (remove_fd (r_fd r) t))"
proof -
  have "set (remove_fd (r_fd r) t) = set t - {r} \<and> distinct (map r_fd (remove_fd (r_fd r) t))"
    using assms
  proof (induction t)
    case (Cons x t)
    then have sub: "set (remove_fd (r_fd r) t) \<subseteq> set t" by (simp add: set_remove_fd_subset)
    with Cons show ?case by (auto simp: image_iff)
  qed simp
  then show "set (remove_fd (r_fd r) t) = set t - {r}" "distinct (map r_fd (remove_fd (r_fd r) t))"
    by simp_all
qed

lemma reg_of_inj:
  assumes "reg_of s h c p = reg_of s h' c' p'"
  shows "h = h' \<and> c = c'"
  using assms by (simp add: reg_of_def)

lemma reg_imageI: "(h, c, p) \<in> X \<Longrightarrow> reg_of s h c p \<in> (\<lambda>(h, c, p). reg_of s h c p) ` X"
  by (rule rev_image_eqI [of "(h, c, p)"]) simp_all

lemma entries_minus_one:
  assumes "\<And>q. (h, c, q) \<in> X \<Longrightarrow> q = p"
  shows "(\<lambda>(h, c, q). reg_of s h c q) ` (X - {(h, c, p)}) =
    (\<lambda>(h, c, q). reg_of s h c q) ` X - {reg_of s h c p}"
proof (intro equalityI subsetI)
  fix r assume "r \<in> (\<lambda>(h, c, q). reg_of s h c q) ` (X - {(h, c, p)})"
  then obtain h' c' q where m: "(h', c', q) \<in> X" "(h', c', q) \<noteq> (h, c, p)" "r = reg_of s h' c' q"
    by auto
  then have "r \<noteq> reg_of s h c p" using assms reg_of_inj [of s h' c' q h c p] by auto
  with m show "r \<in> (\<lambda>(h, c, q). reg_of s h c q) ` X - {reg_of s h c p}"
    using reg_imageI [OF m(1), of s] by simp
next
  fix r assume "r \<in> (\<lambda>(h, c, q). reg_of s h c q) ` X - {reg_of s h c p}"
  then obtain h' c' q where m: "(h', c', q) \<in> X" "r = reg_of s h' c' q" "r \<noteq> reg_of s h c p"
    by auto
  then have "(h', c', q) \<in> X - {(h, c, p)}" by auto
  from reg_imageI [OF this, of s] m(2)
  show "r \<in> (\<lambda>(h, c, q). reg_of s h c q) ` (X - {(h, c, p)})" by simp
qed

lemma registrant_initialized:
  assumes inv: "tsys_inv E S R s" and m: "(h, c, p) \<in> registrants S R s"
  shows "rc_initialized (g_reactor (ts_reactor s))"
proof -
  have "reg_table (ts_reactor s) \<noteq> []"
    using tsys_invD(8) [OF inv] reg_imageI [OF m, of s] by (auto simp: registrations_owned_def)
  then have "0 < rc_registration_count (g_reactor (ts_reactor s))"
    using length_reg_table [OF tsys_invD(3) [OF inv]] by (cases "reg_table (ts_reactor s)") auto
  then show ?thesis using tsys_invD(3) [OF inv] by (simp add: reactor_inv_def)
qed

lemma unregister_call:
  assumes inv: "tsys_inv E S R s" and m: "(h, c, p) \<in> registrants S R s"
    and e: "reactor_call (reactor_unregister (Some 0) (u_fd (sock s p))) s = (st, s')"
  shows "st = TFTP_OK \<and> (\<exists>u. s' = s\<lparr>ts_reactor := u\<rparr> \<and> reactor_inv u \<and>
    set (reg_table u) = set (reg_table (ts_reactor s)) - {reg_of s h c p} \<and>
    distinct (map r_fd (reg_table u)) \<and> rc_initialized (g_reactor u) \<and>
    rc_max_handlers (g_reactor u) = rc_max_handlers (g_reactor (ts_reactor s)) \<and>
    rc_running (g_reactor u) = rc_running (g_reactor (ts_reactor s)) \<and>
    g_reactor_in_use u = g_reactor_in_use (ts_reactor s))"
proof -
  have ro: "registrations_owned S R s" by (rule tsys_invD(8) [OF inv])
  have init: "rc_initialized (g_reactor (ts_reactor s))" by (rule registrant_initialized [OF inv m])
  have mem: "reg_of s h c p \<in> set (reg_table (ts_reactor s))"
    using reg_imageI [OF m] ro by (simp add: registrations_owned_def)
  have fd: "r_fd (reg_of s h c p) = u_fd (sock s p)" by (simp add: reg_of_def)
  then have "u_fd (sock s p) \<in> r_fd ` set (reg_table (ts_reactor s))" using mem by force
  from unregister_ok [OF tsys_invD(3) [OF inv] init this] obtain u where
    o: "reactor_unregister (Some 0) (u_fd (sock s p)) (ts_reactor s) = (TFTP_OK, u)"
    and u: "reg_table u = remove_fd (u_fd (sock s p)) (reg_table (ts_reactor s))" "reactor_inv u"
      "rc_max_handlers (g_reactor u) = rc_max_handlers (g_reactor (ts_reactor s))"
      "rc_initialized (g_reactor u)" "rc_running (g_reactor u) = rc_running (g_reactor (ts_reactor s))"
      "g_reactor_in_use u = g_reactor_in_use (ts_reactor s)"
    by blast
  have d: "distinct (map r_fd (reg_table (ts_reactor s)))" using ro by (simp add: registrations_owned_def)
  have "st = TFTP_OK" "s' = s\<lparr>ts_reactor := u\<rparr>" using e o by (auto simp: reactor_call_eq)
  with u remove_fd_distinct [OF d mem, unfolded fd] show ?thesis by auto
qed

lemma owned_unregister_transfer:
  assumes inv: "tsys_inv E S R s" and i: "i < length (g_transfer_pool s)"
    and t: "t_transport (tr s i) = Some p" "t_registered (tr s i)"
    and e: "reactor_call (reactor_unregister (Some 0) (u_fd (sock s p))) s = (st, s')"
  shows "tsys_inv E S R (upd_tr i (\<lambda>t. t\<lparr>t_registered := False\<rparr>) s') \<and> st = TFTP_OK \<and>
    s' = s\<lparr>ts_reactor := ts_reactor s'\<rparr> \<and> rc_initialized (g_reactor (ts_reactor s')) \<and>
    rc_running (g_reactor (ts_reactor s')) = rc_running (g_reactor (ts_reactor s)) \<and>
    rc_max_handlers (g_reactor (ts_reactor s')) = rc_max_handlers (g_reactor (ts_reactor s)) \<and>
    g_reactor_in_use (ts_reactor s') = g_reactor_in_use (ts_reactor s)"
proof -
  let ?f = "\<lambda>t. t\<lparr>t_registered := False\<rparr> :: tftp_transfer"
  let ?s = "upd_tr i ?f s"
  have m: "(Transfer_udp_handler, i, p) \<in> registrants S R s" using i t by (auto simp: registrants_def)
  from unregister_call [OF inv m e] obtain u where st: "st = TFTP_OK" and s': "s' = s\<lparr>ts_reactor := u\<rparr>"
    and u: "reactor_inv u" "set (reg_table u) = set (reg_table (ts_reactor s)) - {reg_of s Transfer_udp_handler i p}"
      "distinct (map r_fd (reg_table u))" "rc_initialized (g_reactor u)"
      "rc_running (g_reactor u) = rc_running (g_reactor (ts_reactor s))"
      "rc_max_handlers (g_reactor u) = rc_max_handlers (g_reactor (ts_reactor s))"
      "g_reactor_in_use u = g_reactor_in_use (ts_reactor s)" by blast
  have ro: "registrations_owned S R s" by (rule tsys_invD(8) [OF inv])
  have e: "t_registered (tr ?s j) = (j \<noteq> i \<and> t_registered (tr s j))"
    "t_transport (tr ?s j) = t_transport (tr s j)" for j
    using i by (simp_all add: tr_upd_if)
  have g: "registrants S R ?s = registrants S R s - {(Transfer_udp_handler, i, p)}"
    using t by (auto simp: registrants_def e)
  have only: "q = p" if "(Transfer_udp_handler, i, q) \<in> registrants S R s" for q
    using that t by (auto simp: registrants_def)
  have img: "(\<lambda>(h, c, q). reg_of s h c q) ` registrants S R ?s =
      (\<lambda>(h, c, q). reg_of s h c q) ` registrants S R s - {reg_of s Transfer_udp_handler i p}"
    unfolding g by (rule entries_minus_one) (rule only)
  have "registrations_owned S R (?s\<lparr>ts_reactor := u\<rparr>)"
  proof -
    have gs: "registrants S R (?s\<lparr>ts_reactor := u\<rparr>) = registrants S R ?s"
      "reg_of (?s\<lparr>ts_reactor := u\<rparr>) = reg_of s" by (simp_all add: registrants_def fun_eq_iff reg_of_def)
    have "\<forall>j<length (g_transfer_pool ?s). t_registered (tr ?s j) \<longrightarrow>
        t_transport (tr ?s j) \<noteq> None \<and> t_reactor (tr ?s j) = Some 0"
      using ro i by (simp add: registrations_owned_def tr_upd_if)
    moreover have "\<forall>(h, c, q)\<in>registrants S R ?s. u_open (sock s q)"
      using ro unfolding g by (auto simp: registrations_owned_def)
    ultimately show ?thesis
      using ro u(2,3) img by (simp add: registrations_owned_def gs)
  qed
  moreover have "transports S ?s = transports S s"
    using i by (simp add: transports_def upd_tr_def map_list_update_same)
  ultimately have "tsys_inv E S R (?s\<lparr>ts_reactor := u\<rparr>)"
    by (rule owned_reactor [OF inv u(1)])
      (rule disjI2, intro exI [of _ i] exI [of _ False] conjI, use i in \<open>simp_all\<close>)
  moreover have "upd_tr i ?f s' = ?s\<lparr>ts_reactor := u\<rparr>" by (simp add: s' upd_tr_def)
  ultimately show ?thesis using st s' u by simp
qed

text \<open>The server's own entry.\<close>

lemma owned_register_server:
  assumes inv: "tsys_inv E (Some p) False s" and op: "u_open (sock s p)"
    and e: "reactor_call (reactor_register (Some 0) (Some (reg_of s Server_udp_handler 0 p))) s = (TFTP_OK, s')"
  shows "tsys_inv E (Some p) True s'"
proof -
  note p = owner_server [OF inv]
  note ri = tsys_invD(3) [OF inv]
  obtain u where o: "reactor_register (Some 0) (Some (reg_of s Server_udp_handler 0 p)) (ts_reactor s) = (TFTP_OK, u)"
    and s': "s' = s\<lparr>ts_reactor := u\<rparr>" using e by (auto simp: reactor_call_eq)
  have u: "reactor_inv u" "reg_table u = reg_table (ts_reactor s) @ [reg_of s Server_udp_handler 0 p]"
    using register_okD [OF ri o] by simp_all
  have nr: "(h, c, p) \<notin> registrants (Some p) False s" for h c
    using transports_not_server [OF inv] by (auto simp: registrants_def)
  have g: "registrants (Some p) True s = insert (Server_udp_handler, 0, p) (registrants (Some p) False s)"
    by (auto simp: registrants_def)
  have gs: "registrants (Some p) True (s\<lparr>ts_reactor := u\<rparr>) = registrants (Some p) True s"
    "reg_of (s\<lparr>ts_reactor := u\<rparr>) = reg_of s" by (simp_all add: registrants_def fun_eq_iff reg_of_def)
  have "registrations_owned (Some p) True (s\<lparr>ts_reactor := u\<rparr>)"
    using tsys_invD(8) [OF inv] registrant_fd_distinct [OF inv p(1) op nr] op
    unfolding registrations_owned_def gs g by (simp add: u(2)) (simp add: reg_of_def)
  from owned_reactor [OF inv u(1) this] s' show ?thesis by simp
qed

lemma owned_unregister_server:
  assumes inv: "tsys_inv E (Some p) True s"
    and e: "reactor_call (reactor_unregister (Some 0) (u_fd (sock s p))) s = (st, s')"
  shows "tsys_inv E (Some p) False s' \<and> st = TFTP_OK \<and> s' = s\<lparr>ts_reactor := ts_reactor s'\<rparr> \<and>
    rc_initialized (g_reactor (ts_reactor s'))"
proof -
  have m: "(Server_udp_handler, 0, p) \<in> registrants (Some p) True s" by (auto simp: registrants_def)
  from unregister_call [OF inv m e] obtain u where st: "st = TFTP_OK" and s': "s' = s\<lparr>ts_reactor := u\<rparr>"
    and u: "reactor_inv u" "set (reg_table u) = set (reg_table (ts_reactor s)) - {reg_of s Server_udp_handler 0 p}"
      "distinct (map r_fd (reg_table u))" "rc_initialized (g_reactor u)" by blast
  have ro: "registrations_owned (Some p) True s" by (rule tsys_invD(8) [OF inv])
  have g: "registrants (Some p) True s = insert (Server_udp_handler, 0, p) (registrants (Some p) False s)"
    "\<forall>(h, c, q)\<in>registrants (Some p) False s. h = Transfer_udp_handler"
    by (auto simp: registrants_def)
  have img: "(\<lambda>(h, c, q). reg_of s h c q) ` registrants (Some p) False s =
      (\<lambda>(h, c, q). reg_of s h c q) ` registrants (Some p) True s - {reg_of s Server_udp_handler 0 p}"
  proof -
    have "registrants (Some p) False s = registrants (Some p) True s - {(Server_udp_handler, 0, p)}"
      by (auto simp: registrants_def)
    moreover have "(\<lambda>(h, c, q). reg_of s h c q) ` (registrants (Some p) True s - {(Server_udp_handler, 0, p)}) =
        (\<lambda>(h, c, q). reg_of s h c q) ` registrants (Some p) True s - {reg_of s Server_udp_handler 0 p}"
      by (rule entries_minus_one) (auto simp: registrants_def)
    ultimately show ?thesis by simp
  qed
  have gs: "registrants (Some p) False (s\<lparr>ts_reactor := u\<rparr>) = registrants (Some p) False s"
    "reg_of (s\<lparr>ts_reactor := u\<rparr>) = reg_of s" by (simp_all add: registrants_def fun_eq_iff reg_of_def)
  have "registrations_owned (Some p) False (s\<lparr>ts_reactor := u\<rparr>)"
    unfolding registrations_owned_def gs
  proof (intro conjI)
    have "set (reg_table (ts_reactor s)) = (\<lambda>(h, c, p). reg_of s h c p) ` registrants (Some p) True s"
      using ro unfolding registrations_owned_def by blast
    then show "set (reg_table (ts_reactor (s\<lparr>ts_reactor := u\<rparr>))) =
        (\<lambda>(h, c, q). reg_of s h c q) ` registrants (Some p) False s"
      unfolding img using u(2) by simp
    have "\<forall>(h, c, q)\<in>registrants (Some p) True s. u_open (sock s q)"
      using ro unfolding registrations_owned_def by blast
    then show "\<forall>(h, c, q)\<in>registrants (Some p) False s. u_open (sock (s\<lparr>ts_reactor := u\<rparr>) q)"
      unfolding g(1) by simp
  qed (use ro u(3) in \<open>simp_all add: registrations_owned_def\<close>)
  from owned_reactor [OF inv u(1) this] s' st u(4) show ?thesis by simp
qed

section \<open>Retiring a transfer\<close>

lemma owned_reset:
  assumes inv: "tsys_inv E S R s" and i: "i < length (g_transfer_pool s)"
    and t: "t_transport (tr s i) = None" "t_file (tr s i) = None" "\<not> t_registered (tr s i)"
  shows "tsys_inv E S R (transfer_reset (Some i) s)"
proof -
  let ?f = "\<lambda>t. (tftp_transfer_zero (length (t_filename t)))\<lparr>t_state := TFTP_TRANSFER_IDLE\<rparr>"
  have r: "transfer_reset (Some i) s = upd_tr i ?f s" by (simp add: transfer_reset_def)
  have "rest_inv E S R (upd_tr i ?f s)"
    by (rule rest_upd) (use inv i t tsys_inv_tr [OF inv i]
      in \<open>auto simp: tsys_inv_split transfer_ok_def tftp_transfer_zero_def\<close>)
  moreover have "transports S (upd_tr i ?f s) = transports S s" "files (upd_tr i ?f s) = files s"
    using i t by (simp_all add: transports_def files_def upd_tr_def map_list_update_same tftp_transfer_zero_def)
  ultimately show ?thesis
    using inv by (simp add: r tsys_inv_split transports_owned_def files_owned_def)
qed

lemma owned_take_transfer:
  assumes inv: "tsys_inv E S R s" and i: "i < length (g_transfer_pool s)"
    and t: "t_transport (tr s i) = None" "t_file (tr s i) = None" "\<not> t_registered (tr s i)"
  shows "tsys_inv E S R (upd_tr i (\<lambda>t. t\<lparr>t_in_use := True\<rparr>) s)"
proof -
  let ?f = "\<lambda>t. t\<lparr>t_in_use := True\<rparr> :: tftp_transfer"
  have "rest_inv E S R (upd_tr i ?f s)"
    by (rule rest_upd) (use inv i t tsys_inv_tr [OF inv i] in \<open>auto simp: tsys_inv_split transfer_ok_def\<close>)
  moreover have "transports S (upd_tr i ?f s) = transports S s" "files (upd_tr i ?f s) = files s"
    using i by (simp_all add: transports_def files_def upd_tr_def map_list_update_same)
  ultimately show ?thesis
    using inv by (simp add: tsys_inv_split transports_owned_def files_owned_def)
qed

end
