(* ===== verification/Transfer_Safety.thy ===== *)
theory Transfer_Safety
  imports Tftp_Resources
begin

text \<open>
  The operations of the transfer module keep the resource invariant, whatever network, disk
  and kernel answer, and touch nothing but their own transfer (\<open>own_step\<close>); its clean-up
  leaves the transfer with nothing.
\<close>

section \<open>Steps of one transfer\<close>

text \<open>
  \<open>own_step i s s'\<close>: only transfer \<open>i\<close> changed among the transfers, the files on disk are
  those of before, no poll result was taken, and the reactor kept its flags and its bound.
\<close>

definition own_step :: "nat \<Rightarrow> tsys \<Rightarrow> tsys \<Rightarrow> bool" where
  "own_step i s s' \<longleftrightarrow> length (g_transfer_pool s') = length (g_transfer_pool s) \<and>
     (\<forall>j. j \<noteq> i \<longrightarrow> tr s' j = tr s j) \<and> fs (ts_os s') = fs (ts_os s) \<and>
     polls (ts_os s') = polls (ts_os s) \<and>
     length (t_filename (tr s' i)) = length (t_filename (tr s i)) \<and>
     rc_initialized (g_reactor (ts_reactor s')) = rc_initialized (g_reactor (ts_reactor s)) \<and>
     rc_running (g_reactor (ts_reactor s')) = rc_running (g_reactor (ts_reactor s)) \<and>
     rc_max_handlers (g_reactor (ts_reactor s')) = rc_max_handlers (g_reactor (ts_reactor s)) \<and>
     g_reactor_in_use (ts_reactor s') = g_reactor_in_use (ts_reactor s)"

lemma own_step_refl [simp]: "own_step i s s"
  by (simp add: own_step_def)

lemma own_step_trans: "own_step i a b \<Longrightarrow> own_step i b c \<Longrightarrow> own_step i a c"
  by (simp add: own_step_def)

lemma own_step_len: "own_step i s s' \<Longrightarrow> length (g_transfer_pool s') = length (g_transfer_pool s)"
  by (simp add: own_step_def)

lemma own_step_name: "own_step i s s' \<Longrightarrow> length (t_filename (tr s' i)) = length (t_filename (tr s i))"
  by (simp add: own_step_def)

lemma own_step_other: "own_step i s s' \<Longrightarrow> j \<noteq> i \<Longrightarrow> tr s' j = tr s j"
  by (simp add: own_step_def)

lemma own_step_upd:
  "length (t_filename (f (tr s i))) = length (t_filename (tr s i)) \<Longrightarrow> own_step i s (upd_tr i f s)"
  by (cases "i < length (g_transfer_pool s)") (simp_all add: own_step_def, simp_all add: upd_tr_def list_update_beyond)

lemma own_step_parts:
  "g_transfer_pool s' = g_transfer_pool s \<Longrightarrow> fs (ts_os s') = fs (ts_os s) \<Longrightarrow>
   polls (ts_os s') = polls (ts_os s) \<Longrightarrow>
   ts_reactor s' = ts_reactor s \<Longrightarrow> own_step i s s'"
  by (simp add: own_step_def)

lemma own_step_pool:
  "g_transfer_pool s' = g_transfer_pool s \<Longrightarrow> fs (ts_os s') = fs (ts_os s) \<Longrightarrow>
   polls (ts_os s') = polls (ts_os s) \<Longrightarrow>
   rc_initialized (g_reactor (ts_reactor s')) = rc_initialized (g_reactor (ts_reactor s)) \<Longrightarrow>
   rc_running (g_reactor (ts_reactor s')) = rc_running (g_reactor (ts_reactor s)) \<Longrightarrow>
   rc_max_handlers (g_reactor (ts_reactor s')) = rc_max_handlers (g_reactor (ts_reactor s)) \<Longrightarrow>
   g_reactor_in_use (ts_reactor s') = g_reactor_in_use (ts_reactor s) \<Longrightarrow> own_step i s s'"
  by (simp add: own_step_def)

lemma own_step_send:
  assumes "udp_call (udp_transport_send p b n d) s = (st, s')"
  shows "own_step i s s'"
proof -
  have o: "s' = s\<lparr>ts_os := ts_os s'\<rparr>" and d: "disk_same (ts_os s) (ts_os s')"
    "polls (ts_os s') = polls (ts_os s)"
    using send_call [OF assms] by blast+
  show ?thesis
    by (rule own_step_parts [OF os_only(1) [OF o] _ _ os_only(4) [OF o]]) (use d in \<open>simp_all add: disk_same_def\<close>)
qed

lemma own_step_receive:
  assumes "udp_call (udp_transport_receive p b n r src) s = (res, s')"
  shows "own_step i s s'"
proof -
  have o: "s' = s\<lparr>ts_os := ts_os s'\<rparr>" and d: "disk_same (ts_os s) (ts_os s')"
    "polls (ts_os s') = polls (ts_os s)"
    using receive_call [OF assms] by blast+
  show ?thesis
    by (rule own_step_parts [OF os_only(1) [OF o] _ _ os_only(4) [OF o]]) (use d in \<open>simp_all add: disk_same_def\<close>)
qed

text \<open>What a transfer holds: the five fields that say so.\<close>

definition holds_same :: "tftp_transfer \<Rightarrow> tftp_transfer \<Rightarrow> bool" where
  "holds_same t t' \<longleftrightarrow> t_in_use t' = t_in_use t \<and> t_initialized t' = t_initialized t \<and>
     t_registered t' = t_registered t \<and> t_transport t' = t_transport t \<and> t_file t' = t_file t \<and>
     t_reactor t' = t_reactor t"

lemma holds_same_refl [simp]: "holds_same t t"
  by (simp add: holds_same_def)

section \<open>Sending the next block\<close>

lemma upd_tr_upd_tr [simp]:
  "i < length (g_transfer_pool s) \<Longrightarrow> upd_tr i f (upd_tr i g s) = upd_tr i (\<lambda>t. f (g t)) s"
  by (simp add: upd_tr_def)

lemma read_next_block:
  assumes inv: "tsys_inv E S R s" and i: "i < length (g_transfer_pool s)"
    and r: "file_call (tftp_file_read (t_file (tr s i)) (Some (replicate TFTP_BLOCK_SIZE 0))
      TFTP_BLOCK_SIZE (Some 0)) s = ((st, b, n), s1)"
  shows "tsys_inv E S R s1 \<and> s1 = s\<lparr>ts_os := ts_os s1\<rparr> \<and> fs (ts_os s1) = fs (ts_os s) \<and>
    script_same (ts_os s) (ts_os s1) \<and>
    (st = TFTP_OK \<longrightarrow> (\<exists>data. n = Some (length data) \<and> length data \<le> TFTP_BLOCK_SIZE \<and>
       b = Some (data @ replicate (TFTP_BLOCK_SIZE - length data) 0)))"
proof (cases "\<exists>q. t_file (tr s i) = Some q \<and> f_open (filo s q)")
  case True
  then obtain q where q: "t_file (tr s i) = Some q" "f_open (filo s q)" by blast
  from owned_read_file [OF inv owner_file(1) [OF inv i q(1)] q(2) r [unfolded q(1)]]
  show ?thesis by (auto simp: memcpy_at_def)
next
  case False
  with r inv show ?thesis by (auto simp: file_call_def tftp_file_read_def split: option.splits)
qed

text \<open>
  The step without its dead branches: the packet of a block that was read always fits, and it
  is the encoding of the next DATA message.
\<close>

lemma send_next_unfold:
  assumes inv: "tsys_inv E S R s" and i: "i < length (g_transfer_pool s)"
    and r: "file_call (tftp_file_read (t_file (tr s i)) (Some (replicate TFTP_BLOCK_SIZE 0))
      TFTP_BLOCK_SIZE (Some 0)) s = ((st, b, n), s1)"
  shows "st \<noteq> TFTP_OK \<and> transfer_send_next_data i s = (st, s1) \<or>
    st = TFTP_OK \<and> (\<exists>data buf. n = Some (length data) \<and> length data \<le> TFTP_BLOCK_SIZE \<and>
      b = Some (data @ replicate (TFTP_BLOCK_SIZE - length data) 0) \<and>
      length buf = TFTP_MAX_PACKET_SIZE \<and>
      take (4 + length data) buf = encode (Data (t_block (tr s i) + 1) data) \<and>
      transfer_send_next_data i s =
        (case udp_call (udp_transport_send (t_transport (tr s i)) (Some buf) (4 + length data)
                 (Some (t_peer (tr s i))))
               (upd_tr i (\<lambda>t. t\<lparr>t_block := t_block t + 1, t_packet_buffer := buf,
                  t_packet_length := 4 + length data, t_final_data := length data < TFTP_BLOCK_SIZE,
                  t_expected_block := t_block t + 1\<rparr>) s1) of
           (st, s3) \<Rightarrow> if st \<noteq> TFTP_OK then (st, s3)
             else (TFTP_OK, upd_tr i (\<lambda>t. t\<lparr>t_state := TFTP_TRANSFER_WAIT_ACK\<rparr>) s3)))"
proof (cases "st = TFTP_OK")
  case False
  with r show ?thesis by (simp add: transfer_send_next_data_def)
next
  case True
  from read_next_block [OF inv i r] True obtain data where s1: "s1 = s\<lparr>ts_os := ts_os s1\<rparr>"
    and d: "n = Some (length data)" "length data \<le> TFTP_BLOCK_SIZE"
      "b = Some (data @ replicate (TFTP_BLOCK_SIZE - length data) 0)" by blast
  have pool: "g_transfer_pool s1 = g_transfer_pool s" using os_only(1) [OF s1] .
  have len: "length (t_packet_buffer (tr s i)) = TFTP_MAX_PACKET_SIZE"
    using tsys_inv_tr [OF inv i] by (simp add: transfer_ok_def)
  let ?m = "Data (t_block (tr s i) + 1) data"
  let ?buf = "encode ?m @ drop (4 + length data) (t_packet_buffer (tr s i))"
  have bd: "tftp_packet_build_data (t_block (tr s i) + 1) b (deref 0 n)
      (Some (t_packet_buffer (tr s i))) TFTP_MAX_PACKET_SIZE (Some 0) = (TFTP_OK, Some ?buf, Some (4 + length data))"
    using build_data_encode [of "length data" TFTP_MAX_PACKET_SIZE "t_packet_buffer (tr s i)"
        "data @ replicate (TFTP_BLOCK_SIZE - length data) 0" "t_block (tr s i) + 1" 0] d len
    by (simp add: tftp_defs)
  have "length ?buf = TFTP_MAX_PACKET_SIZE" "take (4 + length data) ?buf = encode ?m"
    using len d(2) by (simp_all add: tftp_defs)
  moreover have "transfer_send_next_data i s =
        (case udp_call (udp_transport_send (t_transport (tr s i)) (Some ?buf) (4 + length data)
                 (Some (t_peer (tr s i))))
               (upd_tr i (\<lambda>t. t\<lparr>t_block := t_block t + 1, t_packet_buffer := ?buf,
                  t_packet_length := 4 + length data, t_final_data := length data < TFTP_BLOCK_SIZE,
                  t_expected_block := t_block t + 1\<rparr>) s1) of
           (st, s3) \<Rightarrow> if st \<noteq> TFTP_OK then (st, s3)
             else (TFTP_OK, upd_tr i (\<lambda>t. t\<lparr>t_state := TFTP_TRANSFER_WAIT_ACK\<rparr>) s3))"
    using True i pool bd
    by (simp add: transfer_send_next_data_def r Let_def d tftp_packet_is_final_data_def)
  ultimately show ?thesis using True d by blast
qed

lemma send_next_safe:
  assumes inv: "tsys_inv E S R s" and i: "i < length (g_transfer_pool s)"
    and e: "transfer_send_next_data i s = (st, s')"
  shows "tsys_inv E S R s' \<and> own_step i s s' \<and> holds_same (tr s i) (tr s' i) \<and>
    (st = TFTP_OK \<longrightarrow> t_state (tr s' i) = TFTP_TRANSFER_WAIT_ACK) \<and>
    (st \<noteq> TFTP_OK \<longrightarrow> t_state (tr s' i) = t_state (tr s i))"
proof -
  obtain r1 b n s1 where r: "file_call (tftp_file_read (t_file (tr s i))
      (Some (replicate TFTP_BLOCK_SIZE 0)) TFTP_BLOCK_SIZE (Some 0)) s = ((r1, b, n), s1)"
    by (metis prod.collapse)
  from read_next_block [OF inv i r] have s1: "tsys_inv E S R s1" "s1 = s\<lparr>ts_os := ts_os s1\<rparr>"
    "fs (ts_os s1) = fs (ts_os s)" "polls (ts_os s1) = polls (ts_os s)" by (auto simp: script_same_def)
  note p1 = os_only [OF s1(2)]
  have o1: "own_step i s s1" by (rule own_step_parts [OF p1(1) s1(3,4) p1(4)])
  have i1: "i < length (g_transfer_pool s1)" using i p1(1) by simp
  from send_next_unfold [OF inv i r] show ?thesis
  proof (elim disjE conjE exE)
    assume "r1 \<noteq> TFTP_OK" "transfer_send_next_data i s = (r1, s1)"
    with e s1 o1 p1 show ?thesis by simp
  next
    fix data buf :: bytes
    assume buf: "length buf = TFTP_MAX_PACKET_SIZE"
    let ?f = "\<lambda>t. t\<lparr>t_block := t_block t + 1, t_packet_buffer := buf,
        t_packet_length := 4 + length data, t_final_data := length data < TFTP_BLOCK_SIZE,
        t_expected_block := t_block t + 1\<rparr> :: tftp_transfer"
    let ?s2 = "upd_tr i ?f s1"
    obtain st3 s3 where x: "udp_call (udp_transport_send (t_transport (tr s i)) (Some buf) (4 + length data)
        (Some (t_peer (tr s i)))) ?s2 = (st3, s3)" by (meson surj_pair)
    assume "transfer_send_next_data i s =
        (case udp_call (udp_transport_send (t_transport (tr s i)) (Some buf) (4 + length data)
           (Some (t_peer (tr s i)))) ?s2 of
           (st, s3) \<Rightarrow> if st \<noteq> TFTP_OK then (st, s3)
             else (TFTP_OK, upd_tr i (\<lambda>t. t\<lparr>t_state := TFTP_TRANSFER_WAIT_ACK\<rparr>) s3))"
    then have res: "st = st3" "s' = (if st3 \<noteq> TFTP_OK then s3
        else upd_tr i (\<lambda>t. t\<lparr>t_state := TFTP_TRANSFER_WAIT_ACK\<rparr>) s3)"
      using e x by (auto split: if_splits)
    have "same_owner (tr s1 i) (?f (tr s1 i))"
      using tsys_inv_tr [OF s1(1) i1] buf by (simp add: same_owner_def transfer_ok_def)
    then have inv2: "tsys_inv E S R ?s2" by (rule owned_cosmetic [OF s1(1) i1])
    have inv3: "tsys_inv E S R s3" by (rule owned_send [OF inv2 x])
    have p3: "g_transfer_pool s3 = g_transfer_pool ?s2" using send_call [OF x] os_only(1) by blast
    have i3: "i < length (g_transfer_pool s3)" using i1 p3 by simp
    have o3: "own_step i s s3"
      using own_step_trans [OF own_step_trans [OF o1 own_step_upd] own_step_send [OF x]] by simp
    have t3: "tr s3 i = ?f (tr s i)" using p3 i1 p1(1) by (simp add: upd_tr_def)
    have "tsys_inv E S R (upd_tr i (\<lambda>t. t\<lparr>t_state := TFTP_TRANSFER_WAIT_ACK\<rparr>) s3)"
      by (rule owned_cosmetic [OF inv3 i3]) (simp add: same_owner_def)
    moreover have "own_step i s (upd_tr i (\<lambda>t. t\<lparr>t_state := TFTP_TRANSFER_WAIT_ACK\<rparr>) s3)"
      using own_step_trans [OF o3 own_step_upd] by simp
    ultimately show ?thesis
      using res inv3 o3 t3 i3 by (auto simp: holds_same_def)
  qed
qed


section \<open>Starting\<close>

lemma open_transport_safe:
  assumes inv: "tsys_inv E S R s" and i: "i < length (g_transfer_pool s)"
    and t: "t_transport (tr s i) = None" "t_in_use (tr s i)"
    and e: "transfer_open_transport i s = (st, s')"
  shows "tsys_inv E S R s' \<and> own_step i s s' \<and> disk_same (ts_os s) (ts_os s') \<and>
    script_same (ts_os s) (ts_os s') \<and> ts_file s' = ts_file s \<and> ts_reactor s' = ts_reactor s \<and>
    (\<exists>x. tr s' i = (tr s i)\<lparr>t_transport := x\<rparr>) \<and>
    (st = TFTP_OK \<longrightarrow> (\<exists>p. t_transport (tr s' i) = Some p \<and> u_open (sock s' p)))"
proof -
  obtain st1 p s1 where a: "udp_call (udp_transport_acquire (Some (t_transport (tr s i)))) s = ((st1, p), s1)"
    by (metis prod.collapse)
  let ?s2 = "upd_tr i (\<lambda>t. t\<lparr>t_transport := deref None p\<rparr>) s1"
  note ac = udp_acquire_call [OF inv a]
  have inv2: "tsys_inv E S R ?s2" by (rule owned_acquire_transport [OF inv i t a])
  have s1: "g_transfer_pool s1 = g_transfer_pool s" "ts_os s1 = ts_os s" "ts_file s1 = ts_file s"
    "ts_reactor s1 = ts_reactor s" using ac by auto
  have i2: "i < length (g_transfer_pool ?s2)" using i s1 by simp
  have o2: "own_step i s ?s2"
    by (rule own_step_trans [OF own_step_parts own_step_upd]) (use s1 in \<open>simp_all\<close>)
  have t2: "tr ?s2 i = (tr s i)\<lparr>t_transport := deref None p\<rparr>" using i s1 by simp
  show ?thesis
  proof (cases "st1 = TFTP_OK")
    case False
    with e a have "st = st1" "s' = ?s2" by (auto simp: transfer_open_transport_def)
    with False inv2 o2 t2 s1 show ?thesis by simp blast
  next
    case True
    with ac obtain q where p: "p = Some (Some q)" "q < UDP_TRANSPORT_POOL_SIZE" by auto
    have tq: "t_transport (tr ?s2 i) = Some q" using t2 p by simp
    note own = owner_transport [OF inv2 i2 tq]
    obtain st3 s3 where n: "udp_call (udp_transport_init (Some q)
        (Some \<lparr>tc_local_port = 0, tc_non_blocking = True\<rparr>)) ?s2 = (st3, s3)" by (meson surj_pair)
    from owned_init_transport [OF inv2 own n] have inv3: "tsys_inv E S R s3"
      and c3: "st3 = TFTP_ERR_INVALID_STATE \<and> s3 = ?s2 \<or> st3 = TFTP_OK \<and>
        (\<exists>x. s3 = sock_change q x (ts_os ?s2) ?s2 \<and> u_initialized x \<and> \<not> u_open x)" by auto
    have s3: "g_transfer_pool s3 = g_transfer_pool ?s2" "ts_os s3 = ts_os s" "ts_file s3 = ts_file s"
      "ts_reactor s3 = ts_reactor s" using c3 s1 by auto
    have o3: "own_step i s s3"
      by (rule own_step_trans [OF o2 own_step_parts]) (use s3 s1 in \<open>simp_all\<close>)
    show ?thesis
    proof (cases "st3 = TFTP_OK")
      case False
      with e a n True p i s1(1) have "st = st3" "s' = s3"
        by (simp_all add: transfer_open_transport_def Let_def)
      with False inv3 o3 t2 s3 show ?thesis by simp blast
    next
      case ok3: True
      with c3 pool_len [OF inv2] p(2) have "u_initialized (sock s3 q)" "\<not> u_open (sock s3 q)" by auto
      note op = owned_open_transport [OF inv3 p(2) this]
      obtain s4 where o: "udp_call (udp_transport_open (Some q)) s3 = (st, s4)" and s4: "s' = s4"
        using e a n True ok3 p t2 s3(1) by (simp add: transfer_open_transport_def Let_def tq)
      from op [OF o] obtain x k where inv4: "tsys_inv E S R s'" and s': "s' = sock_change q x k s3"
        and k: "disk_same (ts_os s3) k" "script_same (ts_os s3) k" and x: "st = TFTP_OK \<longrightarrow> u_open x"
        using s4 by auto
      have "own_step i s s'"
        by (rule own_step_trans [OF o3 own_step_parts]) (use s' k in \<open>simp_all add: same_defs\<close>)
      moreover have "tr s' i = (tr s i)\<lparr>t_transport := Some q\<rparr>" using s' s3(1) t2 p by simp
      moreover have "sock s' q = x" using s' pool_len [OF inv3] p(2) by simp
      ultimately show ?thesis using inv4 s' k x s3 by auto
    qed
  qed
qed


lemma send_error_safe:
  assumes inv: "tsys_inv E S R s" and i: "i < length (g_transfer_pool s)"
  shows "tsys_inv E S R (transfer_send_file_error i s) \<and> own_step i s (transfer_send_file_error i s) \<and>
    ts_udp (transfer_send_file_error i s) = ts_udp s \<and>
    (\<exists>x. tr (transfer_send_file_error i s) i = (tr s i)\<lparr>t_packet_buffer := x\<rparr>)"
proof -
  have len: "length (t_packet_buffer (tr s i)) = TFTP_MAX_PACKET_SIZE"
    using tsys_inv_tr [OF inv i] by (simp add: transfer_ok_def)
  obtain st b n where b: "tftp_packet_build_error (error_code TFTP_ERROR_FILE_NOT_FOUND)
      (Some (cstr ''File not found'' @ [0])) (Some (t_packet_buffer (tr s i))) TFTP_MAX_PACKET_SIZE (Some 0) =
      (st, b, n)" by (metis prod.collapse)
  have lb: "length (deref [] b) = TFTP_MAX_PACKET_SIZE"
    using b len by (auto simp: tftp_packet_build_error_def Let_def write_u16_be_def tftp_defs
        split: if_splits)
  let ?s1 = "upd_tr i (\<lambda>t. t\<lparr>t_packet_buffer := deref [] b\<rparr>) s"
  have inv1: "tsys_inv E S R ?s1"
    by (rule owned_cosmetic [OF inv i]) (use lb len in \<open>simp add: same_owner_def\<close>)
  have o1: "own_step i s ?s1" by (rule own_step_upd) simp
  obtain st2 s2 where x: "udp_call (udp_transport_send (t_transport (tr ?s1 i))
      (Some (t_packet_buffer (tr ?s1 i))) (deref 0 n) (Some (t_peer (tr ?s1 i)))) ?s1 = (st2, s2)"
    by (meson surj_pair)
  have "transfer_send_file_error i s = (if st \<noteq> TFTP_OK then ?s1 else s2)"
    by (simp only: transfer_send_file_error_def b x Let_def prod.case snd_conv)
  moreover have "g_transfer_pool s2 = g_transfer_pool ?s1" "ts_udp s2 = ts_udp ?s1"
    using send_call [OF x] os_only(1,2) by blast+
  ultimately show ?thesis
    using inv1 o1 owned_send [OF inv1 x] own_step_trans [OF o1 own_step_send [OF x]] i by auto
qed

lemma open_file_safe:
  assumes inv: "tsys_inv E S R s" and i: "i < length (g_transfer_pool s)"
    and t: "t_file (tr s i) = None" "t_in_use (tr s i)" "\<not> t_registered (tr s i)"
    and e: "transfer_open_file i path s = (st, s')"
  shows "tsys_inv E S R s' \<and> own_step i s s' \<and> ts_udp s' = ts_udp s \<and>
    (\<exists>x y. tr s' i = (tr s i)\<lparr>t_file := x, t_packet_buffer := y\<rparr>) \<and>
    (st = TFTP_OK \<longrightarrow> (\<exists>q. t_file (tr s' i) = Some q \<and> f_open (filo s' q) \<and>
       f_mode (filo s' q) = TFTP_FILE_READ) \<and> fs (ts_os s) (c_string path) \<noteq> None) \<and>
    st \<in> {TFTP_OK, TFTP_ERR_FILE, TFTP_ERR_NO_RESOURCE}"
proof -
  obtain st1 p s1 where a: "file_call (tftp_file_acquire (Some (t_file (tr s i)))) s = ((st1, p), s1)"
    by (metis prod.collapse)
  let ?s2 = "upd_tr i (\<lambda>t. t\<lparr>t_file := deref None p\<rparr>) s1"
  note ac = owned_acquire_file [OF inv i t a]
  have inv2: "tsys_inv E S R ?s2" using ac by blast
  have s1: "g_transfer_pool s1 = g_transfer_pool s" "ts_os s1 = ts_os s" "ts_udp s1 = ts_udp s"
    "ts_reactor s1 = ts_reactor s" using ac by blast+
  have i2: "i < length (g_transfer_pool ?s2)" using i s1 by simp
  have o2: "own_step i s ?s2"
    by (rule own_step_trans [OF own_step_parts own_step_upd]) (use s1 in \<open>simp_all\<close>)
  have t2: "tr ?s2 i = (tr s i)\<lparr>t_file := deref None p\<rparr>" using i s1 by simp
  show ?thesis
  proof (cases "st1 = TFTP_OK")
    case False
    with e a have "st = st1" "s' = ?s2" by (auto simp: transfer_open_file_def)
    moreover have "\<exists>x y. tr ?s2 i = (tr s i)\<lparr>t_file := x, t_packet_buffer := y\<rparr>"
      unfolding t2 by (rule exI [of _ "deref None p"], rule exI [of _ "t_packet_buffer (tr s i)"]) simp
    moreover have "st1 = TFTP_ERR_NO_RESOURCE" using False ac by blast
    ultimately show ?thesis using inv2 o2 s1(3) by simp
  next
    case True
    with ac obtain q where p: "p = Some (Some q)" and closed1: "\<not> f_open (filo s1 q)" by auto
    have tq: "t_file (tr ?s2 i) = Some q" using t2 p by simp
    note own = owner_file [OF inv2 i2 tq]
    have closed2: "\<not> f_open (filo ?s2 q)" using closed1 by simp
    obtain st3 s3 where n: "file_call (tftp_file_init (Some q)) ?s2 = (st3, s3)" by (meson surj_pair)
    from owned_init_file [OF inv2 closed2 n] have inv3: "tsys_inv E S R s3" and st3: "st3 = TFTP_OK"
      and s3: "s3 = file_change q ((filo ?s2 q)\<lparr>f_open := False, f_fp := None\<rparr>) (ts_os ?s2) ?s2" by auto
    have i3: "i < length (g_transfer_pool s3)" and pool3: "g_transfer_pool s3 = g_transfer_pool ?s2"
      using i2 s3 by simp_all
    have q3: "q < length (g_file_pool (ts_file s3))" "f_in_use (filo s3 q)" "\<not> f_open (filo s3 q)"
      using own s3 by simp_all
    have o3: "own_step i s s3" by (rule own_step_trans [OF o2 own_step_parts]) (use s3 in \<open>simp_all\<close>)
    obtain st4 s4 where o: "file_call (tftp_file_open (Some q) (Some path) TFTP_FILE_READ) s3 = (st4, s4)"
      by (meson surj_pair)
    from owned_open_file [OF inv3 q3 o] obtain x where inv4: "tsys_inv E S R s4"
      and s4: "s4 = file_change q x (ts_os s4) s3" and f4: "fs (ts_os s4) = fs (ts_os s3)"
        "script_same (ts_os s3) (ts_os s4)"
      and x: "st4 = TFTP_OK \<and> f_open x \<and> f_mode x = TFTP_FILE_READ \<and> fs (ts_os s3) (c_string path) \<noteq> None \<or>
        st4 = TFTP_ERR_FILE \<and> \<not> f_open x" by blast
    have p4: "g_transfer_pool s4 = g_transfer_pool s3" "ts_udp s4 = ts_udp s3"
      "ts_reactor s4 = ts_reactor s3" "filo s4 q = x"
      using arg_cong [OF s4, of g_transfer_pool] arg_cong [OF s4, of ts_udp]
        arg_cong [OF s4, of ts_reactor] arg_cong [OF s4, of "\<lambda>s. filo s q"] q3(1) by simp_all
    have o4: "own_step i s s4" by (rule own_step_trans [OF o3 own_step_parts]) (use p4 f4 in \<open>simp_all add: script_same_def\<close>)
    have i4: "i < length (g_transfer_pool s4)" using i3 p4 by simp
    have res: "st = st4" "s' = (if st4 \<noteq> TFTP_OK then transfer_send_file_error i s4 else s4)"
      using e a n True st3 o p i s1(1) pool3 by (auto simp: transfer_open_file_def Let_def split: if_splits)
    have t4: "tr s4 i = (tr s i)\<lparr>t_file := Some q\<rparr>" using p4 pool3 t2 p by simp
    note u4 = p4(2) s3 s1(3)
    show ?thesis
    proof (cases "st4 = TFTP_OK")
      case True
      moreover have "\<exists>x y. tr s4 i = (tr s i)\<lparr>t_file := x, t_packet_buffer := y\<rparr>"
        unfolding t4 by (rule exI [of _ "Some q"], rule exI [of _ "t_packet_buffer (tr s i)"]) simp
      moreover have "fs (ts_os s3) = fs (ts_os s)" using s3 s1 by simp
      moreover have "ts_udp s4 = ts_udp s" using p4(2) s3 s1(3) by simp
      moreover have "t_file (tr s4 i) = Some q" using t4 by simp
      moreover have "f_open (filo s4 q)" "f_mode (filo s4 q) = TFTP_FILE_READ"
        "fs (ts_os s3) (c_string path) \<noteq> None" using x True p4(4) by simp_all
      ultimately show ?thesis using res inv4 o4 by simp
    next
      case False
      with res x have s': "s' = transfer_send_file_error i s4" "st = TFTP_ERR_FILE" by simp_all
      from send_error_safe [OF inv4 i4] obtain y where y: "tsys_inv E S R s'" "own_step i s4 s'"
        "ts_udp s' = ts_udp s4" "tr s' i = (tr s4 i)\<lparr>t_packet_buffer := y\<rparr>" unfolding s' by blast
      have "tr s' i = (tr s i)\<lparr>t_file := Some q, t_packet_buffer := y\<rparr>" using y(4) t4 by simp
      then have "\<exists>x y. tr s' i = (tr s i)\<lparr>t_file := x, t_packet_buffer := y\<rparr>" by blast
      moreover have "ts_udp s' = ts_udp s" using y(3) p4(2) s3 s1(3) by simp
      ultimately show ?thesis using y(1) own_step_trans [OF o4 y(2)] s'(2) by simp
    qed
  qed
qed


lemma get_fd_open:
  assumes "tsys_inv E S R s" "p < UDP_TRANSPORT_POOL_SIZE"
  shows "get_fd (Some p) s = (if u_open (sock s p) then u_fd (sock s p) else -1)"
    "u_open (sock s p) \<Longrightarrow> 0 \<le> u_fd (sock s p)"
  using udp_inv_openD [OF tsys_invD(1) [OF assms(1)] assms(2)]
  by (auto simp: get_fd_def udp_transport_get_fd_def)

lemma register_safe:
  assumes inv: "tsys_inv E S R s" and i: "i < length (g_transfer_pool s)"
    and t: "t_transport (tr s i) = Some p" "u_open (sock s p)" "\<not> t_registered (tr s i)"
      "t_reactor (tr s i) = Some 0" "t_in_use (tr s i)"
    and e: "transfer_register i s = (st, s')"
  shows "tsys_inv E S R s' \<and> own_step i s s' \<and> s' = s\<lparr>ts_reactor := ts_reactor s',
      g_transfer_pool := g_transfer_pool s'\<rparr> \<and>
    tr s' i = (tr s i)\<lparr>t_registered := (st = TFTP_OK)\<rparr> \<and>
    (st = TFTP_OK \<longleftrightarrow> rc_initialized (g_reactor (ts_reactor s)) \<and>
       length (reg_table (ts_reactor s)) < rc_max_handlers (g_reactor (ts_reactor s)))"
proof -
  let ?reg = "reg_of s Transfer_udp_handler i p"
  have p: "p < UDP_TRANSPORT_POOL_SIZE" by (rule owner_transport(1) [OF inv i t(1)])
  obtain st1 s1 where r: "reactor_call (reactor_register (Some 0) (Some ?reg)) s = (st1, s1)"
    by (meson surj_pair)
  have res: "st = st1" "s' = (if st1 = TFTP_OK then upd_tr i (\<lambda>t. t\<lparr>t_registered := True\<rparr>) s1 else s1)"
    using e r get_fd_open(1) [OF inv p] t by (auto simp: transfer_register_def reg_of_def split: if_splits)
  note ri = tsys_invD(3) [OF inv]
  have rok: "reg_ok ?reg" using get_fd_open(2) [OF inv p] t(2)
    by (auto simp: reg_ok_def reg_of_def REACTOR_EVENT_READ_def REACTOR_EVENT_ERROR_def)
  show ?thesis
  proof (cases "rc_initialized (g_reactor (ts_reactor s)) \<and>
       length (reg_table (ts_reactor s)) < rc_max_handlers (g_reactor (ts_reactor s))")
    case True
    with register_ok [OF ri _ rok] obtain u where u: "st1 = TFTP_OK" "s1 = s\<lparr>ts_reactor := u\<rparr>"
      "rc_max_handlers (g_reactor u) = rc_max_handlers (g_reactor (ts_reactor s))"
      "rc_initialized (g_reactor u)" "rc_running (g_reactor u) = rc_running (g_reactor (ts_reactor s))"
      "g_reactor_in_use u = g_reactor_in_use (ts_reactor s)"
      using r by (auto simp: reactor_call_eq)
    have "own_step i s s1" by (rule own_step_pool) (use u True in \<open>simp_all\<close>)
    then have "own_step i s s'" using own_step_trans [OF _ own_step_upd] res u(1) by simp
    moreover have "tsys_inv E S R s'"
      using owned_register_transfer [OF inv i t(1,3,4,5,2)] r res u(1) by simp
    ultimately show ?thesis using res u True i by (simp add: upd_tr_def)
  next
    case False
    from register_fail [OF ri] False r have "st1 \<noteq> TFTP_OK" "s1 = s"
      by (auto simp: reactor_call_eq rok split: if_splits)
    with res inv False t(3) show ?thesis by auto
  qed
qed


text \<open>What may start: an initialised transfer that holds nothing yet.\<close>

definition startable :: "tftp_transfer \<Rightarrow> bool" where
  "startable t \<longleftrightarrow> t_in_use t \<and> t_initialized t \<and> \<not> t_registered t \<and> t_transport t = None \<and>
     t_file t = None \<and> t_reactor t = Some 0"

lemma process_safe:
  assumes inv: "tsys_inv E S R s" and i: "i < length (g_transfer_pool s)"
    and t: "startable (tr s i)" "t_state (tr s i) = TFTP_TRANSFER_RRQ"
    and e: "tftp_transfer_process (Some i) s = (st, s')"
  shows "tsys_inv E S R s' \<and> own_step i s s' \<and> t_in_use (tr s' i) \<and> t_initialized (tr s' i) \<and>
    t_reactor (tr s' i) = Some 0 \<and>
    (st = TFTP_OK \<longrightarrow> t_state (tr s' i) = TFTP_TRANSFER_WAIT_ACK \<and> t_registered (tr s' i) \<and>
       t_transport (tr s' i) \<noteq> None \<and> t_file (tr s' i) \<noteq> None)"
proof -
  let ?path = "transfer_path (tr s i)"
  have u: "t_in_use (tr s i)" "t_initialized (tr s i)" "\<not> t_registered (tr s i)"
    "t_transport (tr s i) = None" "t_file (tr s i) = None" "t_reactor (tr s i) = Some 0"
    using t(1) by (simp_all add: startable_def)
  obtain st1 s1 where o1: "transfer_open_transport i s = (st1, s1)" by (meson surj_pair)
  from open_transport_safe [OF inv i u(4,1) o1] obtain x where inv1: "tsys_inv E S R s1"
    and w1: "own_step i s s1" and t1: "tr s1 i = (tr s i)\<lparr>t_transport := x\<rparr>"
    and p1: "st1 = TFTP_OK \<longrightarrow> (\<exists>p. x = Some p \<and> u_open (sock s1 p))" by auto
  have i1: "i < length (g_transfer_pool s1)" using i own_step_len [OF w1] by simp
  show ?thesis
  proof (cases "st1 = TFTP_OK")
    case False
    with e o1 t u have "st = st1" "s' = s1" by (auto simp: tftp_transfer_process_def)
    with False inv1 w1 t1 u show ?thesis by simp
  next
    case ok1: True
    with p1 obtain p where p: "x = Some p" "u_open (sock s1 p)" by blast
    obtain st2 s2 where o2: "transfer_open_file i ?path s1 = (st2, s2)" by (meson surj_pair)
    have "t_file (tr s1 i) = None" "t_in_use (tr s1 i)" "\<not> t_registered (tr s1 i)" using t1 u by simp_all
    note of = open_file_safe [OF inv1 i1 this o2]
    then obtain y z where inv2: "tsys_inv E S R s2" and w2: "own_step i s1 s2"
      and u2: "ts_udp s2 = ts_udp s1" and t2: "tr s2 i = (tr s1 i)\<lparr>t_file := y, t_packet_buffer := z\<rparr>"
      by blast
    have w2: "own_step i s s2" by (rule own_step_trans [OF w1 w2])
    have i2: "i < length (g_transfer_pool s2)" using i own_step_len [OF w2] by simp
    show ?thesis
    proof (cases "st2 = TFTP_OK")
      case False
      with e o1 o2 ok1 t u have "st = st2" "s' = s2" by (auto simp: tftp_transfer_process_def)
      with False inv2 w2 t2 t1 u show ?thesis by simp
    next
      case ok2: True
      obtain st3 s3 where o3: "transfer_register i s2 = (st3, s3)" by (meson surj_pair)
      have "t_transport (tr s2 i) = Some p" "u_open (sock s2 p)" "\<not> t_registered (tr s2 i)"
        "t_reactor (tr s2 i) = Some 0" "t_in_use (tr s2 i)"
        using t1 t2 u p u2 by simp_all
      from register_safe [OF inv2 i2 this o3] have inv3: "tsys_inv E S R s3"
        and w3: "own_step i s2 s3" and t3: "tr s3 i = (tr s2 i)\<lparr>t_registered := (st3 = TFTP_OK)\<rparr>"
        by auto
      have w3: "own_step i s s3" by (rule own_step_trans [OF w2 w3])
      have i3: "i < length (g_transfer_pool s3)" using i own_step_len [OF w3] by simp
      show ?thesis
      proof (cases "st3 = TFTP_OK")
        case False
        with e o1 o2 o3 ok1 ok2 t u have "st = st3" "s' = s3" by (auto simp: tftp_transfer_process_def)
        with False inv3 w3 t3 t2 t1 u show ?thesis by simp
      next
        case ok3: True
        with e o1 o2 o3 ok1 ok2 t u have n: "transfer_send_next_data i s3 = (st, s')"
          by (auto simp: tftp_transfer_process_def)
        have "t_transport (tr s3 i) \<noteq> None" "t_file (tr s3 i) \<noteq> None"
          using of ok2 p t1 t2 t3 by auto
        with send_next_safe [OF inv3 i3 n] own_step_trans [OF w3] t3 t2 t1 u ok3
        show ?thesis by (auto simp: holds_same_def)
      qed
    qed
  qed
qed

section \<open>Clean-up\<close>

text \<open>The three parts of \<open>tftp_transfer_cleanup\<close>.\<close>

definition cleanup_register :: "nat \<Rightarrow> tsys \<Rightarrow> tsys" where
  "cleanup_register i s =
     (if t_registered (tr s i) \<and> t_reactor (tr s i) \<noteq> None \<and> t_transport (tr s i) \<noteq> None
      then
        let s = snd (reactor_call (reactor_unregister (t_reactor (tr s i))
                       (get_fd (t_transport (tr s i)) s)) s) in
        upd_tr i (\<lambda>t. t\<lparr>t_registered := False\<rparr>) s
      else s)"

definition cleanup_file :: "nat \<Rightarrow> tsys \<Rightarrow> tsys" where
  "cleanup_file i s =
     (if t_file (tr s i) \<noteq> None then
        let s = snd (file_call (tftp_file_deinit (t_file (tr s i))) s) in
        (case file_call (tftp_file_release (Some (t_file (tr s i)))) s of
           (p, s) \<Rightarrow> upd_tr i (\<lambda>t. t\<lparr>t_file := deref None p\<rparr>) s)
      else s)"

definition cleanup_transport :: "nat \<Rightarrow> tsys \<Rightarrow> tsys" where
  "cleanup_transport i s =
     (if t_transport (tr s i) \<noteq> None then
        (case udp_call (udp_transport_release (Some (t_transport (tr s i)))) s of
           (p, s) \<Rightarrow> upd_tr i (\<lambda>t. t\<lparr>t_transport := deref None p\<rparr>) s)
      else s)"

lemma cleanup_parts:
  "tftp_transfer_cleanup (Some i) s =
     (TFTP_OK, transfer_reset (Some i) (cleanup_transport i (cleanup_file i (cleanup_register i s))))"
proof -
  have "tftp_transfer_cleanup (Some i) s =
     (let s = cleanup_register i s; s = cleanup_file i s; s = cleanup_transport i s
      in (TFTP_OK, transfer_reset (Some i) s))"
    by (simp only: tftp_transfer_cleanup_def cleanup_register_def cleanup_file_def
        cleanup_transport_def option.case)
  then show ?thesis by (simp only: Let_def)
qed

lemma cleanup_register_safe:
  assumes inv: "tsys_inv E S R s" and i: "i < length (g_transfer_pool s)"
  defines "s' \<equiv> cleanup_register i s"
  shows "tsys_inv E S R s' \<and> own_step i s s' \<and> script_same (ts_os s) (ts_os s') \<and>
    tr s' i = (tr s i)\<lparr>t_registered := False\<rparr>"
proof (cases "t_registered (tr s i)")
  case False
  with inv show ?thesis by (simp add: s'_def cleanup_register_def)
next
  case True
  have "\<forall>j<length (g_transfer_pool s). t_registered (tr s j) \<longrightarrow>
      t_transport (tr s j) \<noteq> None \<and> t_reactor (tr s j) = Some 0"
    using tsys_invD(8) [OF inv] by (simp add: registrations_owned_def)
  with True i obtain p where p: "t_transport (tr s i) = Some p" "t_reactor (tr s i) = Some 0" by blast
  have p': "p < UDP_TRANSPORT_POOL_SIZE" by (rule owner_transport(1) [OF inv i p(1)])
  have "(Transfer_udp_handler, i, p) \<in> registrants S R s" using i p True by (auto simp: registrants_def)
  moreover have "\<forall>(h, c, p)\<in>registrants S R s. u_open (sock s p)"
    using tsys_invD(8) [OF inv] by (simp add: registrations_owned_def)
  ultimately have op: "u_open (sock s p)" by blast
  obtain st u where e: "reactor_call (reactor_unregister (Some 0) (u_fd (sock s p))) s = (st, u)"
    by (meson surj_pair)
  from owned_unregister_transfer [OF inv i p(1) True e] have
    u: "tsys_inv E S R (upd_tr i (\<lambda>t. t\<lparr>t_registered := False\<rparr>) u)" "u = s\<lparr>ts_reactor := ts_reactor u\<rparr>"
    and rc: "rc_initialized (g_reactor (ts_reactor u))"
      "rc_running (g_reactor (ts_reactor u)) = rc_running (g_reactor (ts_reactor s))"
      "rc_max_handlers (g_reactor (ts_reactor u)) = rc_max_handlers (g_reactor (ts_reactor s))"
      "g_reactor_in_use (ts_reactor u) = g_reactor_in_use (ts_reactor s)" by simp_all
  have s': "s' = upd_tr i (\<lambda>t. t\<lparr>t_registered := False\<rparr>) u"
    using True p e get_fd_open(1) [OF inv p'] op by (simp add: s'_def cleanup_register_def Let_def)
  have init: "rc_initialized (g_reactor (ts_reactor s))"
    by (rule registrant_initialized [OF inv \<open>(Transfer_udp_handler, i, p) \<in> registrants S R s\<close>])
  have g: "g_transfer_pool u = g_transfer_pool s" "ts_os u = ts_os s"
    using arg_cong [OF u(2), of g_transfer_pool] arg_cong [OF u(2), of ts_os] by simp_all
  have "own_step i s u" by (rule own_step_pool) (use g rc init in \<open>simp_all\<close>)
  then have "own_step i s s'" using own_step_trans [OF _ own_step_upd] s' by simp
  then show ?thesis using u(1) s' g i by simp
qed


lemma cleanup_file_safe:
  assumes inv: "tsys_inv E S R s" and i: "i < length (g_transfer_pool s)"
    and t: "\<not> t_registered (tr s i)"
  defines "s' \<equiv> cleanup_file i s"
  shows "tsys_inv E S R s' \<and> own_step i s s' \<and> script_same (ts_os s) (ts_os s') \<and>
    tr s' i = (tr s i)\<lparr>t_file := None\<rparr>"
proof (cases "t_file (tr s i)")
  case None
  then have "tr s i = (tr s i)\<lparr>t_file := None\<rparr>" by simp
  with None inv show ?thesis by (simp add: s'_def cleanup_file_def)
next
  case (Some q)
  note q = owner_file [OF inv i Some]
  obtain st s1 where e1: "file_call (tftp_file_deinit (Some q)) s = (st, s1)" by (meson surj_pair)
  from owned_close_file [OF inv q(1) e1] have c1: "tsys_inv E S R s1" "\<not> f_open (filo s1 q)"
    "g_transfer_pool s1 = g_transfer_pool s" "ts_reactor s1 = ts_reactor s"
    "script_same (ts_os s) (ts_os s1)" "fs (ts_os s1) = fs (ts_os s)" by simp_all
  obtain r s2 where e2: "file_call (tftp_file_release (Some (Some q))) s1 = (r, s2)" by (meson surj_pair)
  have i1: "i < length (g_transfer_pool s1)" "t_file (tr s1 i) = Some q" "\<not> t_registered (tr s1 i)"
    using i c1 Some t by simp_all
  note rel = owned_release_file [OF c1(1) i1 c1(2) e2]
  have s': "s' = upd_tr i (\<lambda>t. t\<lparr>t_file := deref None r\<rparr>) s2"
    using e1 e2 Some i1 c1(3) by (simp add: s'_def cleanup_file_def)
  have s2: "g_transfer_pool s2 = g_transfer_pool s" "ts_os s2 = ts_os s1" "ts_reactor s2 = ts_reactor s"
    using rel c1 by simp_all
  have "own_step i s s2" by (rule own_step_parts) (use s2 c1 in \<open>simp_all add: script_same_def\<close>)
  then have "own_step i s s'" using own_step_trans [OF _ own_step_upd] s' by simp
  moreover have "tsys_inv E S R s'" using rel unfolding s' by blast
  moreover have "tr s' i = (tr s i)\<lparr>t_file := None\<rparr>" using rel s2(1) i unfolding s' by simp
  ultimately show ?thesis using s2(2) c1(5) unfolding s' by simp
qed

lemma cleanup_transport_safe:
  assumes inv: "tsys_inv E S R s" and i: "i < length (g_transfer_pool s)"
    and t: "\<not> t_registered (tr s i)"
  defines "s' \<equiv> cleanup_transport i s"
  shows "tsys_inv E S R s' \<and> own_step i s s' \<and> script_same (ts_os s) (ts_os s') \<and>
    tr s' i = (tr s i)\<lparr>t_transport := None\<rparr>"
proof (cases "t_transport (tr s i)")
  case None
  then have "tr s i = (tr s i)\<lparr>t_transport := None\<rparr>" by simp
  with None inv show ?thesis by (simp add: s'_def cleanup_transport_def)
next
  case (Some p)
  note p = owner_transport [OF inv i Some]
  obtain r s1 where e: "udp_call (udp_transport_release (Some (Some p))) s = (r, s1)" by (meson surj_pair)
  have nr: "(h, c, p) \<notin> registrants S R s" for h c by (rule owner_not_registrant [OF inv i Some t])
  note rel = rest_release_transport [OF inv p nr e]
  have s': "s' = upd_tr i (\<lambda>t. t\<lparr>t_transport := deref None r\<rparr>) s1"
    using e Some by (simp add: s'_def cleanup_transport_def)
  have "own_step i s s1" by (rule own_step_parts) (use rel in \<open>simp_all add: same_defs\<close>)
  then have "own_step i s s'" using own_step_trans [OF _ own_step_upd] s' by simp
  then show ?thesis using owned_release_transport [OF inv i Some t e] rel s' i by simp
qed

text \<open>
  The clean-up of any transfer, in any state and environment: the transfer holds nothing any
  more, nothing of the others changed, and the invariant says that what it held is free.
\<close>

definition retired :: "nat \<Rightarrow> tftp_transfer" where
  "retired n = tftp_transfer_zero n"

lemma retired_fields [simp]:
  "\<not> t_in_use (retired n)" "\<not> t_initialized (retired n)" "\<not> t_registered (retired n)"
  "t_transport (retired n) = None" "t_file (retired n) = None" "t_state (retired n) = TFTP_TRANSFER_IDLE"
  "length (t_filename (retired n)) = n"
  by (simp_all add: retired_def tftp_transfer_zero_def)

lemma reset_retired:
  "i < length (g_transfer_pool s) \<Longrightarrow>
   tr (transfer_reset (Some i) s) i = retired (length (t_filename (tr s i)))"
  by (simp add: transfer_reset_def retired_def tftp_transfer_zero_def)

lemma cleanup_safe:
  assumes inv: "tsys_inv E S R s" and i: "i < length (g_transfer_pool s)"
    and e: "tftp_transfer_cleanup (Some i) s = (st, s')"
  shows "tsys_inv E S R s' \<and> own_step i s s' \<and> script_same (ts_os s) (ts_os s') \<and> st = TFTP_OK \<and>
    tr s' i = retired (length (t_filename (tr s i)))"
proof -
  let ?s1 = "cleanup_register i s" let ?s2 = "cleanup_file i ?s1" let ?s3 = "cleanup_transport i ?s2"
  have res: "st = TFTP_OK" "s' = transfer_reset (Some i) ?s3"
    using e by (simp_all add: cleanup_parts)
  from cleanup_register_safe [OF inv i] have 1: "tsys_inv E S R ?s1" "own_step i s ?s1"
    "script_same (ts_os s) (ts_os ?s1)" "tr ?s1 i = (tr s i)\<lparr>t_registered := False\<rparr>" by simp_all
  have i1: "i < length (g_transfer_pool ?s1)" using i own_step_len [OF 1(2)] by simp
  have "\<not> t_registered (tr ?s1 i)" using 1(4) by simp
  from cleanup_file_safe [OF 1(1) i1 this] have 2: "tsys_inv E S R ?s2" "own_step i s ?s2"
    "script_same (ts_os s) (ts_os ?s2)" "tr ?s2 i = (tr s i)\<lparr>t_registered := False, t_file := None\<rparr>"
    using own_step_trans [OF 1(2)] script_same_trans [OF 1(3)] 1(4) by simp_all
  have i2: "i < length (g_transfer_pool ?s2)" using i own_step_len [OF 2(2)] by simp
  have "\<not> t_registered (tr ?s2 i)" using 2(4) by simp
  from cleanup_transport_safe [OF 2(1) i2 this] have 3: "tsys_inv E S R ?s3" "own_step i s ?s3"
    "script_same (ts_os s) (ts_os ?s3)"
    "tr ?s3 i = (tr s i)\<lparr>t_registered := False, t_file := None, t_transport := None\<rparr>"
    using own_step_trans [OF 2(2)] script_same_trans [OF 2(3)] 2(4) by simp_all
  have i3: "i < length (g_transfer_pool ?s3)" using i own_step_len [OF 3(2)] by simp
  have "tsys_inv E S R s'" unfolding res(2)
    by (rule owned_reset [OF 3(1) i3]) (use 3(4) in simp_all)
  moreover have "own_step i s s'" unfolding res(2) transfer_reset_def option.case
    by (rule own_step_trans [OF 3(2) own_step_upd]) (simp add: tftp_transfer_zero_def)
  moreover have "ts_os s' = ts_os ?s3" by (simp add: res(2) transfer_reset_def)
  ultimately show ?thesis using res reset_retired [OF i3] 3 by simp
qed


section \<open>Acquiring, initialising and aborting\<close>

lemma acquire_safe:
  assumes inv: "tsys_inv E S R s" and e: "tftp_transfer_acquire (Some x) s = ((st, p), s')"
  shows "tsys_inv E S R s' \<and>
    (st = TFTP_OK \<and> (\<exists>i. first_index (\<lambda>t. \<not> t_in_use t) (g_transfer_pool s) = Some i \<and>
       p = Some (Some i) \<and> i < length (g_transfer_pool s) \<and> \<not> t_in_use (tr s i) \<and>
       own_step i s s' \<and> ts_os s' = ts_os s \<and> ts_udp s' = ts_udp s \<and> ts_file s' = ts_file s \<and>
       ts_reactor s' = ts_reactor s \<and>
       tr s' i = (retired (length (t_filename (tr s i))))\<lparr>t_in_use := True\<rparr>) \<or>
     st = TFTP_ERR_NO_RESOURCE \<and> p = Some None \<and> s' = s \<and> (\<forall>t\<in>set (g_transfer_pool s). t_in_use t))"
proof (cases "first_index (\<lambda>t. \<not> t_in_use t) (g_transfer_pool s)")
  case None
  with e inv show ?thesis by (auto simp: tftp_transfer_acquire_def first_index_None_iff)
next
  case (Some i)
  then have i: "i < length (g_transfer_pool s)" "\<not> t_in_use (tr s i)"
    by (simp_all add: first_index_Some_iff)
  then have t: "t_transport (tr s i) = None" "t_file (tr s i) = None" "\<not> t_registered (tr s i)"
    using tsys_inv_tr [OF inv i(1)] by (simp_all add: transfer_ok_def)
  let ?s1 = "transfer_reset (Some i) s"
  have i1: "i < length (g_transfer_pool ?s1)" using i by (simp add: transfer_reset_def)
  note t1 = reset_retired [OF i(1)]
  have inv1: "tsys_inv E S R ?s1" by (rule owned_reset [OF inv i(1) t])
  have s': "st = TFTP_OK" "p = Some (Some i)" "s' = upd_tr i (\<lambda>t. t\<lparr>t_in_use := True\<rparr>) ?s1"
    using e Some by (simp_all add: tftp_transfer_acquire_def)
  have "tsys_inv E S R s'" unfolding s'(3)
    by (rule owned_take_transfer [OF inv1 i1]) (use t1 in simp_all)
  moreover have "own_step i s ?s1" unfolding transfer_reset_def option.case
    by (rule own_step_upd) (simp add: tftp_transfer_zero_def)
  then have "own_step i s s'" unfolding s'(3) by (rule own_step_trans) (rule own_step_upd, simp)
  moreover have "tr s' i = (retired (length (t_filename (tr s i))))\<lparr>t_in_use := True\<rparr>"
    using i1 t1 by (simp add: s'(3))
  moreover have "ts_os s' = ts_os s" "ts_udp s' = ts_udp s" "ts_file s' = ts_file s" "ts_reactor s' = ts_reactor s"
    by (simp_all add: s'(3) transfer_reset_def)
  ultimately show ?thesis using s'(1,2) Some i by blast
qed

lemma owned_init:
  assumes inv: "tsys_inv E S R s" and i: "i < length (g_transfer_pool s)" and u: "t_in_use (tr s i)"
  shows "tsys_inv E S R (upd_tr i (\<lambda>t. t\<lparr>t_initialized := True, t_state := TFTP_TRANSFER_IDLE\<rparr>) s)"
proof -
  let ?f = "\<lambda>t. t\<lparr>t_initialized := True, t_state := TFTP_TRANSFER_IDLE\<rparr> :: tftp_transfer"
  let ?s = "upd_tr i ?f s"
  have t: "transports S ?s = transports S s" "files ?s = files s"
    using i by (simp_all add: transports_def files_def upd_tr_def map_list_update_same)
  have "transfer_ok (?f (tr s i))"
    using tsys_inv_tr [OF inv i] u by (simp add: transfer_ok_def)
  then have ok: "\<forall>t\<in>set (g_transfer_pool ?s). transfer_ok t"
    using tsys_invD(4) [OF inv] by (auto simp: upd_tr_def dest!: set_update_subset_insert [THEN subsetD])
  have r: "registrants S R ?s = registrants S R s" using i by (intro registrants_upd) simp_all
  have "t_registered (tr ?s j) = t_registered (tr s j) \<and> t_transport (tr ?s j) = t_transport (tr s j) \<and>
      t_reactor (tr ?s j) = t_reactor (tr s j)" for j
    using i by (simp add: tr_upd_if)
  then have "registrations_owned S R ?s"
    using tsys_invD(8) [OF inv] by (simp add: registrations_owned_def r)
  then show ?thesis
    using inv ok by (simp add: tsys_inv_def transports_owned_def files_owned_def t fds_owned_def
        sock_fds_def stream_fds_def)
qed

lemma init_safe:
  assumes inv: "tsys_inv E S R s" and i: "i < length (g_transfer_pool s)" and u: "t_in_use (tr s i)"
    and e: "tftp_transfer_init (Some i) s = (st, s')"
  shows "st = TFTP_OK \<and> tsys_inv E S R s' \<and> own_step i s s' \<and>
    s' = upd_tr i (\<lambda>t. t\<lparr>t_initialized := True, t_state := TFTP_TRANSFER_IDLE\<rparr>) s"
  using assms owned_init [OF inv i u] own_step_upd by (auto simp: tftp_transfer_init_def)

lemma abort_safe:
  assumes "tsys_inv E S R s" "i < length (g_transfer_pool s)"
  shows "tsys_inv E S R (snd (tftp_transfer_abort (Some i) s)) \<and>
    own_step i s (snd (tftp_transfer_abort (Some i) s)) \<and>
    tr (snd (tftp_transfer_abort (Some i) s)) i = (tr s i)\<lparr>t_state := TFTP_TRANSFER_ERROR\<rparr>"
  using assms owned_cosmetic [OF assms] own_step_upd
  by (simp add: tftp_transfer_abort_def same_owner_def)

text \<open>\<open>tftp_transfer_start\<close> as a decision and one update of the transfer.\<close>

definition name_accepted :: "bytes option \<Rightarrow> tftp_transfer \<Rightarrow> bool" where
  "name_accepted name t \<longleftrightarrow> transfer_filename_valid name \<and>
     strlen (deref [] name) \<le> max_filename_length t"

definition configured :: "tftp_transfer_config_t \<Rightarrow> tftp_transfer \<Rightarrow> tftp_transfer" where
  "configured c t = t
     \<lparr>t_opcode := xc_opcode c, t_peer := xc_peer c, t_reactor := xc_reactor c,
      t_filename := snprintf_to (t_filename t) (c_string (deref [] (xc_filename c))),
      t_block := 0, t_expected_block := 0, t_packet_length := 0,
      t_state := (if xc_opcode c = TFTP_OPCODE_RRQ then TFTP_TRANSFER_RRQ else TFTP_TRANSFER_ERROR)\<rparr>"

lemma start_effect:
  assumes "i < length (g_transfer_pool s)"
  shows "tftp_transfer_start (Some i) (Some c) s =
    (if \<not> t_initialized (tr s i) then (TFTP_ERR_NOT_INITIALIZED, s)
     else if xc_reactor c = None \<or> \<not> name_accepted (xc_filename c) (tr s i)
     then (TFTP_ERR_INVALID_ARGUMENT, s)
     else (if xc_opcode c = TFTP_OPCODE_RRQ then TFTP_OK else TFTP_ERR_PROTOCOL,
           upd_tr i (configured c) s))"
  using assms
  by (cases "xc_reactor c")
    (simp_all add: tftp_transfer_start_def Let_def name_accepted_def configured_def upd_tr_def)

lemma start_safe:
  assumes inv: "tsys_inv E S R s" and i: "i < length (g_transfer_pool s)"
    and r: "\<not> t_registered (tr s i)"
    and e: "tftp_transfer_start (Some i) (Some c) s = (st, s')"
  shows "tsys_inv E S R s' \<and> own_step i s s' \<and>
    (st = TFTP_OK \<longrightarrow> t_initialized (tr s i) \<and> xc_reactor c \<noteq> None \<and>
       name_accepted (xc_filename c) (tr s i) \<and> xc_opcode c = TFTP_OPCODE_RRQ \<and>
       tr s' i = configured c (tr s i)) \<and>
    (st = TFTP_OK \<or> st = TFTP_ERR_PROTOCOL \<longrightarrow> s' = upd_tr i (configured c) s) \<and>
    t_in_use (tr s' i) = t_in_use (tr s i) \<and> \<not> t_registered (tr s' i)"
proof -
  have ne: "t_filename (tr s i) \<noteq> []" using tsys_inv_tr [OF inv i] by (simp add: transfer_ok_def)
  then have "snprintf_to (t_filename (tr s i)) x \<noteq> []" for x
    using length_snprintf_to [OF ne, of x] by fastforce
  then have o: "same_owner (tr s i) (configured c (tr s i))"
    using r by (simp add: same_owner_def configured_def)
  have "length (t_filename (configured c (tr s i))) = length (t_filename (tr s i))"
    using ne by (simp add: configured_def)
  then have "own_step i s (upd_tr i (configured c) s)" by (rule own_step_upd)
  moreover have "tsys_inv E S R (upd_tr i (configured c) s)"
    by (rule owned_cosmetic [where f = "configured c", OF inv i o])
  ultimately show ?thesis
    using inv r i e unfolding start_effect [OF i] by (auto simp: configured_def split: if_splits)
qed


section \<open>Events\<close>

text \<open>A datagram that arrives: the transfer keeps what it holds, whatever the datagram says.\<close>

lemma rx_safe:
  assumes inv: "tsys_inv E S R s" and i: "i < length (g_transfer_pool s)"
    and e: "tftp_transfer_handle_event (Some i) TFTP_TRANSFER_EVENT_RX_PACKET data n s = (st, s')"
  shows "tsys_inv E S R s' \<and> own_step i s s' \<and> holds_same (tr s i) (tr s' i)"
proof -
  have "s' = s \<or> s' = upd_tr i (\<lambda>t. t\<lparr>t_state := TFTP_TRANSFER_COMPLETE\<rparr>) s \<or>
      transfer_send_next_data i s = (st, s')"
    using e by (auto simp: tftp_transfer_handle_event_def Let_def split: if_splits prod.splits)
  then show ?thesis
  proof (elim disjE)
    assume "transfer_send_next_data i s = (st, s')"
    from send_next_safe [OF inv i this] show ?thesis by blast
  next
    assume s': "s' = upd_tr i (\<lambda>t. t\<lparr>t_state := TFTP_TRANSFER_COMPLETE\<rparr>) s"
    have "tsys_inv E S R s'" unfolding s' by (rule owned_cosmetic [OF inv i]) (simp add: same_owner_def)
    moreover have "own_step i s s'" unfolding s' by (rule own_step_upd) simp
    ultimately show ?thesis using s' i by (simp add: holds_same_def)
  qed (use inv in simp)
qed

lemma release_safe:
  assumes inv: "tsys_inv E S R s" and i: "i < length (g_transfer_pool s)"
    and e: "tftp_transfer_release (Some (Some i)) s = (p, s')"
  shows "tsys_inv E S R s' \<and> own_step i s s' \<and> script_same (ts_os s) (ts_os s') \<and> p = Some None \<and>
    tr s' i = retired (length (t_filename (tr s i)))"
proof -
  obtain st u where c: "tftp_transfer_cleanup (Some i) s = (st, u)" by (meson surj_pair)
  with cleanup_safe [OF inv i c] e show ?thesis by (simp add: tftp_transfer_release_def)
qed

text \<open>The last part of the handler: abort on an error, release when the transfer is over.\<close>

definition settle :: "nat \<Rightarrow> tftp_status_t \<Rightarrow> tsys \<Rightarrow> tsys" where
  "settle i status s =
     (let s = (if status \<noteq> TFTP_OK then snd (tftp_transfer_abort (Some i) s) else s) in
      if t_state (tr s i) = TFTP_TRANSFER_COMPLETE \<or> t_state (tr s i) = TFTP_TRANSFER_ERROR
      then snd (tftp_transfer_release (Some (Some i)) s) else s)"

lemma settle_safe:
  assumes inv: "tsys_inv E S R s" and i: "i < length (g_transfer_pool s)"
  shows "tsys_inv E S R (settle i st s) \<and> own_step i s (settle i st s) \<and>
    (if st \<noteq> TFTP_OK \<or> t_state (tr s i) \<in> {TFTP_TRANSFER_COMPLETE, TFTP_TRANSFER_ERROR}
     then tr (settle i st s) i = retired (length (t_filename (tr s i))) else settle i st s = s)"
proof -
  let ?s1 = "if st \<noteq> TFTP_OK then snd (tftp_transfer_abort (Some i) s) else s"
  from abort_safe [OF inv i] inv have 1: "tsys_inv E S R ?s1" "own_step i s ?s1"
    "t_state (tr ?s1 i) = (if st \<noteq> TFTP_OK then TFTP_TRANSFER_ERROR else t_state (tr s i))"
    "length (t_filename (tr ?s1 i)) = length (t_filename (tr s i))" by simp_all
  have i1: "i < length (g_transfer_pool ?s1)" using i own_step_len [OF 1(2)] by simp
  obtain p s2 where r: "tftp_transfer_release (Some (Some i)) ?s1 = (p, s2)" by (meson surj_pair)
  have "settle i st s = (if st \<noteq> TFTP_OK \<or>
      t_state (tr s i) \<in> {TFTP_TRANSFER_COMPLETE, TFTP_TRANSFER_ERROR} then s2 else s)"
    using r 1(3) by (auto simp: settle_def Let_def)
  with release_safe [OF 1(1) i1 r] own_step_trans [OF 1(2)] 1(4) inv show ?thesis by auto
qed

text \<open>
  The handler without nesting: what it does with a datagram of the right sender, and with all
  other events.
\<close>

definition handler_input :: "nat \<Rightarrow> tsys \<Rightarrow>
    (tftp_status_t \<times> bytes option \<times> nat option \<times> udp_endpoint_t option) \<times> tsys" where
  "handler_input i s = udp_call (udp_transport_receive (t_transport (tr s i))
     (Some (replicate TFTP_MAX_PACKET_SIZE 0)) TFTP_MAX_PACKET_SIZE (Some 0) (Some sockaddr_zero)) s"

lemma handler_cases:
  "transfer_udp_handler fd events (Some i) s =
    (if t_transport (tr s i) = None \<or> fd \<noteq> get_fd (t_transport (tr s i)) s then s
     else if events AND REACTOR_EVENT_ERROR \<noteq> 0 then snd (tftp_transfer_abort (Some i) s)
     else if events AND REACTOR_EVENT_READ = 0 then s
     else (case handler_input i s of ((status, buffer, received, source), s1) \<Rightarrow>
       if status = TFTP_ERR_BUSY then s1
       else if status \<noteq> TFTP_OK then snd (tftp_transfer_abort (Some i) s1)
       else if \<not> transfer_same_peer (t_peer (tr s1 i)) (deref sockaddr_zero source) then s1
       else (case tftp_transfer_handle_event (Some i) TFTP_TRANSFER_EVENT_RX_PACKET
               buffer (deref 0 received) s1 of (status, s2) \<Rightarrow> settle i status s2)))"
  by (cases "t_transport (tr s i) = None"; cases "fd \<noteq> get_fd (t_transport (tr s i)) s")
    (simp_all only: transfer_udp_handler_def handler_input_def settle_def option.case simp_thms
      if_True if_False)

lemma transfer_handler_safe:
  assumes inv: "tsys_inv E S R s" and i: "i < length (g_transfer_pool s)"
  shows "tsys_inv E S R (transfer_udp_handler fd events (Some i) s) \<and>
    own_step i s (transfer_udp_handler fd events (Some i) s) \<and>
    (holds_same (tr s i) (tr (transfer_udp_handler fd events (Some i) s) i) \<or>
     tr (transfer_udp_handler fd events (Some i) s) i = retired (length (t_filename (tr s i))))"
proof -
  obtain st b n src s1 where h: "handler_input i s = ((st, b, n, src), s1)" by (metis prod.collapse)
  note h' = h [unfolded handler_input_def]
  have o: "s1 = s\<lparr>ts_os := ts_os s1\<rparr>" using receive_call [OF h'] by blast
  have 1: "tsys_inv E S R s1" "own_step i s s1" "tr s1 i = tr s i"
    using owned_receive [OF inv h'] own_step_receive [OF h'] os_only(1) [OF o] by simp_all
  have i1: "i < length (g_transfer_pool s1)" using i own_step_len [OF 1(2)] by simp
  obtain st2 s2 where e: "tftp_transfer_handle_event (Some i) TFTP_TRANSFER_EVENT_RX_PACKET
      b (deref 0 n) s1 = (st2, s2)" by (meson surj_pair)
  from rx_safe [OF 1(1) i1 e] have 2: "tsys_inv E S R s2" "own_step i s s2" "holds_same (tr s i) (tr s2 i)"
    using own_step_trans [OF 1(2)] 1(3) by simp_all
  have i2: "i < length (g_transfer_pool s2)" using i own_step_len [OF 2(2)] by simp
  from settle_safe [OF 2(1) i2, of st2] have 3: "tsys_inv E S R (settle i st2 s2)"
    "own_step i s (settle i st2 s2)" "holds_same (tr s i) (tr (settle i st2 s2) i) \<or>
     tr (settle i st2 s2) i = retired (length (t_filename (tr s i)))"
    using own_step_trans [OF 2(2)] 2(3) own_step_name [OF 2(2)] by (auto split: if_splits)
  define P where "P u \<longleftrightarrow> tsys_inv E S R u \<and> own_step i s u \<and> (holds_same (tr s i) (tr u i) \<or>
      tr u i = retired (length (t_filename (tr s i))))" for u
  have a: "holds_same t (t\<lparr>t_state := x\<rparr>)" for t :: tftp_transfer and x by (simp add: holds_same_def)
  have "P s" "P s1" "P (settle i st2 s2)" using inv 1 3 by (simp_all add: P_def)
  moreover have "P (snd (tftp_transfer_abort (Some i) s))"
    using abort_safe [OF inv i] a by (simp add: P_def)
  moreover have "P (snd (tftp_transfer_abort (Some i) s1))"
    using abort_safe [OF 1(1) i1] own_step_trans [OF 1(2)] a 1(3) by (simp add: P_def)
  ultimately have "P (transfer_udp_handler fd events (Some i) s)"
    unfolding handler_cases h e prod.case by (simp only: simp_thms split: if_split)
  then show ?thesis by (simp only: P_def)
qed


section \<open>The pool of transfers\<close>

definition transfer_take :: "tsys \<Rightarrow> (tftp_status_t \<times> ptr) \<times> tsys" where
  "transfer_take s = (case tftp_transfer_acquire (Some None) s of ((st, p), s') \<Rightarrow> ((st, deref None p), s'))"

definition transfer_give :: "nat \<Rightarrow> tsys \<Rightarrow> tsys" where
  "transfer_give i s = snd (tftp_transfer_release (Some (Some i)) s)"

abbreviation transfer_used :: "tsys \<Rightarrow> bool list" where
  "transfer_used s \<equiv> map t_in_use (g_transfer_pool s)"

lemma own_step_used:
  assumes "own_step i s s'" "i < length (g_transfer_pool s)"
  shows "transfer_used s' = (transfer_used s)[i := t_in_use (tr s' i)]"
  using assms own_step_len [OF assms(1)] own_step_other [OF assms(1)]
  by (intro nth_equalityI) (auto simp: nth_list_update)

interpretation transfer_pool: object_pool transfer_used transfer_take transfer_give
  "\<lambda>s. \<exists>E S R. tsys_inv E S R s"
proof
  fix s i
  assume "\<exists>E S R. tsys_inv E S R s"
  then obtain E S R where inv: "tsys_inv E S R s" by blast
  obtain st p s' where a: "tftp_transfer_acquire (Some None) s = ((st, p), s')" by (metis prod.collapse)
  note ac = acquire_safe [OF inv a]
  show "\<exists>s'. transfer_take s = ((TFTP_OK, Some i), s') \<and> transfer_used s' = (transfer_used s)[i := True]"
    if f: "first_index Not (transfer_used s) = Some i"
  proof -
    have f': "first_index (\<lambda>t. \<not> t_in_use t) (g_transfer_pool s) = Some i"
      using f by (simp add: first_index_map comp_def)
    then have "\<not> (\<forall>t\<in>set (g_transfer_pool s). t_in_use t)"
      by (auto simp: first_index_Some_iff)
    with ac f' own_step_used [of i s s'] show ?thesis by (auto simp: transfer_take_def a)
  qed
  show "first_index Not (transfer_used s) = None \<Longrightarrow> transfer_take s = ((TFTP_ERR_NO_RESOURCE, None), s)"
    using ac by (auto simp: transfer_take_def a first_index_map comp_def)
  show "\<exists>E S R. tsys_inv E S R (snd (transfer_take s))"
    using ac by (auto simp: transfer_take_def a)
  assume "i < length (transfer_used s)"
  then have i: "i < length (g_transfer_pool s)" by simp
  obtain q u where r: "tftp_transfer_release (Some (Some i)) s = (q, u)" by (meson surj_pair)
  from release_safe [OF inv i r] own_step_used [OF _ i, of u] inv
  show "transfer_used (transfer_give i s) = (transfer_used s)[i := False]"
    "\<exists>E S R. tsys_inv E S R (transfer_give i s)"
    by (auto simp: transfer_give_def r)
qed

end
