(* ===== verification/Tftp_Blocks.thy ===== *)
theory Tftp_Blocks
  imports Tftp_Packet Tftp_File
begin

text \<open>
  A file as the sequence of its blocks, and the abstract sender that hands them out: the
  specification that the transfer module and the older programs are compared with.
\<close>

section \<open>The abstract sender\<close>

text \<open>
  The state of the sender is the file and the number of blocks sent; an acknowledgement of the
  last block yields the next one or ends the transfer.  A file of \<open>n\<close> bytes has
  \<open>n div 512 + 1\<close> blocks, the last of them shorter than 512 bytes (possibly empty).
\<close>

definition file_block :: "bytes \<Rightarrow> nat \<Rightarrow> bytes" where
  "file_block c n = take TFTP_BLOCK_SIZE (drop (TFTP_BLOCK_SIZE * n) c)"

definition block_count :: "bytes \<Rightarrow> nat" where
  "block_count c = length c div TFTP_BLOCK_SIZE + 1"

definition sender_reply :: "bytes \<Rightarrow> nat \<Rightarrow> tftp_message option" where
  "sender_reply c n = (if n = block_count c then None else Some (Data (of_nat (Suc n)) (file_block c n)))"

lemma block_bytes: "TFTP_BLOCK_SIZE = 512"
  by (simp add: tftp_defs)

lemma length_file_block: "length (file_block c n) = min TFTP_BLOCK_SIZE (length c - TFTP_BLOCK_SIZE * n)"
  by (simp add: file_block_def min.commute)

lemma all_blocks_sent: "length c < TFTP_BLOCK_SIZE * n \<longleftrightarrow> block_count c \<le> n"
  by (auto simp: block_count_def block_bytes div_less_iff_less_mult Suc_le_eq mult.commute)

lemma short_block_is_last: "length (file_block c n) < TFTP_BLOCK_SIZE \<longleftrightarrow> block_count c \<le> Suc n"
  unfolding all_blocks_sent [symmetric] length_file_block by (auto simp: block_bytes)

text \<open>Joined, the blocks are the file.\<close>

lemma blocks_join: "concat (map (file_block c) [0..<block_count c]) = c"
proof -
  have b: "file_block c = (\<lambda>k. take TFTP_BLOCK_SIZE (drop (k * TFTP_BLOCK_SIZE) c))"
    by (simp add: fun_eq_iff file_block_def mult.commute)
  have "concat (map (file_block c) [0..<n]) = take (n * TFTP_BLOCK_SIZE) c" for n
    unfolding b by (rule concat_blocks) (simp add: block_bytes)
  moreover have "length c \<le> block_count c * TFTP_BLOCK_SIZE"
    using all_blocks_sent [of c "block_count c"] by (simp add: mult.commute)
  ultimately show ?thesis by simp
qed

text \<open>The acknowledgements of the blocks \<open>n\<close> to the last, and the datagrams they draw.\<close>

definition acks :: "sockaddr_in \<Rightarrow> nat list \<Rightarrow> rx_answer list" where
  "acks peer ns = map (\<lambda>k. Rx_data peer (encode (Ack (of_nat k)))) ns"

definition blocks_from :: "bytes \<Rightarrow> int \<Rightarrow> sockaddr_in \<Rightarrow> nat list \<Rightarrow> (int \<times> sockaddr_in \<times> bytes) list" where
  "blocks_from c fd peer ns = map (\<lambda>k. (fd, peer, encode (Data (of_nat (Suc k)) (file_block c k)))) ns"

end
