(* ===== verification/Transfer_Protocol.thy ===== *)
theory Transfer_Protocol
  imports Transfer_Safety Tftp_Blocks
begin

text \<open>
  What a transfer does: its reaction to every datagram, on every branch, and, on a machine whose
  calls do not fail, the refinement of the abstract sender that hands out a file in blocks of
  512 bytes, up to the complete delivery of a file of any length.
\<close>

section \<open>Sending without faults\<close>

lemma send_ok:
  assumes inv: "tsys_inv E S R s" and p: "p < UDP_TRANSPORT_POOL_SIZE" "u_open (sock s p)"
    and f: "faults (ts_os s) = []" and b: "0 < n" "n \<le> length b"
  shows "udp_call (udp_transport_send (Some p) (Some b) n (Some d)) s =
    (TFTP_OK, s\<lparr>ts_os := (ts_os s)\<lparr>sent := sent (ts_os s) @ [(u_fd (sock s p), d, take n b)]\<rparr>\<rparr>)"
  using udp_inv_openD [OF tsys_invD(1) [OF inv] p(1)] p f b
  by (simp add: udp_call_def udp_transport_send_def sys_sendto_def Let_def min_def)

text \<open>
  The abstraction relation: transfer \<open>i\<close> has sent the first \<open>n\<close> blocks of the file \<open>c\<close> and
  waits for the acknowledgement of the last of them.
\<close>

definition file_at :: "bytes \<Rightarrow> nat \<Rightarrow> nat \<Rightarrow> tsys \<Rightarrow> bool" where
  "file_at c n i s \<longleftrightarrow> (\<exists>q sid path. t_file (tr s i) = Some q \<and>
     open_on q TFTP_FILE_READ sid path c (min (TFTP_BLOCK_SIZE * n) (length c)) (ts_file s, ts_os s))"

definition serving :: "bytes \<Rightarrow> nat \<Rightarrow> nat \<Rightarrow> tsys \<Rightarrow> bool" where
  "serving c n i s \<longleftrightarrow> n \<le> block_count c \<and> t_initialized (tr s i) \<and> t_state (tr s i) = TFTP_TRANSFER_WAIT_ACK \<and>
     t_block (tr s i) = of_nat n \<and> t_expected_block (tr s i) = of_nat n \<and>
     (t_final_data (tr s i) \<longleftrightarrow> block_count c \<le> n) \<and> file_at c n i s \<and>
     (\<exists>p. t_transport (tr s i) = Some p \<and> u_open (sock s p))"

lemma send_next_serves:
  assumes inv: "tsys_inv E S R s" and i: "i < length (g_transfer_pool s)"
    and t: "t_initialized (tr s i)" "t_block (tr s i) = of_nat n"
      "t_transport (tr s i) = Some p" "u_open (sock s p)" and f: "file_at c n i s"
    and more: "n < block_count c"
  shows "\<exists>s'. transfer_send_next_data i s = (TFTP_OK, s') \<and> serving c (Suc n) i s' \<and>
    t_peer (tr s' i) = t_peer (tr s i) \<and> t_transport (tr s' i) = Some p \<and>
    ts_udp s' = ts_udp s \<and> rx (ts_os s') = rx (ts_os s) \<and>
    sent (ts_os s') = sent (ts_os s) @
      [(u_fd (sock s p), t_peer (tr s i), encode (Data (of_nat (Suc n)) (file_block c n)))]"
proof -
  let ?pos = "min (TFTP_BLOCK_SIZE * n) (length c)"
  from f obtain q sid path where q: "t_file (tr s i) = Some q"
    and o: "open_on q TFTP_FILE_READ sid path c ?pos (ts_file s, ts_os s)" by (auto simp: file_at_def)
  have d: "take TFTP_BLOCK_SIZE (drop ?pos c) = file_block c n"
    by (cases "TFTP_BLOCK_SIZE * n \<le> length c") (simp_all add: min_def file_block_def)
  from file_read_ok [OF o, of "replicate TFTP_BLOCK_SIZE 0" TFTP_BLOCK_SIZE 0] obtain v where
    r: "tftp_file_read (Some q) (Some (replicate TFTP_BLOCK_SIZE 0)) TFTP_BLOCK_SIZE (Some 0) (ts_file s, ts_os s) =
      ((TFTP_OK, Some (memcpy_at 0 (file_block c n) (replicate TFTP_BLOCK_SIZE 0)), Some (length (file_block c n))), v)"
    and v: "open_on q TFTP_FILE_READ sid path c (?pos + length (file_block c n)) v" "fst v = ts_file s"
      "snd v = (ts_os s)\<lparr>streams := streams (snd v)\<rparr>" unfolding d by auto
  let ?s1 = "s\<lparr>ts_os := snd v\<rparr>"
  have r1: "file_call (tftp_file_read (t_file (tr s i)) (Some (replicate TFTP_BLOCK_SIZE 0))
      TFTP_BLOCK_SIZE (Some 0)) s =
      ((TFTP_OK, Some (memcpy_at 0 (file_block c n) (replicate TFTP_BLOCK_SIZE 0)), Some (length (file_block c n))), ?s1)"
    using r v(2) q by (cases v) (simp add: file_call_def)
  have k: "sent (snd v) = sent (ts_os s)" "rx (snd v) = rx (ts_os s)" "faults (snd v) = []"
    using arg_cong [OF v(3), of sent] arg_cong [OF v(3), of rx] v(1) by (simp_all add: open_on_def)
  have p: "p < UDP_TRANSPORT_POOL_SIZE" by (rule owner_transport(1) [OF inv i t(3)])
  from send_next_unfold [OF inv i r1] obtain data buf where
    data: "Some (length (file_block c n)) = Some (length data)" "length data \<le> TFTP_BLOCK_SIZE"
      "Some (memcpy_at 0 (file_block c n) (replicate TFTP_BLOCK_SIZE 0)) =
        Some (data @ replicate (TFTP_BLOCK_SIZE - length data) 0)"
    and buf: "length buf = TFTP_MAX_PACKET_SIZE" "take (4 + length data) buf = encode (Data (t_block (tr s i) + 1) data)"
    and e: "transfer_send_next_data i s =
        (case udp_call (udp_transport_send (t_transport (tr s i)) (Some buf) (4 + length data)
                 (Some (t_peer (tr s i))))
               (upd_tr i (\<lambda>t. t\<lparr>t_block := t_block t + 1, t_packet_buffer := buf,
                  t_packet_length := 4 + length data, t_final_data := length data < TFTP_BLOCK_SIZE,
                  t_expected_block := t_block t + 1\<rparr>) ?s1) of
           (st, s3) \<Rightarrow> if st \<noteq> TFTP_OK then (st, s3)
             else (TFTP_OK, upd_tr i (\<lambda>t. t\<lparr>t_state := TFTP_TRANSFER_WAIT_ACK\<rparr>) s3))"
    by blast
  have same: "data = file_block c n"
  proof -
    have "take (length (file_block c n)) (memcpy_at 0 (file_block c n) (replicate TFTP_BLOCK_SIZE 0)) = file_block c n"
      by (rule take_memcpy_at_0)
    with data(1,3) show ?thesis by simp
  qed
  let ?f = "\<lambda>t. t\<lparr>t_block := t_block t + 1, t_packet_buffer := buf,
      t_packet_length := 4 + length data, t_final_data := length data < TFTP_BLOCK_SIZE,
      t_expected_block := t_block t + 1\<rparr> :: tftp_transfer"
  let ?s2 = "upd_tr i ?f ?s1"
  from read_next_block [OF inv i r1] have inv1: "tsys_inv E S R ?s1" by blast
  have i1: "i < length (g_transfer_pool ?s1)" using i by simp
  have "same_owner (tr ?s1 i) (?f (tr ?s1 i))"
    using tsys_inv_tr [OF inv i] buf by (simp add: same_owner_def transfer_ok_def)
  then have inv2: "tsys_inv E S R ?s2" by (rule owned_cosmetic [where f = ?f, OF inv1 i1])
  have snd: "udp_call (udp_transport_send (Some p) (Some buf) (4 + length data) (Some (t_peer (tr s i)))) ?s2 =
      (TFTP_OK, ?s2\<lparr>ts_os := (snd v)\<lparr>sent := sent (ts_os s) @
        [(u_fd (sock s p), t_peer (tr s i), take (4 + length data) buf)]\<rparr>\<rparr>)"
    using send_ok [OF inv2 p, of "4 + length data" buf] t(4) k buf(1) data(2) by (simp add: tftp_defs)
  let ?s' = "upd_tr i (\<lambda>t. t\<lparr>t_state := TFTP_TRANSFER_WAIT_ACK\<rparr>) (?s2\<lparr>ts_os := (snd v)\<lparr>sent := sent (ts_os s) @
        [(u_fd (sock s p), t_peer (tr s i), take (4 + length data) buf)]\<rparr>\<rparr>)"
  have res: "transfer_send_next_data i s = (TFTP_OK, ?s')" unfolding e t(3) snd by simp
  have bn: "t_block (tr s i) + 1 = of_nat (Suc n)" using t(2) by (simp add: add.commute)
  have t': "tr ?s' i = (?f (tr s i))\<lparr>t_state := TFTP_TRANSFER_WAIT_ACK\<rparr>" using i by (simp add: upd_tr_def)
  have fin: "length data < TFTP_BLOCK_SIZE \<longleftrightarrow> block_count c \<le> Suc n"
    unfolding same by (rule short_block_is_last)
  have pos: "?pos + length (file_block c n) = min (TFTP_BLOCK_SIZE * Suc n) (length c)"
    by (auto simp: length_file_block min_def)
  have "open_on q TFTP_FILE_READ sid path c (min (TFTP_BLOCK_SIZE * Suc n) (length c)) (ts_file ?s', ts_os ?s')"
    using v(1,2) unfolding pos by (simp add: open_on_def)
  then have "file_at c (Suc n) i ?s'" using q t' by (auto simp: file_at_def)
  then have "serving c (Suc n) i ?s'"
    using t t' bn fin more by (simp add: serving_def)
  moreover have "take (4 + length data) buf = encode (Data (of_nat (Suc n)) (file_block c n))"
    using buf(2) bn same by simp
  ultimately show ?thesis
    using res t' t k by (intro exI [of _ ?s']) simp
qed

section \<open>Reaction to a datagram\<close>

lemma wf_encode_parse:
  assumes "wf_message m" "take n b = encode m" "n \<le> length b"
  shows "tftp_packet_parse (Some b) n (Some packet_zero) = (TFTP_OK, Some (packet_view m))"
proof -
  have "n = length (encode m)" using arg_cong [OF assms(2), of length] assms(3) by simp
  with parse_encode [OF assms(1), of packet_zero] parse_take [OF assms(3), of "Some packet_zero"] assms(2)
  show ?thesis by simp
qed

lemma encode_at_least_header: "wf_message m \<Longrightarrow> 4 \<le> length (encode m)"
  by (cases m) simp_all

lemma view_ack: "wf_message m \<Longrightarrow> p_opcode (packet_view m) = TFTP_OPCODE_ACK \<longleftrightarrow> (\<exists>k. m = Ack k)"
  by (cases m) auto

lemma encode_inj:
  assumes "wf_message m" "encode m = encode (Ack k)"
  shows "m = Ack k"
proof -
  have "packet_view m = packet_view (Ack k)"
    using parse_encode [OF assms(1), of packet_zero] parse_encode [of "Ack k" packet_zero] assms(2) by simp
  then show ?thesis by (cases m) auto
qed

lemma rx_ack:
  assumes "t_initialized (tr s i)" "t_state (tr s i) = TFTP_TRANSFER_WAIT_ACK" "n \<le> length b"
    and "take n b = encode (Ack k)"
  shows "tftp_transfer_handle_event (Some i) TFTP_TRANSFER_EVENT_RX_PACKET (Some b) n s =
    (if k \<noteq> t_expected_block (tr s i) then (TFTP_ERR_INVALID_BLOCK, s)
     else if t_final_data (tr s i) then (TFTP_OK, upd_tr i (\<lambda>t. t\<lparr>t_state := TFTP_TRANSFER_COMPLETE\<rparr>) s)
     else transfer_send_next_data i s)"
proof -
  have "n = 4" using arg_cong [OF assms(4), of length] assms(3) by simp
  then show ?thesis
    using assms wf_encode_parse [of "Ack k" n b]
    by (simp add: tftp_transfer_handle_event_def tftp_defs)
qed

lemma rx_other:
  assumes "t_initialized (tr s i)" "t_state (tr s i) = TFTP_TRANSFER_WAIT_ACK" "n \<le> length b"
    and "wf_message m" "take n b = encode m" "\<forall>k. m \<noteq> Ack k"
  shows "tftp_transfer_handle_event (Some i) TFTP_TRANSFER_EVENT_RX_PACKET (Some b) n s = (TFTP_ERR_PROTOCOL, s)"
proof -
  have "4 \<le> n" using arg_cong [OF assms(5), of length] assms(3) encode_at_least_header [OF assms(4)] by simp
  then show ?thesis
    using assms wf_encode_parse [OF assms(4,5,3)] view_ack [OF assms(4)]
    by (simp add: tftp_transfer_handle_event_def tftp_defs)
qed

lemma rx_malformed:
  assumes "t_initialized (tr s i)" "t_state (tr s i) = TFTP_TRANSFER_WAIT_ACK" "n \<le> length b"
    and "\<nexists>m. wf_message m \<and> take n b = encode m"
  shows "\<exists>st. st \<noteq> TFTP_OK \<and>
    tftp_transfer_handle_event (Some i) TFTP_TRANSFER_EVENT_RX_PACKET (Some b) n s = (st, s)"
proof (cases "n < 4")
  case True
  with assms(1) show ?thesis by (simp add: tftp_transfer_handle_event_def tftp_defs)
next
  case False
  obtain st pk where p: "tftp_packet_parse (Some b) n (Some packet_zero) = (st, pk)" by (meson surj_pair)
  have "st \<noteq> TFTP_OK"
  proof
    assume ok: "st = TFTP_OK"
    from p have "pk \<noteq> None" by (auto simp: tftp_packet_parse_def Let_def split: if_splits)
    with p ok have "tftp_packet_parse (Some b) n (Some packet_zero) = (TFTP_OK, Some (the pk))" by simp
    then show False
      using parse_iff [of "take n b" packet_zero "the pk"] parse_take [OF assms(3), of "Some packet_zero"]
        assms(3,4) by (auto simp: min_absorb2)
  qed
  with False assms p show ?thesis by (simp add: tftp_transfer_handle_event_def tftp_defs)
qed

section \<open>The handler on one datagram\<close>

abbreviation next_rx :: "tsys \<Rightarrow> tsys" where
  "next_rx s \<equiv> s\<lparr>ts_os := (ts_os s)\<lparr>rx := tl (rx (ts_os s))\<rparr>\<rparr>"

lemma handler_input_ok:
  assumes inv: "tsys_inv E S R s" and p: "p < UDP_TRANSPORT_POOL_SIZE" "u_open (sock s p)"
      "t_transport (tr s i) = Some p"
    and r: "rx (ts_os s) = Rx_data from d # rest"
  shows "\<exists>b. length b = TFTP_MAX_PACKET_SIZE \<and>
    take (min (length d) TFTP_MAX_PACKET_SIZE) b = take TFTP_MAX_PACKET_SIZE d \<and>
    handler_input i s = ((TFTP_OK, Some b, Some (min (length d) TFTP_MAX_PACKET_SIZE), Some from), next_rx s)"
  using udp_inv_openD [OF tsys_invD(1) [OF inv] p(1)] p(2,3) r
  by (auto simp: handler_input_def udp_call_def udp_transport_receive_def sys_recvfrom_def Let_def
      memcpy_at_def tftp_defs min_def)

text \<open>The handler on a datagram of the peer, and on one of somebody else.\<close>

lemma same_peer_refl [simp]: "transfer_same_peer a a"
  by (simp add: transfer_same_peer_def)

lemma handler_on_datagram:
  assumes inv: "tsys_inv E S R s" and i: "i < length (g_transfer_pool s)"
    and p: "t_transport (tr s i) = Some p" "u_open (sock s p)"
    and r: "rx (ts_os s) = Rx_data from d # rest"
  shows "\<exists>b. length b = TFTP_MAX_PACKET_SIZE \<and>
    take (min (length d) TFTP_MAX_PACKET_SIZE) b = take TFTP_MAX_PACKET_SIZE d \<and>
    transfer_udp_handler (u_fd (sock s p)) REACTOR_EVENT_READ (Some i) s =
      (if \<not> transfer_same_peer (t_peer (tr s i)) from then next_rx s
       else (case tftp_transfer_handle_event (Some i) TFTP_TRANSFER_EVENT_RX_PACKET (Some b)
               (min (length d) TFTP_MAX_PACKET_SIZE) (next_rx s) of (st, s2) \<Rightarrow> settle i st s2))"
proof -
  have q: "p < UDP_TRANSPORT_POOL_SIZE" by (rule owner_transport(1) [OF inv i p(1)])
  from handler_input_ok [OF inv q p(2,1) r] obtain b where b: "length b = TFTP_MAX_PACKET_SIZE"
    "take (min (length d) TFTP_MAX_PACKET_SIZE) b = take TFTP_MAX_PACKET_SIZE d"
    "handler_input i s = ((TFTP_OK, Some b, Some (min (length d) TFTP_MAX_PACKET_SIZE), Some from), next_rx s)"
    by blast
  have g: "get_fd (t_transport (tr s i)) s = u_fd (sock s p)"
    using get_fd_open(1) [OF inv q] p by simp
  have ev: "REACTOR_EVENT_READ AND REACTOR_EVENT_ERROR = 0" "REACTOR_EVENT_READ AND REACTOR_EVENT_READ \<noteq> 0"
    by (simp_all add: REACTOR_EVENT_READ_def REACTOR_EVENT_ERROR_def)
  show ?thesis
    by (rule exI [of _ b]) (use b p g ev in \<open>simp add: handler_cases\<close>)
qed

lemma inv_next_rx:
  assumes inv: "tsys_inv E S R s" and i: "i < length (g_transfer_pool s)"
    and p: "t_transport (tr s i) = Some p" "u_open (sock s p)"
    and r: "rx (ts_os s) = Rx_data from d # rest"
  shows "tsys_inv E S R (next_rx s)"
proof -
  from handler_input_ok [OF inv owner_transport(1) [OF inv i p(1)] p(2,1) r] show ?thesis
    unfolding handler_input_def using owned_receive [OF inv] by blast
qed

lemma settle_quiet:
  assumes inv: "tsys_inv E S R s" and i: "i < length (g_transfer_pool s)"
  shows "script_same (ts_os s) (ts_os (settle i st s))"
proof -
  let ?s1 = "if st \<noteq> TFTP_OK then snd (tftp_transfer_abort (Some i) s) else s"
  from abort_safe [OF inv i] inv have inv1: "tsys_inv E S R ?s1" and o1: "own_step i s ?s1" by simp_all
  have i1: "i < length (g_transfer_pool ?s1)" using i own_step_len [OF o1] by simp
  have os1: "ts_os ?s1 = ts_os s" by (simp add: tftp_transfer_abort_def)
  obtain q s2 where r: "tftp_transfer_release (Some (Some i)) ?s1 = (q, s2)" by (meson surj_pair)
  have "settle i st s = ?s1 \<or> settle i st s = s2" using r by (auto simp: settle_def Let_def)
  then show ?thesis using release_safe [OF inv1 i1 r] os1 by (auto simp only: script_same_refl)
qed

lemma datagram_reaction_facts:
  assumes inv: "tsys_inv E S R s" and i: "i < length (g_transfer_pool s)"
    and t: "t_initialized (tr s i)" "t_state (tr s i) = TFTP_TRANSFER_WAIT_ACK"
    and p: "t_transport (tr s i) = Some p" "u_open (sock s p)"
    and r: "rx (ts_os s) = Rx_data from d # rest"
    and s': "s' = transfer_udp_handler (u_fd (sock s p)) REACTOR_EVENT_READ (Some i) s"
  shows "(\<not> transfer_same_peer (t_peer (tr s i)) from \<longrightarrow> s' = next_rx s) \<and>
    (transfer_same_peer (t_peer (tr s i)) from \<longrightarrow>
      (if d = encode (Ack (t_expected_block (tr s i))) \<and> \<not> t_final_data (tr s i)
       then s' = (case transfer_send_next_data i (next_rx s) of (st, u) \<Rightarrow> settle i st u)
       else tr s' i = retired (length (t_filename (tr s i))) \<and> sent (ts_os s') = sent (ts_os s))) \<and>
    (\<forall>j. j \<noteq> i \<longrightarrow> tr s' j = tr s j)"
proof -
  let ?n = "min (length d) TFTP_MAX_PACKET_SIZE"
  let ?k = "t_expected_block (tr s i)"
  let ?u = "next_rx s"
  from handler_on_datagram [OF inv i p r] obtain b where b: "length b = TFTP_MAX_PACKET_SIZE"
      "take ?n b = take TFTP_MAX_PACKET_SIZE d"
    and h: "s' = (if \<not> transfer_same_peer (t_peer (tr s i)) from then ?u
       else (case tftp_transfer_handle_event (Some i) TFTP_TRANSFER_EVENT_RX_PACKET (Some b) ?n ?u of
         (st, s2) \<Rightarrow> settle i st s2))" unfolding s' by blast
  have inv1: "tsys_inv E S R ?u" by (rule inv_next_rx [OF inv i p r])
  have i1: "i < length (g_transfer_pool ?u)" and t1: "t_initialized (tr ?u i)"
    "t_state (tr ?u i) = TFTP_TRANSFER_WAIT_ACK" and n: "?n \<le> length b" using i t b by simp_all
  have ack: "take ?n b = encode (Ack k) \<longleftrightarrow> d = encode (Ack k)" for k
  proof -
    have "take TFTP_MAX_PACKET_SIZE d = encode (Ack k) \<Longrightarrow> length d = 4"
      by (drule arg_cong [where f = length]) (simp add: tftp_defs min_def split: if_splits)
    then show ?thesis unfolding b(2) by (auto simp: tftp_defs)
  qed
  have over: "tr (settle i st ?u) i = retired (length (t_filename (tr s i))) \<and>
      sent (ts_os (settle i st ?u)) = sent (ts_os s)" if "st \<noteq> TFTP_OK" for st
    using settle_safe [OF inv1 i1, of st] settle_quiet [OF inv1 i1, of st] that
    by (simp add: script_same_def)
  have "\<forall>j. j \<noteq> i \<longrightarrow> tr s' j = tr s j"
    using transfer_handler_safe [OF inv i] own_step_other unfolding s' by blast
  moreover have "if d = encode (Ack ?k) \<and> \<not> t_final_data (tr s i)
       then s' = (case transfer_send_next_data i ?u of (st, u) \<Rightarrow> settle i st u)
       else tr s' i = retired (length (t_filename (tr s i))) \<and> sent (ts_os s') = sent (ts_os s)"
    if same: "transfer_same_peer (t_peer (tr s i)) from"
  proof (cases "d = encode (Ack ?k)")
    case True
    with ack [of ?k] have e: "tftp_transfer_handle_event (Some i) TFTP_TRANSFER_EVENT_RX_PACKET (Some b) ?n ?u =
      (if t_final_data (tr s i) then (TFTP_OK, upd_tr i (\<lambda>t. t\<lparr>t_state := TFTP_TRANSFER_COMPLETE\<rparr>) ?u)
       else transfer_send_next_data i ?u)"
      using rx_ack [OF t1 n, of ?k] by simp
    let ?v = "upd_tr i (\<lambda>t. t\<lparr>t_state := TFTP_TRANSFER_COMPLETE\<rparr>) ?u"
    have inv2: "tsys_inv E S R ?v" by (rule owned_cosmetic [OF inv1 i1]) (simp add: same_owner_def)
    have i2: "i < length (g_transfer_pool ?v)" using i by simp
    have v: "tr ?v i = (tr s i)\<lparr>t_state := TFTP_TRANSFER_COMPLETE\<rparr>" "sent (ts_os ?v) = sent (ts_os s)"
      using i by (simp_all add: upd_tr_def)
    show ?thesis
    proof (cases "t_final_data (tr s i)")
      case f: True
      have "s' = settle i TFTP_OK ?v" using h same e f by simp
      with settle_safe [OF inv2 i2, of TFTP_OK] settle_quiet [OF inv2 i2, of TFTP_OK] f v show ?thesis
        by (simp add: script_same_def)
    next
      case False
      with h same e True show ?thesis by simp
    qed
  next
    case False
    have "\<exists>st. st \<noteq> TFTP_OK \<and>
      tftp_transfer_handle_event (Some i) TFTP_TRANSFER_EVENT_RX_PACKET (Some b) ?n ?u = (st, ?u)"
    proof (cases "\<exists>m. wf_message m \<and> take ?n b = encode m")
      case True
      then obtain m where m: "wf_message m" "take ?n b = encode m" by blast
      show ?thesis
      proof (cases "\<exists>k. m = Ack k")
        case True
        then obtain k where k: "m = Ack k" by blast
        with m ack False have "k \<noteq> ?k" by auto
        with rx_ack [OF t1 n m(2) [unfolded k]] show ?thesis by simp
      qed (use rx_other [OF t1 n m] in simp)
    qed (rule rx_malformed [OF t1 n])
    then obtain st where "st \<noteq> TFTP_OK" "s' = settle i st ?u" using h same by auto
    with over False show ?thesis by simp
  qed
  moreover have "\<not> transfer_same_peer (t_peer (tr s i)) from \<longrightarrow> s' = ?u" using h by simp
  ultimately show ?thesis by blast
qed

section \<open>Refinement of the sender\<close>

abbreviation on_ack :: "nat \<Rightarrow> nat \<Rightarrow> tsys \<Rightarrow> tsys" where
  "on_ack p i s \<equiv> transfer_udp_handler (u_fd (sock s p)) REACTOR_EVENT_READ (Some i) s"

lemma next_rx_serving:
  "serving c n i s \<Longrightarrow> file_at c n i (next_rx s)"
  by (auto simp: serving_def file_at_def open_on_def)

lemma settle_serving: "serving c n i s \<Longrightarrow> settle i TFTP_OK s = s"
  by (simp add: settle_def serving_def)

lemma ack_sends_next:
  assumes inv: "tsys_inv E S R s" and i: "i < length (g_transfer_pool s)"
    and v: "serving c n i s" "t_transport (tr s i) = Some p" "n < block_count c"
    and r: "rx (ts_os s) = Rx_data (t_peer (tr s i)) (encode (Ack (of_nat n))) # rest"
  shows "serving c (Suc n) i (on_ack p i s) \<and> t_transport (tr (on_ack p i s) i) = Some p \<and>
    t_peer (tr (on_ack p i s) i) = t_peer (tr s i) \<and> ts_udp (on_ack p i s) = ts_udp s \<and>
    rx (ts_os (on_ack p i s)) = rest \<and>
    sent (ts_os (on_ack p i s)) = sent (ts_os s) @
      [(u_fd (sock s p), t_peer (tr s i), encode (Data (of_nat (Suc n)) (file_block c n)))]"
proof -
  have t: "t_initialized (tr s i)" "t_state (tr s i) = TFTP_TRANSFER_WAIT_ACK" "u_open (sock s p)"
    "t_expected_block (tr s i) = of_nat n" "\<not> t_final_data (tr s i)" "t_block (tr s i) = of_nat n"
    using v by (auto simp: serving_def)
  have inv1: "tsys_inv E S R (next_rx s)" by (rule inv_next_rx [OF inv i v(2) t(3) r])
  have i1: "i < length (g_transfer_pool (next_rx s))" using i by simp
  have t1: "t_initialized (tr (next_rx s) i)" "t_block (tr (next_rx s) i) = of_nat n"
    "t_transport (tr (next_rx s) i) = Some p" "u_open (sock (next_rx s) p)" using t v(2) by simp_all
  from send_next_serves [OF inv1 i1 t1 next_rx_serving [OF v(1)] v(3)] obtain u where
    u: "transfer_send_next_data i (next_rx s) = (TFTP_OK, u)" "serving c (Suc n) i u"
      "t_peer (tr u i) = t_peer (tr s i)" "t_transport (tr u i) = Some p" "ts_udp u = ts_udp s"
      "rx (ts_os u) = rest" "sent (ts_os u) = sent (ts_os s) @
        [(u_fd (sock s p), t_peer (tr s i), encode (Data (of_nat (Suc n)) (file_block c n)))]"
    using r by auto
  from handler_on_datagram [OF inv i v(2) t(3) r] obtain b where b: "length b = TFTP_MAX_PACKET_SIZE"
      "take (min 4 TFTP_MAX_PACKET_SIZE) b = encode (Ack (of_nat n))"
    and h: "on_ack p i s = (case tftp_transfer_handle_event (Some i) TFTP_TRANSFER_EVENT_RX_PACKET (Some b)
        (min 4 TFTP_MAX_PACKET_SIZE) (next_rx s) of (st, s2) \<Rightarrow> settle i st s2)"
    by (auto simp: tftp_defs)
  have "tftp_transfer_handle_event (Some i) TFTP_TRANSFER_EVENT_RX_PACKET (Some b)
      (min 4 TFTP_MAX_PACKET_SIZE) (next_rx s) = (TFTP_OK, u)"
    using rx_ack [OF t1(1) _ _ b(2)] t b(1) u(1) by (simp add: tftp_defs)
  with h u(2) have "on_ack p i s = u" by (simp add: settle_serving)
  with u show ?thesis by simp
qed

lemma ack_ends_transfer:
  assumes inv: "tsys_inv E S R s" and i: "i < length (g_transfer_pool s)"
    and v: "serving c (block_count c) i s" "t_transport (tr s i) = Some p"
    and r: "rx (ts_os s) = Rx_data (t_peer (tr s i)) (encode (Ack (of_nat (block_count c)))) # rest"
  shows "tr (on_ack p i s) i = retired (length (t_filename (tr s i))) \<and>
    sent (ts_os (on_ack p i s)) = sent (ts_os s)"
proof -
  have t: "t_initialized (tr s i)" "t_state (tr s i) = TFTP_TRANSFER_WAIT_ACK" "u_open (sock s p)"
    "t_final_data (tr s i)" using v by (auto simp: serving_def)
  from datagram_reaction_facts [OF inv i t(1,2) v(2) t(3) r refl] t(4) show ?thesis by simp
qed

lemma acks_delivered:
  assumes "tsys_inv E S R s" "i < length (g_transfer_pool s)"
    and "serving c n i s" "t_transport (tr s i) = Some p" "n + m = block_count c"
    and "rx (ts_os s) = acks (t_peer (tr s i)) [n..<Suc (n + m)] @ rest" "fd = u_fd (sock s p)"
  shows "t_in_use (tr ((transfer_udp_handler fd REACTOR_EVENT_READ (Some i) ^^ Suc m) s) i) = False \<and>
    sent (ts_os ((transfer_udp_handler fd REACTOR_EVENT_READ (Some i) ^^ Suc m) s)) =
      sent (ts_os s) @ blocks_from c fd (t_peer (tr s i)) [n..<n + m]"
  using assms
proof (induction m arbitrary: n s)
  case 0
  then have "serving c (block_count c) i s" "n = block_count c" by simp_all
  from ack_ends_transfer [OF 0(1,2) this(1) 0(4)] this(2) 0(6) show ?case
    by (simp add: acks_def blocks_from_def 0(7) retired_def tftp_transfer_zero_def)
next
  case (Suc m)
  let ?h = "transfer_udp_handler fd REACTOR_EVENT_READ (Some i)"
  have "rx (ts_os s) = Rx_data (t_peer (tr s i)) (encode (Ack (of_nat n))) #
      (acks (t_peer (tr s i)) [Suc n..<Suc (Suc n + m)] @ rest)"
    using Suc.prems(6) by (simp add: acks_def upt_conv_Cons del: upt_Suc)
  moreover have "n < block_count c" using Suc.prems(5) by simp
  ultimately have 1: "serving c (Suc n) i (?h s)" "t_transport (tr (?h s) i) = Some p"
      "t_peer (tr (?h s) i) = t_peer (tr s i)" "ts_udp (?h s) = ts_udp s"
      "rx (ts_os (?h s)) = acks (t_peer (tr s i)) [Suc n..<Suc (Suc n + m)] @ rest"
      "sent (ts_os (?h s)) = sent (ts_os s) @
        [(fd, t_peer (tr s i), encode (Data (of_nat (Suc n)) (file_block c n)))]"
    using ack_sends_next [OF Suc.prems(1,2,3,4)] unfolding Suc.prems(7) by blast+
  from transfer_handler_safe [OF Suc.prems(1,2)] have inv: "tsys_inv E S R (?h s)"
    and o: "own_step i s (?h s)" by blast+
  have len: "i < length (g_transfer_pool (?h s))" using Suc.prems(2) own_step_len [OF o] by simp
  have e: "Suc n + m = block_count c" using Suc.prems(5) by simp
  have e2: "rx (ts_os (?h s)) = acks (t_peer (tr (?h s) i)) [Suc n..<Suc (Suc n + m)] @ rest"
    unfolding 1(3,5) ..
  have e3: "fd = u_fd (sock (?h s) p)" unfolding 1(4) by (rule Suc.prems(7))
  from Suc.IH [OF inv len 1(1,2) e e2 e3]
  have "t_in_use (tr ((?h ^^ Suc m) (?h s)) i) = False \<and> sent (ts_os ((?h ^^ Suc m) (?h s))) =
      sent (ts_os (?h s)) @ blocks_from c fd (t_peer (tr s i)) [Suc n..<Suc n + m]" unfolding 1(3) .
  moreover have "(?h ^^ Suc m) (?h s) = (?h ^^ Suc (Suc m)) s" by (simp only: funpow_Suc_right comp_def)
  moreover have "[n..<n + Suc m] = n # [Suc n..<Suc n + m]" by (simp add: upt_conv_Cons del: upt_Suc)
  ultimately show ?case using 1(6) by (simp add: blocks_from_def)
qed

section \<open>The start of a transfer without faults\<close>

definition has_room :: "tsys \<Rightarrow> bool" where
  "has_room s \<longleftrightarrow> (\<exists>p<UDP_TRANSPORT_POOL_SIZE. \<not> g_transport_used (ts_udp s) ! p) \<and>
     (\<exists>f\<in>set (g_file_pool (ts_file s)). \<not> f_in_use f) \<and>
     rc_initialized (g_reactor (ts_reactor s)) \<and>
     length (reg_table (ts_reactor s)) < rc_max_handlers (g_reactor (ts_reactor s))"

lemma sys_socket_ok:
  "faults k = [] \<Longrightarrow> \<exists>fd k'. sys_socket k = (fd, k') \<and> \<not> fd < 0 \<and> fd \<in> set (fds k') \<and> faults k' = []"
  by (simp add: sys_socket_def Let_def)

lemma sys_getfl_ok:
  "faults k = [] \<Longrightarrow> fd \<in> set (fds k) \<Longrightarrow> \<exists>flg. sys_fcntl_getfl fd k = (flg, k) \<and> \<not> flg < 0"
  by (simp add: sys_fcntl_getfl_def O_RDWR_def O_NONBLOCK_def)

lemma sys_setfl_ok:
  "faults k = [] \<Longrightarrow> fd \<in> set (fds k) \<Longrightarrow> \<exists>k'. sys_fcntl_setfl fd flg k = (0, k') \<and> faults k' = []"
  by (simp add: sys_fcntl_setfl_def)

lemma udp_open_ok:
  assumes "i < length (g_transport_pool (fst s))" "u_initialized (tp s i)" "\<not> u_open (tp s i)"
    "faults (snd s) = []"
  shows "\<exists>s'. udp_transport_open (Some i) s = (TFTP_OK, s') \<and> faults (snd s') = []"
proof -
  obtain fd k where so: "sys_socket (snd s) = (fd, k)" "\<not> fd < 0" "fd \<in> set (fds k)" "faults k = []"
    using sys_socket_ok [OF assms(4)] by blast
  obtain flg where gf: "sys_fcntl_getfl fd k = (flg, k)" "\<not> flg < 0" using sys_getfl_ok [OF so(4,3)] by blast
  obtain k' where sf: "sys_fcntl_setfl fd (flg OR O_NONBLOCK) k = (0, k')" "faults k' = []"
    using sys_setfl_ok [OF so(4,3)] by blast
  note run = udp_transport_open_def set_tp_def Let_def option.case simp_thms if_False prod.case fst_conv
    snd_conv if_True
  have "fst (udp_transport_open (Some i) s) = TFTP_OK"
    using assms(1-3) so(1,2) gf sf(1) by (simp only: run split: if_split) simp
  moreover have "faults (snd (snd (udp_transport_open (Some i) s))) = []"
    using assms(1-3) so(1,2) gf sf(1)
    by (simp only: run split: if_split) (intro conjI impI, simp_all only: run sf so less_irrefl split: if_split)
  ultimately show ?thesis by (metis prod.collapse)
qed

lemma free_slot: "x \<in> set l \<Longrightarrow> P x \<Longrightarrow> \<exists>q. first_index P l = Some q"
  using first_index_None_iff [of P l] by (cases "first_index P l") auto

lemma open_transport_ok:
  assumes inv: "tsys_inv E S R s" and i: "i < length (g_transfer_pool s)"
    and t: "t_transport (tr s i) = None" "t_in_use (tr s i)"
    and free: "\<exists>p<UDP_TRANSPORT_POOL_SIZE. \<not> g_transport_used (ts_udp s) ! p" and f: "faults (ts_os s) = []"
  shows "\<exists>s'. transfer_open_transport i s = (TFTP_OK, s') \<and> faults (ts_os s') = []"
proof -
  from free obtain p where "p < length (g_transport_used (ts_udp s))" "\<not> g_transport_used (ts_udp s) ! p"
    unfolding used_len [OF inv] by blast
  then obtain q where q: "first_index Not (g_transport_used (ts_udp s)) = Some q"
    using free_slot [OF nth_mem] by blast
  obtain st r s1 where a: "udp_call (udp_transport_acquire (Some (t_transport (tr s i)))) s = ((st, r), s1)"
    by (metis prod.collapse)
  have r: "st = TFTP_OK" "r = Some (Some q)" using a q by (auto simp: udp_call_eq udp_transport_acquire_def)
  with udp_acquire_call [OF inv a] have s1: "q < UDP_TRANSPORT_POOL_SIZE"
    "s1 = set_used q True (sock_change q fresh_sock (ts_os s) s)" by auto
  let ?s2 = "upd_tr i (\<lambda>t. t\<lparr>t_transport := Some q\<rparr>) s1"
  have inv2: "tsys_inv E S R ?s2" using owned_acquire_transport [OF inv i t a] r by simp
  have q2: "q < length (g_transport_pool (ts_udp ?s2))" using s1 pool_len [OF inv] by simp
  have fresh: "sock ?s2 q = fresh_sock" using s1 pool_len [OF inv] by simp
  obtain st3 s3 where n: "udp_call (udp_transport_init (Some q)
      (Some \<lparr>tc_local_port = 0, tc_non_blocking = True\<rparr>)) ?s2 = (st3, s3)" by (meson surj_pair)
  from owned_init_transport [OF inv2 s1(1) _ n] s1 used_len [OF inv] fresh obtain x where
    s3: "st3 = TFTP_OK" "s3 = sock_change q x (ts_os s) ?s2" "u_initialized x" "\<not> u_open x" by auto
  have "faults (ts_os s3) = []" "sock s3 q = x" "q < length (g_transport_pool (ts_udp s3))"
    using s3 f q2 by simp_all
  with udp_open_ok [of q "(ts_udp s3, ts_os s3)"] s3 obtain u where
    "udp_transport_open (Some q) (ts_udp s3, ts_os s3) = (TFTP_OK, u)" "faults (snd u) = []" by auto
  then have "udp_call (udp_transport_open (Some q)) s3 = (TFTP_OK, s3\<lparr>ts_udp := fst u, ts_os := snd u\<rparr>)"
    "faults (snd u) = []" by (simp_all add: udp_call_def split: prod.splits)
  moreover have "t_transport (tr ?s2 i) = Some q" "t_transport (tr s3 i) = Some q" using i s1 s3 by simp_all
  ultimately show ?thesis using a r n s3(1) by (simp add: transfer_open_transport_def)
qed

lemma open_file_ok:
  assumes f: "faults (ts_os s) = []" and i: "i < length (g_transfer_pool s)"
    and room: "\<exists>f\<in>set (g_file_pool (ts_file s)). \<not> f_in_use f"
    and path: "fs (ts_os s) (c_string path) = Some c"
  shows "\<exists>s'. transfer_open_file i path s = (TFTP_OK, s') \<and> faults (ts_os s') = [] \<and>
    file_at c 0 i s' \<and> script_same (ts_os s) (ts_os s') \<and> ts_reactor s' = ts_reactor s"
proof -
  obtain q where q: "first_index (\<lambda>f. \<not> f_in_use f) (g_file_pool (ts_file s)) = Some q"
    using room free_slot [of _ "g_file_pool (ts_file s)" "\<lambda>f. \<not> f_in_use f"] by blast
  then have ql: "q < length (g_file_pool (ts_file s))" by (auto simp: first_index_Some_iff)
  let ?s1 = "file_change q ((filo s q)\<lparr>f_in_use := True, f_open := False, f_fp := None\<rparr>) (ts_os s) s"
  let ?s2 = "upd_tr i (\<lambda>t. t\<lparr>t_file := Some q\<rparr>) ?s1"
  let ?s3 = "file_change q ((filo ?s2 q)\<lparr>f_open := False, f_fp := None\<rparr>) (ts_os ?s2) ?s2"
  have a: "file_call (tftp_file_acquire (Some (t_file (tr s i)))) s = ((TFTP_OK, Some (Some q)), ?s1)"
    by (simp add: file_call_def tftp_file_acquire_def q set_fl_def file_change_def)
  have n: "file_call (tftp_file_init (Some q)) ?s2 = (TFTP_OK, ?s3)"
    by (simp add: file_call_def tftp_file_init_def set_fl_def file_change_def)
  have q3: "q < length (g_file_pool (fst (ts_file ?s3, ts_os ?s3)))" "\<not> f_open (filo ?s3 q)"
    "faults (ts_os ?s3) = []" "fs (ts_os ?s3) (c_string path) = Some c" using ql f path by simp_all
  from file_open_ok [OF q3(1), of TFTP_FILE_READ path c] q3(2-4) obtain u sid where
    o: "tftp_file_open (Some q) (Some path) TFTP_FILE_READ (ts_file ?s3, ts_os ?s3) = (TFTP_OK, u)"
    and on: "open_on q TFTP_FILE_READ sid (c_string path) c 0 u" by auto
  let ?s4 = "?s3\<lparr>ts_file := fst u, ts_os := snd u\<rparr>"
  have o4: "file_call (tftp_file_open (Some q) (Some path) TFTP_FILE_READ) ?s3 = (TFTP_OK, ?s4)"
    using o by (simp add: file_call_def split: prod.splits)
  have t: "t_file (tr ?s2 i) = Some q" "t_file (tr ?s3 i) = Some q" "t_file (tr ?s4 i) = Some q"
    using i by simp_all
  have res: "transfer_open_file i path s = (TFTP_OK, ?s4)"
    unfolding transfer_open_file_def a prod.case deref_simps Let_def t n o4 by simp
  have "file_at c 0 i ?s4" using on t(3) by (auto simp: file_at_def)
  moreover have "faults (ts_os ?s4) = []" using on by (simp add: open_on_def)
  moreover have "script_same (ts_os s) (ts_os ?s4)"
    using file_open_effect [OF o] q3(2) by simp
  ultimately show ?thesis using res by (intro exI [of _ ?s4]) simp
qed

lemma process_serves:
  assumes inv: "tsys_inv E S R s" and i: "i < length (g_transfer_pool s)"
    and t: "startable (tr s i)" "t_state (tr s i) = TFTP_TRANSFER_RRQ" "t_block (tr s i) = 0"
    and room: "has_room s" and f: "faults (ts_os s) = []"
    and path: "fs (ts_os s) (c_string (transfer_path (tr s i))) = Some c"
  shows "\<exists>s' p. tftp_transfer_process (Some i) s = (TFTP_OK, s') \<and> serving c 1 i s' \<and>
    t_transport (tr s' i) = Some p \<and> t_peer (tr s' i) = t_peer (tr s i) \<and> rx (ts_os s') = rx (ts_os s) \<and>
    sent (ts_os s') = sent (ts_os s) @ blocks_from c (u_fd (sock s' p)) (t_peer (tr s i)) [0] \<and>
    tsys_inv E S R s' \<and> i < length (g_transfer_pool s')"
proof -
  have u: "t_in_use (tr s i)" "t_initialized (tr s i)" "\<not> t_registered (tr s i)"
    "t_transport (tr s i) = None" "t_file (tr s i) = None" "t_reactor (tr s i) = Some 0"
    using t(1) by (simp_all add: startable_def)
  from open_transport_ok [OF inv i u(4,1) _ f] room obtain s1 where
    o1: "transfer_open_transport i s = (TFTP_OK, s1)" "faults (ts_os s1) = []" unfolding has_room_def by blast
  from open_transport_safe [OF inv i u(4,1) o1(1)] obtain p where inv1: "tsys_inv E S R s1"
    and w1: "own_step i s s1" and k1: "disk_same (ts_os s) (ts_os s1)" "script_same (ts_os s) (ts_os s1)"
    and m1: "ts_file s1 = ts_file s" "ts_reactor s1 = ts_reactor s"
    and t1: "tr s1 i = (tr s i)\<lparr>t_transport := Some p\<rparr>" and p1: "u_open (sock s1 p)" by auto
  have i1: "i < length (g_transfer_pool s1)" using i own_step_len [OF w1] by simp
  let ?path = "transfer_path (tr s i)"
  have "fs (ts_os s1) (c_string ?path) = Some c" using path k1(1) by (simp add: disk_same_def)
  moreover have "\<exists>f\<in>set (g_file_pool (ts_file s1)). \<not> f_in_use f" using room m1 by (simp add: has_room_def)
  ultimately obtain s2 where o2: "transfer_open_file i ?path s1 = (TFTP_OK, s2)" "faults (ts_os s2) = []"
    "file_at c 0 i s2" "script_same (ts_os s1) (ts_os s2)" "ts_reactor s2 = ts_reactor s1"
    using open_file_ok [OF o1(2) i1] by blast
  have "t_file (tr s1 i) = None" "t_in_use (tr s1 i)" "\<not> t_registered (tr s1 i)" using t1 u by simp_all
  from open_file_safe [OF inv1 i1 this o2(1)] obtain y z where inv2: "tsys_inv E S R s2"
    and w2: "own_step i s1 s2" and m2: "ts_udp s2 = ts_udp s1"
    and t2: "tr s2 i = (tr s1 i)\<lparr>t_file := y, t_packet_buffer := z\<rparr>" by blast
  have i2: "i < length (g_transfer_pool s2)" using i1 own_step_len [OF w2] by simp
  obtain st3 s3 where o3: "transfer_register i s2 = (st3, s3)" by (meson surj_pair)
  have a3: "t_transport (tr s2 i) = Some p" "u_open (sock s2 p)" "\<not> t_registered (tr s2 i)"
    "t_reactor (tr s2 i) = Some 0" "t_in_use (tr s2 i)" using t2 t1 u m2 p1 by simp_all
  from register_safe [OF inv2 i2 a3 o3] have inv3: "tsys_inv E S R s3" and w3: "own_step i s2 s3"
    and s3: "s3 = s2\<lparr>ts_reactor := ts_reactor s3, g_transfer_pool := g_transfer_pool s3\<rparr>"
    and t3: "tr s3 i = (tr s2 i)\<lparr>t_registered := (st3 = TFTP_OK)\<rparr>"
    and ok3: "st3 = TFTP_OK" using room o2(5) m1(2) by (blast, blast, blast, blast, simp add: has_room_def)
  have i3: "i < length (g_transfer_pool s3)" using i2 own_step_len [OF w3] by simp
  have m3: "ts_file s3 = ts_file s2" "ts_os s3 = ts_os s2" "ts_udp s3 = ts_udp s2"
    using arg_cong [OF s3, of ts_file] arg_cong [OF s3, of ts_os] arg_cong [OF s3, of ts_udp] by simp_all
  have f3: "file_at c 0 i s3" using o2(3) t3 m3(1,2) by (simp add: file_at_def)
  have "t_initialized (tr s3 i)" "t_block (tr s3 i) = of_nat 0" "t_transport (tr s3 i) = Some p"
    "u_open (sock s3 p)" using t3 t2 t1 u t(3) m3(3) m2 p1 by simp_all
  note go = send_next_serves [OF inv3 i3 this f3]
  have "0 < block_count c" by (simp add: block_count_def)
  from go [OF this] obtain s4 where o4: "transfer_send_next_data i s3 = (TFTP_OK, s4)"
    "serving c (Suc 0) i s4" "t_peer (tr s4 i) = t_peer (tr s3 i)" "t_transport (tr s4 i) = Some p"
    "ts_udp s4 = ts_udp s3" "rx (ts_os s4) = rx (ts_os s3)"
    "sent (ts_os s4) = sent (ts_os s3) @
      [(u_fd (sock s3 p), t_peer (tr s3 i), encode (Data (of_nat (Suc 0)) (file_block c 0)))]" by blast
  from send_next_safe [OF inv3 i3 o4(1)] have inv4: "tsys_inv E S R s4" and w4: "own_step i s3 s4" by blast+
  have "tftp_transfer_process (Some i) s = (TFTP_OK, s4)"
    using u t o1(1) o2(1) o3 ok3 o4(1) by (simp add: tftp_transfer_process_def)
  moreover have "t_peer (tr s3 i) = t_peer (tr s i)" using t3 t2 t1 by simp
  moreover have "rx (ts_os s3) = rx (ts_os s)" "sent (ts_os s3) = sent (ts_os s)"
    using m3 k1(2) o2(4) by (simp_all add: script_same_def)
  moreover have "i < length (g_transfer_pool s4)" using i3 own_step_len [OF w4] by simp
  ultimately show ?thesis
    using o4 inv4 by (intro exI [of _ s4] exI [of _ p]) (simp add: blocks_from_def)
qed

end
