(* ===== verification/Tftp_Server.thy ===== *)
theory Tftp_Server
  imports Tftp_Transfer
begin

text \<open>
  \<open>src/tftp/server\<close>: the listening socket, its handler, and the handling of requests.  The
  state \<open>srv\<close> adds the static variables of \<open>tftp_server.c\<close> to those of the modules below.
  A \<open>tftp_server_t *\<close> is NULL or \<open>&g_server\<close>, \<open>Some 0\<close>.
\<close>

section \<open>State\<close>

definition TFTP_SERVER_RX_BUFFER_SIZE :: nat where "TFTP_SERVER_RX_BUFFER_SIZE = 1500"

record tftp_server_config_t =
  sc_port :: u16
  sc_max_transfers :: u32
  sc_reactor :: ptr

record tftp_server =
  s_initialized :: bool
  s_running :: bool
  s_registered :: bool
  s_port :: u16
  s_max_transfers :: u32
  s_reactor :: ptr
  s_transport :: ptr

definition tftp_server_zero :: tftp_server where
  "tftp_server_zero =
     \<lparr>s_initialized = False, s_running = False, s_registered = False, s_port = 0,
      s_max_transfers = 0, s_reactor = None, s_transport = None\<rparr>"

record srv =
  sv_sys :: tsys
  g_server :: tftp_server
  g_server_in_use :: bool

definition srv_init :: "tftp_config \<Rightarrow> os \<Rightarrow> srv" where
  "srv_init cfg k =
     \<lparr>sv_sys = tsys_init cfg k, g_server = tftp_server_zero, g_server_in_use = False\<rparr>"

definition sys_call :: "(tsys \<Rightarrow> 'r \<times> tsys) \<Rightarrow> srv \<Rightarrow> 'r \<times> srv" where
  "sys_call f w = (case f (sv_sys w) of (r, s) \<Rightarrow> (r, w\<lparr>sv_sys := s\<rparr>))"

definition upd_sv :: "(tftp_server \<Rightarrow> tftp_server) \<Rightarrow> srv \<Rightarrow> srv" where
  "upd_sv f w = w\<lparr>g_server := f (g_server w)\<rparr>"

section \<open>Requests\<close>

text \<open>
  \<open>opcode\<close> and \<open>request\<close> are uninitialised locals, read only after the parser filled them.
\<close>

definition tftp_server_process_event ::
  "ptr \<Rightarrow> bytes option \<Rightarrow> nat \<Rightarrow> udp_endpoint_t option \<Rightarrow> srv \<Rightarrow> tftp_status_t \<times> srv" where
  "tftp_server_process_event self data len source w =
     (case (self, data, source) of
        (Some _, Some _, Some src) \<Rightarrow>
          if \<not> s_running (g_server w) then (TFTP_ERR_INVALID_STATE, w)
          else
            (case tftp_packet_parse_request data len (Some TFTP_OPCODE_ZERO)
                    (Some \<lparr>rq_filename = replicate REQUEST_FILENAME_SIZE 0,
                           rq_mode = TFTP_MODE_OCTET\<rparr>) of
               (status, opcode, request) \<Rightarrow>
            if status \<noteq> TFTP_OK then (status, w)
            else if opcode = Some TFTP_OPCODE_WRQ then (TFTP_ERR_PROTOCOL, w)
            else if opcode \<noteq> Some TFTP_OPCODE_RRQ then (TFTP_ERR_INVALID_OPCODE, w)
            else
              (case sys_call (tftp_transfer_acquire (Some None)) w of ((status, out), w) \<Rightarrow>
                 let transfer = deref None out in
                 if status \<noteq> TFTP_OK then (status, w)
                 else
                   (case sys_call (tftp_transfer_init transfer) w of (status, w) \<Rightarrow>
                      if status \<noteq> TFTP_OK
                      then (status, snd (sys_call (tftp_transfer_release (Some transfer)) w))
                      else
                        let config =
                              \<lparr>xc_opcode = deref TFTP_OPCODE_ZERO opcode,
                               xc_filename = map_option rq_filename request,
                               xc_peer = src, xc_reactor = s_reactor (g_server w)\<rparr> in
                        (case sys_call (tftp_transfer_start transfer (Some config)) w of
                           (status, w) \<Rightarrow>
                             if status \<noteq> TFTP_OK
                             then (status, snd (sys_call (tftp_transfer_release (Some transfer)) w))
                             else
                               (case sys_call (tftp_transfer_handle_event transfer
                                       TFTP_TRANSFER_EVENT_START None 0) w of
                                  (status, w) \<Rightarrow>
                                    if status \<noteq> TFTP_OK
                                    then (status,
                                      snd (sys_call (tftp_transfer_release (Some transfer)) w))
                                    else (TFTP_OK, w))))))
      | _ \<Rightarrow> (TFTP_ERR_INVALID_ARGUMENT, w))"

text \<open>The reactor handler of the listening socket; \<open>buffer\<close> is a local array of 1500 bytes.\<close>

definition tftp_server_udp_handler :: "int \<Rightarrow> u32 \<Rightarrow> ptr \<Rightarrow> srv \<Rightarrow> srv" where
  "tftp_server_udp_handler fd events context w =
     (case context of
        None \<Rightarrow> w
      | Some _ \<Rightarrow>
          if s_transport (g_server w) = None then w
          else if events AND REACTOR_EVENT_ERROR \<noteq> 0 then w
          else if events AND REACTOR_EVENT_READ = 0 then w
          else if fd \<noteq> get_fd (s_transport (g_server w)) (sv_sys w) then w
          else
            (case sys_call (udp_call (udp_transport_receive (s_transport (g_server w))
                    (Some (replicate TFTP_SERVER_RX_BUFFER_SIZE 0)) TFTP_SERVER_RX_BUFFER_SIZE
                    (Some 0) (Some sockaddr_zero))) w of
               ((status, buffer, received, source), w) \<Rightarrow>
                 if status \<noteq> TFTP_OK then w
                 else snd (tftp_server_process_event (Some 0) buffer (deref 0 received) source w)))"

section \<open>Life cycle\<close>

definition tftp_server_init ::
  "tftp_config \<Rightarrow> ptr \<Rightarrow> tftp_server_config_t option \<Rightarrow> srv \<Rightarrow> tftp_status_t \<times> srv" where
  "tftp_server_init cfg self config w =
     (case (self, config) of
        (Some _, Some c) \<Rightarrow>
          if sc_reactor c = None then (TFTP_ERR_INVALID_ARGUMENT, w)
          else if sc_port c = 0 then (TFTP_ERR_INVALID_ARGUMENT, w)
          else if s_initialized (g_server w) then (TFTP_ERR_INVALID_STATE, w)
          else
            let m = sc_max_transfers c;
                m = (if m = 0 \<or> unat m > TFTP_MAX_TRANSFERS cfg
                     then of_nat (TFTP_MAX_TRANSFERS cfg) else m) in
            (TFTP_OK,
             upd_sv (\<lambda>v. v\<lparr>s_port := sc_port c, s_max_transfers := m, s_reactor := sc_reactor c,
                          s_transport := None, s_registered := False, s_running := False,
                          s_initialized := True\<rparr>) w)
      | _ \<Rightarrow> (TFTP_ERR_INVALID_ARGUMENT, w))"

text \<open>The \<open>fail\<close> label of \<open>tftp_server_start\<close>.\<close>

definition server_start_fail :: "srv \<Rightarrow> srv" where
  "server_start_fail w =
     (let w = (if s_transport (g_server w) \<noteq> None then
                 let w = snd (sys_call (udp_call (udp_transport_close (s_transport (g_server w)))) w);
                     w = snd (sys_call (udp_call (udp_transport_deinit (s_transport (g_server w)))) w)
                 in (case sys_call (udp_call (udp_transport_release
                              (Some (s_transport (g_server w))))) w of
                       (p, w) \<Rightarrow> upd_sv (\<lambda>v. v\<lparr>s_transport := deref None p\<rparr>) w)
               else w)
      in upd_sv (\<lambda>v. v\<lparr>s_registered := False, s_running := False\<rparr>) w)"

definition tftp_server_start :: "ptr \<Rightarrow> srv \<Rightarrow> tftp_status_t \<times> srv" where
  "tftp_server_start self w =
     (case self of
        None \<Rightarrow> (TFTP_ERR_INVALID_ARGUMENT, w)
      | Some me \<Rightarrow>
          if \<not> s_initialized (g_server w) then (TFTP_ERR_NOT_INITIALIZED, w)
          else if s_running (g_server w) then (TFTP_ERR_INVALID_STATE, w)
          else
            (case sys_call (udp_call (udp_transport_acquire (Some (s_transport (g_server w))))) w of
               ((status, p), w) \<Rightarrow>
            let w = upd_sv (\<lambda>v. v\<lparr>s_transport := deref None p\<rparr>) w in
            if status \<noteq> TFTP_OK then (status, w) else
            (case sys_call (udp_call (udp_transport_init (s_transport (g_server w))
                    (Some \<lparr>tc_local_port = s_port (g_server w), tc_non_blocking = True\<rparr>))) w of
               (status, w) \<Rightarrow>
            if status \<noteq> TFTP_OK then (status, server_start_fail w) else
            (case sys_call (udp_call (udp_transport_open (s_transport (g_server w)))) w of
               (status, w) \<Rightarrow>
            if status \<noteq> TFTP_OK then (status, server_start_fail w) else
            (case sys_call (udp_call (udp_transport_bind (s_transport (g_server w))
                    (s_port (g_server w)))) w of
               (status, w) \<Rightarrow>
            if status \<noteq> TFTP_OK then (status, server_start_fail w) else
            let registration =
                  \<lparr>r_fd = get_fd (s_transport (g_server w)) (sv_sys w),
                   r_events = REACTOR_EVENT_READ OR REACTOR_EVENT_ERROR,
                   r_handler = Some Server_udp_handler, r_context = Some me\<rparr> in
            if r_fd registration < 0 then (TFTP_ERR_INVALID_STATE, server_start_fail w)
            else
              (case sys_call (reactor_call (reactor_register (s_reactor (g_server w))
                      (Some registration))) w of
                 (status, w) \<Rightarrow>
                   if status \<noteq> TFTP_OK then (status, server_start_fail w)
                   else (TFTP_OK, upd_sv (\<lambda>v. v\<lparr>s_registered := True, s_running := True\<rparr>) w)))))))"

definition tftp_server_stop :: "ptr \<Rightarrow> srv \<Rightarrow> tftp_status_t \<times> srv" where
  "tftp_server_stop self w =
     (case self of
        None \<Rightarrow> (TFTP_ERR_INVALID_ARGUMENT, w)
      | Some _ \<Rightarrow>
          let w = upd_sv (\<lambda>v. v\<lparr>s_running := False\<rparr>) w in
          if s_transport (g_server w) = None then (TFTP_OK, w)
          else
            let fd = get_fd (s_transport (g_server w)) (sv_sys w);
                (result, w) =
                  (if s_registered (g_server w) \<and> s_reactor (g_server w) \<noteq> None \<and> fd \<ge> 0 then
                     (case sys_call (reactor_call (reactor_unregister (s_reactor (g_server w)) fd)) w of
                        (status, w) \<Rightarrow> (status, upd_sv (\<lambda>v. v\<lparr>s_registered := False\<rparr>) w))
                   else (TFTP_OK, w));
                w = snd (sys_call (udp_call (udp_transport_close (s_transport (g_server w)))) w);
                w = snd (sys_call (udp_call (udp_transport_deinit (s_transport (g_server w)))) w)
            in (case sys_call (udp_call (udp_transport_release
                         (Some (s_transport (g_server w))))) w of
                  (p, w) \<Rightarrow> (result, upd_sv (\<lambda>v. v\<lparr>s_transport := deref None p\<rparr>) w)))"

definition tftp_server_deinit :: "ptr \<Rightarrow> srv \<Rightarrow> tftp_status_t \<times> srv" where
  "tftp_server_deinit self w =
     (case self of
        None \<Rightarrow> (TFTP_ERR_INVALID_ARGUMENT, w)
      | Some _ \<Rightarrow>
          let w = (if s_transport (g_server w) \<noteq> None then snd (tftp_server_stop self w) else w) in
          (TFTP_OK,
           upd_sv (\<lambda>v. v\<lparr>s_running := False, s_registered := False, s_reactor := None,
                        s_initialized := False\<rparr>) w))"

definition tftp_server_acquire ::
  "ptr option \<Rightarrow> srv \<Rightarrow> (tftp_status_t \<times> ptr option) \<times> srv" where
  "tftp_server_acquire out w =
     (case out of
        None \<Rightarrow> ((TFTP_ERR_INVALID_ARGUMENT, None), w)
      | Some _ \<Rightarrow>
          if g_server_in_use w then ((TFTP_ERR_NO_RESOURCE, Some None), w)
          else ((TFTP_OK, Some (Some 0)), w\<lparr>g_server := tftp_server_zero, g_server_in_use := True\<rparr>))"

definition tftp_server_release :: "ptr option \<Rightarrow> srv \<Rightarrow> ptr option \<times> srv" where
  "tftp_server_release self w =
     (case self of
        Some (Some p) \<Rightarrow>
          if p = 0 then
            let w = (if s_initialized (g_server w) then snd (tftp_server_deinit (Some p) w) else w) in
            (Some None, w\<lparr>g_server_in_use := False\<rparr>)
          else (self, w)
      | _ \<Rightarrow> (self, w))"

definition tftp_server_is_running :: "ptr \<Rightarrow> srv \<Rightarrow> bool" where
  "tftp_server_is_running self w =
     (case self of None \<Rightarrow> False | Some _ \<Rightarrow> s_running (g_server w))"

end
