(* ===== verification/Server_Safety.thy ===== *)
theory Server_Safety
  imports Transfer_Safety Tftp_Server
begin

text \<open>
  The server keeps the resource invariant: a request either becomes one active transfer or
  leaves nothing behind, the server's own socket and registration come and go with its life
  cycle, and its handlers keep all of it.
\<close>

section \<open>Requests\<close>

text \<open>A transfer between two events: it holds its socket, its file and its registration.\<close>

definition active :: "tftp_transfer \<Rightarrow> bool" where
  "active t \<longleftrightarrow> t_in_use t \<and> t_initialized t \<and> t_registered t \<and> t_reactor t = Some 0 \<and>
     t_transport t \<noteq> None \<and> t_file t \<noteq> None"

text \<open>\<open>tftp_server_process_event\<close> after the request was parsed and a transfer acquired.\<close>

definition run_request :: "nat \<Rightarrow> tftp_transfer_config_t \<Rightarrow> tsys \<Rightarrow> tftp_status_t \<times> tsys" where
  "run_request i c s =
     (case tftp_transfer_init (Some i) s of (status, s) \<Rightarrow>
      if status \<noteq> TFTP_OK then (status, s) else
      (case tftp_transfer_start (Some i) (Some c) s of (status, s) \<Rightarrow>
       if status \<noteq> TFTP_OK then (status, s) else
       tftp_transfer_handle_event (Some i) TFTP_TRANSFER_EVENT_START None 0 s))"

definition accept_request :: "nat \<Rightarrow> tftp_transfer_config_t \<Rightarrow> tsys \<Rightarrow> tftp_status_t \<times> tsys" where
  "accept_request i c s =
     (case run_request i c s of (status, s) \<Rightarrow>
        (status, if status \<noteq> TFTP_OK then snd (tftp_transfer_release (Some (Some i)) s) else s))"

abbreviation request_parse :: "bytes option \<Rightarrow> nat \<Rightarrow>
    tftp_status_t \<times> tftp_opcode_t option \<times> tftp_request_t option" where
  "request_parse data n \<equiv> tftp_packet_parse_request data n (Some TFTP_OPCODE_ZERO)
     (Some \<lparr>rq_filename = replicate REQUEST_FILENAME_SIZE 0, rq_mode = TFTP_MODE_OCTET\<rparr>)"

lemma process_event_cases:
  "tftp_server_process_event (Some me) (Some data) n (Some src) w =
    (if \<not> s_running (g_server w) then (TFTP_ERR_INVALID_STATE, w) else
     (case request_parse (Some data) n of (status, opcode, request) \<Rightarrow>
      if status \<noteq> TFTP_OK then (status, w)
      else if opcode = Some TFTP_OPCODE_WRQ then (TFTP_ERR_PROTOCOL, w)
      else if opcode \<noteq> Some TFTP_OPCODE_RRQ then (TFTP_ERR_INVALID_OPCODE, w)
      else
        (case tftp_transfer_acquire (Some None) (sv_sys w) of ((status, out), s) \<Rightarrow>
         if status \<noteq> TFTP_OK then (status, w\<lparr>sv_sys := s\<rparr>)
         else (case accept_request (the (deref None out))
                \<lparr>xc_opcode = TFTP_OPCODE_RRQ, xc_filename = map_option rq_filename request,
                 xc_peer = src, xc_reactor = s_reactor (g_server w)\<rparr> s of
                (status, s) \<Rightarrow> (status, w\<lparr>sv_sys := s\<rparr>)))))"
proof -
  have out: "\<exists>i. out = Some (Some i)"
    if "tftp_transfer_acquire (Some None) (sv_sys w) = ((TFTP_OK, out), s)" for out s
    using that by (auto simp: tftp_transfer_acquire_def split: option.splits)
  show ?thesis
    unfolding tftp_server_process_event_def option.case prod.case sys_call_def
    by (auto simp: accept_request_def run_request_def Let_def split: prod.split dest!: out)
qed

lemma process_event_null:
  "tftp_server_process_event None data n src w = (TFTP_ERR_INVALID_ARGUMENT, w)"
  "tftp_server_process_event me None n src w = (TFTP_ERR_INVALID_ARGUMENT, w)"
  "tftp_server_process_event me data n None w = (TFTP_ERR_INVALID_ARGUMENT, w)"
  by (simp_all add: tftp_server_process_event_def split: option.split)

lemma start_event [simp]:
  "t_initialized (tr s i) \<Longrightarrow>
   tftp_transfer_handle_event (Some i) TFTP_TRANSFER_EVENT_START data n s = tftp_transfer_process (Some i) s"
  by (simp add: tftp_transfer_handle_event_def)

lemma run_request_safe:
  assumes inv: "tsys_inv E S R s" and i: "i < length (g_transfer_pool s)"
    and t: "tr s i = (retired n)\<lparr>t_in_use := True\<rparr>"
    and c: "xc_opcode c = TFTP_OPCODE_RRQ" "xc_reactor c = Some 0"
    and e: "run_request i c s = (st, s')"
  shows "tsys_inv E S R s' \<and> own_step i s s' \<and>
    (st = TFTP_OK \<longrightarrow> active (tr s' i) \<and> t_state (tr s' i) = TFTP_TRANSFER_WAIT_ACK)"
proof -
  let ?f = "\<lambda>t. t\<lparr>t_initialized := True, t_state := TFTP_TRANSFER_IDLE\<rparr> :: tftp_transfer"
  have u: "t_in_use (tr s i)" using t by simp
  obtain st1 s1 where e1: "tftp_transfer_init (Some i) s = (st1, s1)" by (meson surj_pair)
  note in1 = init_safe [OF inv i u e1]
  then have 1: "st1 = TFTP_OK" "tsys_inv E S R s1" "own_step i s s1" by blast+
  have t1: "tr s1 i = ?f (tr s i)" using in1 i by simp
  have i1: "i < length (g_transfer_pool s1)" using i own_step_len [OF 1(3)] by simp
  obtain st2 s2 where e2: "tftp_transfer_start (Some i) (Some c) s1 = (st2, s2)" by (meson surj_pair)
  have "\<not> t_registered (tr s1 i)" using t1 t by simp
  note s2 = start_safe [OF 1(2) i1 this e2]
  then have 2: "tsys_inv E S R s2" "own_step i s s2" using own_step_trans [OF 1(3)] by simp_all
  have i2: "i < length (g_transfer_pool s2)" using i own_step_len [OF 2(2)] by simp
  show ?thesis
  proof (cases "st2 = TFTP_OK")
    case False
    with e e1 e2 1(1) 2 show ?thesis by (simp add: run_request_def)
  next
    case True
    with s2 have "tr s2 i = configured c (tr s1 i)" by blast
    with t1 t c have "startable (tr s2 i)" "t_state (tr s2 i) = TFTP_TRANSFER_RRQ"
      by (simp_all add: startable_def configured_def)
    moreover from this have "tftp_transfer_process (Some i) s2 = (st, s')"
      using e e1 e2 1(1) True by (simp add: run_request_def startable_def)
    ultimately show ?thesis
      using process_safe [OF 2(1) i2] own_step_trans [OF 2(2)] by (auto simp: active_def)
  qed
qed

lemma accept_safe:
  assumes inv: "tsys_inv E S R s" and i: "i < length (g_transfer_pool s)"
    and t: "tr s i = (retired n)\<lparr>t_in_use := True\<rparr>"
    and c: "xc_opcode c = TFTP_OPCODE_RRQ" "xc_reactor c = Some 0"
    and e: "accept_request i c s = (st, s')"
  shows "tsys_inv E S R s' \<and> own_step i s s' \<and>
    (if st = TFTP_OK then active (tr s' i) \<and> t_state (tr s' i) = TFTP_TRANSFER_WAIT_ACK
     else tr s' i = retired n)"
proof -
  obtain st1 s1 where r: "run_request i c s = (st1, s1)" by (meson surj_pair)
  from run_request_safe [OF inv i t c r] have 1: "tsys_inv E S R s1" "own_step i s s1"
    "st1 = TFTP_OK \<longrightarrow> active (tr s1 i) \<and> t_state (tr s1 i) = TFTP_TRANSFER_WAIT_ACK" by simp_all
  have i1: "i < length (g_transfer_pool s1)" using i own_step_len [OF 1(2)] by simp
  obtain p s2 where q: "tftp_transfer_release (Some (Some i)) s1 = (p, s2)" by (meson surj_pair)
  have n: "length (t_filename (tr s1 i)) = n" using own_step_name [OF 1(2)] t by simp
  from release_safe [OF 1(1) i1 q] own_step_trans [OF 1(2)] 1 e r q n show ?thesis
    by (auto simp: accept_request_def split: if_splits)
qed

text \<open>
  A datagram on the listening socket, whatever it holds: one transfer that was free becomes
  active, or all transfers are as before.
\<close>

definition pool_same :: "tsys \<Rightarrow> tsys \<Rightarrow> bool" where
  "pool_same s s' \<longleftrightarrow> length (g_transfer_pool s') = length (g_transfer_pool s) \<and>
     (\<forall>j<length (g_transfer_pool s). (tr s' j = tr s j \<or> \<not> t_in_use (tr s j) \<and> \<not> t_in_use (tr s' j)) \<and>
        length (t_filename (tr s' j)) = length (t_filename (tr s j)))"

lemma own_step_pool_same:
  assumes "own_step i s s'" "\<not> t_in_use (tr s i)" "\<not> t_in_use (tr s' i)"
  shows "pool_same s s'"
  unfolding pool_same_def
proof (intro conjI allI impI)
  fix j
  show "tr s' j = tr s j \<or> \<not> t_in_use (tr s j) \<and> \<not> t_in_use (tr s' j)"
    using assms(2,3) own_step_other [OF assms(1), of j] by (cases "j = i") simp_all
  show "length (t_filename (tr s' j)) = length (t_filename (tr s j))"
    using own_step_other [OF assms(1), of j] own_step_name [OF assms(1)] by (cases "j = i") simp_all
qed (rule own_step_len [OF assms(1)])

text \<open>The reactor's flags and bound, which no handler changes.\<close>

definition reactor_flags :: "tsys \<Rightarrow> bool \<times> bool \<times> nat \<times> bool" where
  "reactor_flags s = (rc_initialized (g_reactor (ts_reactor s)), rc_running (g_reactor (ts_reactor s)),
     rc_max_handlers (g_reactor (ts_reactor s)), g_reactor_in_use (ts_reactor s))"

lemma own_step_flags: "own_step i s s' \<Longrightarrow> reactor_flags s' = reactor_flags s"
  by (simp add: own_step_def reactor_flags_def)

lemma process_event_safe:
  assumes inv: "tsys_inv E S R (sv_sys w)" and r: "s_reactor (g_server w) = Some 0"
    and e: "tftp_server_process_event (Some me) data n src w = (st, w')"
  shows "w' = w\<lparr>sv_sys := sv_sys w'\<rparr> \<and> tsys_inv E S R (sv_sys w') \<and>
    fs (ts_os (sv_sys w')) = fs (ts_os (sv_sys w)) \<and>
    reactor_flags (sv_sys w') = reactor_flags (sv_sys w) \<and>
    polls (ts_os (sv_sys w')) = polls (ts_os (sv_sys w)) \<and>
    (if st = TFTP_OK then \<exists>i. i < length (g_transfer_pool (sv_sys w)) \<and>
        \<not> t_in_use (tr (sv_sys w) i) \<and> own_step i (sv_sys w) (sv_sys w') \<and>
        active (tr (sv_sys w') i) \<and> t_state (tr (sv_sys w') i) = TFTP_TRANSFER_WAIT_ACK
     else pool_same (sv_sys w) (sv_sys w'))"
proof -
  have refl: "pool_same s s" for s by (simp add: pool_same_def)
  obtain st1 out s1 where a: "tftp_transfer_acquire (Some None) (sv_sys w) = ((st1, out), s1)"
    by (metis prod.collapse)
  obtain st0 opc req where q: "request_parse data n = (st0, opc, req)" by (metis prod.collapse)
  show ?thesis
  proof (cases "data \<noteq> None \<and> src \<noteq> None \<and> s_running (g_server w) \<and> st0 = TFTP_OK \<and>
      opc = Some TFTP_OPCODE_RRQ \<and> st1 = TFTP_OK")
    case False
    have w: "w\<lparr>sv_sys := s1\<rparr> = w" if "st1 \<noteq> TFTP_OK"
      using acquire_safe [OF inv a] that by auto
    have "w' = w \<and> st \<noteq> TFTP_OK"
    proof (cases "data = None \<or> src = None")
      case True
      with e show ?thesis by (auto simp: process_event_null)
    next
      case some: False
      with e False w q a show ?thesis by (auto simp: process_event_cases split: if_splits)
    qed
    with inv refl show ?thesis by simp
  next
    case True
    with acquire_safe [OF inv a] obtain i where i: "out = Some (Some i)" "tsys_inv E S R s1"
      "i < length (g_transfer_pool (sv_sys w))" "\<not> t_in_use (tr (sv_sys w) i)" "own_step i (sv_sys w) s1"
      "tr s1 i = (retired (length (t_filename (tr (sv_sys w) i))))\<lparr>t_in_use := True\<rparr>" by auto
    let ?c = "\<lambda>src. \<lparr>xc_opcode = TFTP_OPCODE_RRQ, xc_filename = map_option rq_filename req,
        xc_peer = src, xc_reactor = s_reactor (g_server w)\<rparr>"
    obtain peer where p: "src = Some peer" using True by blast
    obtain st2 s2 where ac: "accept_request i (?c peer) s1 = (st2, s2)" by (meson surj_pair)
    have i1: "i < length (g_transfer_pool s1)" using i own_step_len [OF i(5)] by simp
    have res: "st = st2" "w' = w\<lparr>sv_sys := s2\<rparr>"
      using e True q a i(1) p ac by (auto simp: process_event_cases)
    from accept_safe [OF i(2) i1 i(6) _ _ ac] r own_step_trans [OF i(5)] have 2: "tsys_inv E S R s2"
      "own_step i (sv_sys w) s2" "if st2 = TFTP_OK then active (tr s2 i) \<and>
        t_state (tr s2 i) = TFTP_TRANSFER_WAIT_ACK else tr s2 i = retired (length (t_filename (tr (sv_sys w) i)))"
      by simp_all
    have "pool_same (sv_sys w) s2" if "st2 \<noteq> TFTP_OK"
      by (rule own_step_pool_same [OF 2(2) i(4)]) (use that 2(3) in simp)
    moreover have "fs (ts_os s2) = fs (ts_os (sv_sys w))" "polls (ts_os s2) = polls (ts_os (sv_sys w))"
      using 2(2) by (simp_all add: own_step_def)
    ultimately show ?thesis using 2 res i own_step_flags [OF 2(2)] by auto
  qed
qed


section \<open>The socket of the server\<close>

text \<open>What a step of the life cycle leaves alone: the files, the streams and their numbering.\<close>

abbreviation disk_of :: "os \<Rightarrow> (bytes \<rightharpoonup> bytes) \<times> (nat \<rightharpoonup> stream) \<times> nat" where
  "disk_of k \<equiv> (fs k, streams k, next_stream k)"

definition sock_only :: "tsys \<Rightarrow> tsys \<Rightarrow> bool" where
  "sock_only s s' \<longleftrightarrow> g_transfer_pool s' = g_transfer_pool s \<and> ts_file s' = ts_file s \<and>
     ts_reactor s' = ts_reactor s \<and> disk_of (ts_os s') = disk_of (ts_os s)"

lemma sock_only_refl [simp]: "sock_only s s"
  by (simp add: sock_only_def)

lemma sock_only_trans: "sock_only a b \<Longrightarrow> sock_only b c \<Longrightarrow> sock_only a c"
  by (simp add: sock_only_def)

lemma sock_only_change: "disk_same (ts_os s) k \<Longrightarrow> sock_only s (sock_change p x k s)"
  by (simp add: sock_only_def disk_same_def)

lemma server_not_registrant: "tsys_inv E (Some p) False s \<Longrightarrow> (h, c, p) \<notin> registrants (Some p) False s"
  using transports_not_server by (auto simp: registrants_def)

text \<open>Closing and deinitialising the socket of a server that is not registered.\<close>

lemma server_close:
  assumes inv: "tsys_inv E (Some p) False s"
    and e: "udp_call f s = (st, s')"
    and f: "f = udp_transport_close (Some p) \<or> f = udp_transport_deinit (Some p)"
  shows "tsys_inv E (Some p) False s' \<and> sock_only s s'"
proof -
  note p = owner_server [OF inv]
  obtain u k where o: "f (ts_udp s, ts_os s) = (st, (u, k))" and s': "s' = s\<lparr>ts_udp := u, ts_os := k\<rparr>"
    using e by (auto simp: udp_call_eq)
  have len: "p < length (g_transport_pool (fst (ts_udp s, ts_os s)))" using pool_len [OF inv] p by simp
  have oi: "u_open (sock s p) \<Longrightarrow> u_initialized (sock s p)"
    using udp_inv_openD(1) [OF tsys_invD(1) [OF inv] p(1)] by simp
  have "\<exists>x. u = (ts_udp s)\<lparr>g_transport_pool := (g_transport_pool (ts_udp s))[p := x]\<rparr> \<and> \<not> u_open x \<and>
      disk_same (ts_os s) k \<and>
      fds k = (if u_open (sock s p) then removeAll (u_fd (sock s p)) (fds (ts_os s)) else fds (ts_os s))"
    using f
  proof
    assume "f = udp_transport_close (Some p)"
    from udp_close_effect [OF o [unfolded this] len] oi show ?thesis
      by (intro exI [of _ "if u_open (sock s p) then (sock s p)\<lparr>u_fd := -1, u_open := False\<rparr> else sock s p"])
        (auto split: if_splits)
  next
    assume "f = udp_transport_deinit (Some p)"
    from udp_deinit_effect [OF o [unfolded this] len] oi show ?thesis
      by (cases "u_open (sock s p)") (auto split: if_splits)
  qed
  then obtain x where u: "u = (ts_udp s)\<lparr>g_transport_pool := (g_transport_pool (ts_udp s))[p := x]\<rparr>"
    and x: "\<not> u_open x" and k: "disk_same (ts_os s) k"
      "fds k = (if u_open (sock s p) then removeAll (u_fd (sock s p)) (fds (ts_os s)) else fds (ts_os s))"
    by blast
  have s': "s' = sock_change p x k s" by (simp add: sock_change_def s' u)
  have "tsys_inv E (Some p) False s'" unfolding s'
    by (rule owned_close_transport [OF inv p(1) server_not_registrant [OF inv] _ x k]) (simp add: p(2))
  then show ?thesis using sock_only_change [OF k(1)] s' by simp
qed

lemma server_release:
  assumes inv: "tsys_inv E (Some p) False s"
    and e: "udp_call (udp_transport_release (Some (Some p))) s = (r, s')"
  shows "r = Some None \<and> tsys_inv E None False s' \<and> sock_only s s'"
proof -
  note p = owner_server [OF inv]
  from rest_release_transport [OF inv p server_not_registrant [OF inv] e] owned_release_server [OF inv e]
  show ?thesis by (auto simp: sock_only_def disk_same_def)
qed

text \<open>The three calls that give the socket back.\<close>

definition shut_socket :: "ptr \<Rightarrow> tsys \<Rightarrow> ptr option \<times> tsys" where
  "shut_socket p s =
     udp_call (udp_transport_release (Some p))
       (snd (udp_call (udp_transport_deinit p) (snd (udp_call (udp_transport_close p) s))))"

lemma shut_socket_safe:
  assumes inv: "tsys_inv E (Some p) False s" and e: "shut_socket (Some p) s = (r, s')"
  shows "r = Some None \<and> tsys_inv E None False s' \<and> sock_only s s'"
proof -
  obtain st1 s1 where c: "udp_call (udp_transport_close (Some p)) s = (st1, s1)" by (meson surj_pair)
  obtain st2 s2 where d: "udp_call (udp_transport_deinit (Some p)) s1 = (st2, s2)" by (meson surj_pair)
  from server_close [OF inv c] have 1: "tsys_inv E (Some p) False s1" "sock_only s s1" by simp_all
  from server_close [OF 1(1) d] have 2: "tsys_inv E (Some p) False s2" "sock_only s1 s2" by simp_all
  from server_release [OF 2(1)] e c d sock_only_trans [OF sock_only_trans [OF 1(2) 2(2)]]
  show ?thesis by (simp add: shut_socket_def)
qed


section \<open>The server's invariant\<close>

text \<open>
  Between two calls the server runs exactly when it is registered and holds its socket, and
  every transfer in use is active.
\<close>

definition server_ok :: "tftp_server \<Rightarrow> bool" where
  "server_ok v \<longleftrightarrow> (s_running v \<longleftrightarrow> s_registered v) \<and> (s_running v \<longleftrightarrow> s_transport v \<noteq> None) \<and>
     (s_running v \<longrightarrow> s_initialized v) \<and> (s_initialized v \<longrightarrow> s_reactor v = Some 0)"

definition all_active :: "tsys \<Rightarrow> bool" where
  "all_active s \<longleftrightarrow> (\<forall>t\<in>set (g_transfer_pool s). t_in_use t \<longrightarrow> active t)"

definition srv_inv :: "int set \<Rightarrow> srv \<Rightarrow> bool" where
  "srv_inv E w \<longleftrightarrow> tsys_inv E (s_transport (g_server w)) (s_registered (g_server w)) (sv_sys w) \<and>
     all_active (sv_sys w) \<and> server_ok (g_server w)"

lemma all_activeD: "all_active s \<Longrightarrow> i < length (g_transfer_pool s) \<Longrightarrow> t_in_use (tr s i) \<Longrightarrow> active (tr s i)"
  by (simp add: all_active_def)

lemma all_activeI: "(\<And>i. i < length (g_transfer_pool s) \<Longrightarrow> t_in_use (tr s i) \<Longrightarrow> active (tr s i)) \<Longrightarrow> all_active s"
  by (auto simp: all_active_def in_set_conv_nth)

lemma all_active_pool: "g_transfer_pool s' = g_transfer_pool s \<Longrightarrow> all_active s' = all_active s"
  by (simp add: all_active_def)

lemma all_active_step:
  assumes a: "all_active s" and o: "own_step i s s'" and i: "t_in_use (tr s' i) \<longrightarrow> active (tr s' i)"
  shows "all_active s'"
proof (rule all_activeI)
  fix j assume j: "j < length (g_transfer_pool s')" "t_in_use (tr s' j)"
  then show "active (tr s' j)"
    using i own_step_len [OF o] own_step_other [OF o, of j] all_activeD [OF a, of j] by (cases "j = i") simp_all
qed

lemma all_active_same:
  assumes a: "all_active s" and o: "pool_same s s'"
  shows "all_active s'"
proof (rule all_activeI)
  fix j assume j: "j < length (g_transfer_pool s')" "t_in_use (tr s' j)"
  with o have "tr s' j = tr s j" "j < length (g_transfer_pool s)" by (auto simp: pool_same_def)
  with j(2) show "active (tr s' j)" using all_activeD [OF a, of j] by simp
qed

lemma holds_same_active: "holds_same t t' \<Longrightarrow> active t' = active t"
  by (simp add: holds_same_def active_def)

lemma transfer_handler_inv:
  assumes inv: "srv_inv E w" and i: "i < length (g_transfer_pool (sv_sys w))"
    and s'_def: "s' = transfer_udp_handler fd ev (Some i) (sv_sys w)"
  shows "srv_inv E (w\<lparr>sv_sys := s'\<rparr>)" "own_step i (sv_sys w) s'"
proof -
  have "tsys_inv E (s_transport (g_server w)) (s_registered (g_server w)) (sv_sys w)"
    using inv by (simp add: srv_inv_def)
  note h = transfer_handler_safe [OF this i, of fd ev, folded s'_def]
  then show o: "own_step i (sv_sys w) s'" by blast
  have a: "all_active (sv_sys w)" using inv by (simp add: srv_inv_def)
  have "t_in_use (tr s' i) \<longrightarrow> active (tr s' i)"
    using h all_activeD [OF a i] holds_same_active [of "tr (sv_sys w) i" "tr s' i"]
    by (auto simp: holds_same_def)
  then have "all_active s'" by (rule all_active_step [OF a o])
  then show "srv_inv E (w\<lparr>sv_sys := s'\<rparr>)" using h inv by (simp add: srv_inv_def)
qed

lemma process_event_inv:
  assumes inv: "srv_inv E w" and e: "tftp_server_process_event (Some me) data n src w = (st, w')"
  shows "srv_inv E w'" "reactor_flags (sv_sys w') = reactor_flags (sv_sys w)" "g_server w' = g_server w"
    "g_server_in_use w' = g_server_in_use w" "polls (ts_os (sv_sys w')) = polls (ts_os (sv_sys w))"
proof -
  have "srv_inv E w' \<and> reactor_flags (sv_sys w') = reactor_flags (sv_sys w) \<and> g_server w' = g_server w \<and>
      g_server_in_use w' = g_server_in_use w \<and> polls (ts_os (sv_sys w')) = polls (ts_os (sv_sys w))"
  proof (cases "s_running (g_server w)")
    case False
    with e have "w' = w"
      by (cases data; cases src) (auto simp: process_event_cases process_event_null)
    with inv show ?thesis by simp
  next
    case True
    with inv have t: "tsys_inv E (s_transport (g_server w)) (s_registered (g_server w)) (sv_sys w)"
      and r: "s_reactor (g_server w) = Some 0" unfolding srv_inv_def server_ok_def by blast+
    note p = process_event_safe [OF t r e]
    then have w': "w' = w\<lparr>sv_sys := sv_sys w'\<rparr>" by blast
    have g: "g_server w' = g_server w" "g_server_in_use w' = g_server_in_use w"
      using arg_cong [OF w', of g_server] arg_cong [OF w', of g_server_in_use] by simp_all
    have "all_active (sv_sys w')"
      using p inv all_active_step [of "sv_sys w" _ "sv_sys w'"] all_active_same [of "sv_sys w" "sv_sys w'"]
      by (auto simp: srv_inv_def split: if_splits)
    then show ?thesis using p inv g by (simp add: srv_inv_def)
  qed
  then show "srv_inv E w'" "reactor_flags (sv_sys w') = reactor_flags (sv_sys w)" "g_server w' = g_server w"
    "g_server_in_use w' = g_server_in_use w" "polls (ts_os (sv_sys w')) = polls (ts_os (sv_sys w))"
    by simp_all
qed

lemma server_handler_inv:
  assumes inv: "srv_inv E w"
    and w'_def: "w' = tftp_server_udp_handler fd ev (Some me) w"
  shows "srv_inv E w'" "reactor_flags (sv_sys w') = reactor_flags (sv_sys w)" "g_server w' = g_server w"
    "g_server_in_use w' = g_server_in_use w" "polls (ts_os (sv_sys w')) = polls (ts_os (sv_sys w))"
proof -
  obtain st b n src s1 where r: "udp_call (udp_transport_receive (s_transport (g_server w))
      (Some (replicate TFTP_SERVER_RX_BUFFER_SIZE 0)) TFTP_SERVER_RX_BUFFER_SIZE
      (Some 0) (Some sockaddr_zero)) (sv_sys w) = ((st, b, n, src), s1)" by (metis prod.collapse)
  let ?w1 = "w\<lparr>sv_sys := s1\<rparr>"
  obtain st2 w2 where p: "tftp_server_process_event (Some 0) b (deref 0 n) src ?w1 = (st2, w2)"
    by (meson surj_pair)
  have o: "s1 = (sv_sys w)\<lparr>ts_os := ts_os s1\<rparr>" using receive_call [OF r] by blast
  have "tsys_inv E (s_transport (g_server w)) (s_registered (g_server w)) (sv_sys w)"
    using inv by (simp add: srv_inv_def)
  from owned_receive [OF this r] have 1: "srv_inv E ?w1"
    using inv all_active_pool [OF os_only(1) [OF o]] by (simp add: srv_inv_def)
  have "reactor_flags s1 = reactor_flags (sv_sys w)" "polls (ts_os s1) = polls (ts_os (sv_sys w))"
    using os_only(4) [OF o] receive_call [OF r] by (auto simp: reactor_flags_def)
  moreover have "w' = w \<or> w' = ?w1 \<or> w' = w2"
    using r p by (auto simp: w'_def tftp_server_udp_handler_def sys_call_def split: if_splits)
  ultimately have "srv_inv E w' \<and> reactor_flags (sv_sys w') = reactor_flags (sv_sys w) \<and>
      g_server w' = g_server w \<and> g_server_in_use w' = g_server_in_use w \<and>
      polls (ts_os (sv_sys w')) = polls (ts_os (sv_sys w))"
    using inv 1 process_event_inv [OF 1 p] by auto
  then show "srv_inv E w'" "reactor_flags (sv_sys w') = reactor_flags (sv_sys w)" "g_server w' = g_server w"
    "g_server_in_use w' = g_server_in_use w" "polls (ts_os (sv_sys w')) = polls (ts_os (sv_sys w))"
    by simp_all
qed


section \<open>The life cycle of the server\<close>

lemma start_fail_effect:
  assumes "s_transport (g_server w) = Some p" and e: "shut_socket (Some p) (sv_sys w) = (r, s')"
  shows "server_start_fail w = w\<lparr>sv_sys := s', g_server := (g_server w)
    \<lparr>s_transport := deref None r, s_registered := False, s_running := False\<rparr>\<rparr>"
proof -
  obtain st1 s1 where c: "udp_call (udp_transport_close (Some p)) (sv_sys w) = (st1, s1)" by (meson surj_pair)
  obtain st2 s2 where d: "udp_call (udp_transport_deinit (Some p)) s1 = (st2, s2)" by (meson surj_pair)
  show ?thesis
    using assms(1) e c d by (simp add: server_start_fail_def Let_def sys_call_def upd_sv_def shut_socket_def)
qed

text \<open>
  \<open>tftp_server_start\<close> after a transport was acquired: its four further steps on the system
  state.
\<close>

definition open_listener :: "nat \<Rightarrow> u16 \<Rightarrow> ptr \<Rightarrow> nat \<Rightarrow> tsys \<Rightarrow> tftp_status_t \<times> tsys" where
  "open_listener p port rct me s =
     (case udp_call (udp_transport_init (Some p) (Some \<lparr>tc_local_port = port, tc_non_blocking = True\<rparr>)) s of
        (st, s) \<Rightarrow> if st \<noteq> TFTP_OK then (st, s) else
     (case udp_call (udp_transport_open (Some p)) s of
        (st, s) \<Rightarrow> if st \<noteq> TFTP_OK then (st, s) else
     (case udp_call (udp_transport_bind (Some p) port) s of
        (st, s) \<Rightarrow> if st \<noteq> TFTP_OK then (st, s) else
     (if get_fd (Some p) s < 0 then (TFTP_ERR_INVALID_STATE, s) else
      reactor_call (reactor_register rct (Some
        \<lparr>r_fd = get_fd (Some p) s, r_events = REACTOR_EVENT_READ OR REACTOR_EVENT_ERROR,
         r_handler = Some Server_udp_handler, r_context = Some me\<rparr>)) s))))"

lemma server_start_cases:
  assumes "s_initialized (g_server w)" "\<not> s_running (g_server w)"
  shows "tftp_server_start (Some me) w =
    (case udp_call (udp_transport_acquire (Some (s_transport (g_server w)))) (sv_sys w) of ((st, q), s) \<Rightarrow>
       let w = w\<lparr>sv_sys := s, g_server := (g_server w)\<lparr>s_transport := deref None q\<rparr>\<rparr> in
       if st \<noteq> TFTP_OK then (st, w)
       else (case open_listener (the (deref None q)) (s_port (g_server w)) (s_reactor (g_server w)) me s of
         (st, s) \<Rightarrow>
           let w = w\<lparr>sv_sys := s\<rparr> in
           if st \<noteq> TFTP_OK then (st, server_start_fail w)
           else (TFTP_OK, w\<lparr>g_server := (g_server w)\<lparr>s_registered := True, s_running := True\<rparr>\<rparr>)))"
proof -
  have out: "\<exists>i. q = Some (Some i)"
    if "udp_call (udp_transport_acquire x) s = ((TFTP_OK, q), s')" for x q s s'
    using that by (auto simp: udp_call_eq udp_transport_acquire_def split: option.splits)
  obtain st q s where a: "udp_call (udp_transport_acquire (Some (s_transport (g_server w)))) (sv_sys w) =
      ((st, q), s)" by (metis prod.collapse)
  show ?thesis
  proof (cases "st = TFTP_OK")
    case False
    with a assms show ?thesis by (simp add: tftp_server_start_def sys_call_def upd_sv_def Let_def)
  next
    case True
    with out a obtain p where q: "q = Some (Some p)" by blast
    let ?port = "s_port (g_server w)"
    obtain st1 s1 where e1: "udp_call (udp_transport_init (Some p)
        (Some \<lparr>tc_local_port = ?port, tc_non_blocking = True\<rparr>)) s = (st1, s1)" by (meson surj_pair)
    obtain st2 s2 where e2: "udp_call (udp_transport_open (Some p)) s1 = (st2, s2)" by (meson surj_pair)
    obtain st3 s3 where e3: "udp_call (udp_transport_bind (Some p) ?port) s2 = (st3, s3)" by (meson surj_pair)
    obtain st4 s4 where e4: "reactor_call (reactor_register (s_reactor (g_server w)) (Some
        \<lparr>r_fd = get_fd (Some p) s3, r_events = REACTOR_EVENT_READ OR REACTOR_EVENT_ERROR,
         r_handler = Some Server_udp_handler, r_context = Some me\<rparr>)) s3 = (st4, s4)" by (meson surj_pair)
    show ?thesis
      by (simp add: tftp_server_start_def sys_call_def upd_sv_def Let_def open_listener_def
          assms a True q e1 e2 e3 e4)
  qed
qed

lemma open_listener_safe:
  assumes inv: "tsys_inv E (Some p) False s" and u: "\<not> u_initialized (sock s p)"
    and e: "open_listener p port (Some 0) 0 s = (st, s')"
  shows "tsys_inv E (Some p) (st = TFTP_OK) s' \<and> g_transfer_pool s' = g_transfer_pool s \<and>
    reactor_flags s' = reactor_flags s \<and> disk_of (ts_os s') = disk_of (ts_os s)"
proof -
  note p = owner_server [OF inv]
  obtain st1 s1 where e1: "udp_call (udp_transport_init (Some p)
      (Some \<lparr>tc_local_port = port, tc_non_blocking = True\<rparr>)) s = (st1, s1)" by (meson surj_pair)
  from owned_init_transport [OF inv p e1] u obtain x where 1: "tsys_inv E (Some p) False s1" "st1 = TFTP_OK"
    "s1 = sock_change p x (ts_os s) s" "u_initialized x" "\<not> u_open x" by auto
  have o1: "sock_only s s1" using 1(3) by (simp add: sock_only_change)
  have l1: "u_initialized (sock s1 p)" "\<not> u_open (sock s1 p)" using 1 pool_len [OF inv] p(1) by simp_all
  obtain st2 s2 where e2: "udp_call (udp_transport_open (Some p)) s1 = (st2, s2)" by (meson surj_pair)
  from owned_open_transport [OF 1(1) p(1) l1 e2] obtain y k where 2: "tsys_inv E (Some p) False s2"
    "s2 = sock_change p y k s1" "disk_same (ts_os s1) k" "st2 = TFTP_OK \<longrightarrow> u_open y" by blast
  have o2: "sock_only s s2" using sock_only_trans [OF o1] sock_only_change [OF 2(3)] 2(2) by simp
  obtain st3 s3 where e3: "udp_call (udp_transport_bind (Some p) port) s2 = (st3, s3)" by (meson surj_pair)
  from owned_bind_transport [OF 2(1) p(1) e3] obtain z k3 where 3: "tsys_inv E (Some p) False s3"
    "s3 = sock_change p z k3 s2" "disk_same (ts_os s2) k3" "u_open z = u_open (sock s2 p)" by blast
  have o3: "sock_only s s3" using sock_only_trans [OF o2] sock_only_change [OF 3(3)] 3(2) by simp
  have so: "g_transfer_pool t = g_transfer_pool s \<and> reactor_flags t = reactor_flags s \<and>
      disk_of (ts_os t) = disk_of (ts_os s)" if "sock_only s t" for t
    using that by (simp add: sock_only_def reactor_flags_def)
  show ?thesis
  proof (cases "st2 = TFTP_OK \<and> st3 = TFTP_OK")
    case False
    then show ?thesis
      using e e1 e2 e3 1(2) 2(1) 3(1) so [OF o2] so [OF o3]
      by (auto simp: open_listener_def split: if_splits)
  next
    case True
    have op: "u_open (sock s3 p)" using True 2 3 pool_len [OF inv] p(1)
      by (simp add: pool_len [OF 2(1)] pool_len [OF 1(1)])
    have fd: "get_fd (Some p) s3 = u_fd (sock s3 p)" "0 \<le> u_fd (sock s3 p)"
      using get_fd_open [OF 3(1) p(1)] op by simp_all
    obtain st4 s4 where r: "reactor_call (reactor_register (Some 0)
        (Some (reg_of s3 Server_udp_handler 0 p))) s3 = (st4, s4)" by (meson surj_pair)
    have res: "st = st4" "s' = s4"
      using e e1 e2 e3 1(2) True fd r by (simp_all add: open_listener_def reg_of_def)
    obtain v where v: "s4 = s3\<lparr>ts_reactor := v\<rparr>"
      "reactor_register (Some 0) (Some (reg_of s3 Server_udp_handler 0 p)) (ts_reactor s3) = (st4, v)"
      using r by (auto simp: reactor_call_eq)
    show ?thesis
    proof (cases "st4 = TFTP_OK")
      case True
      have "rc_initialized (g_reactor (ts_reactor s3))"
        using v(2) True by (simp add: reactor_register_def Let_def split: if_splits)
      with register_okD [OF tsys_invD(3) [OF 3(1)] v(2) [unfolded True]]
      have "reactor_flags s4 = reactor_flags s3" by (simp add: v(1) reactor_flags_def)
      with True owned_register_server [OF 3(1) op] r res so [OF o3] v(1) show ?thesis by simp
    next
      case False
      have "v = ts_reactor s3"
        using v(2) False by (auto simp: reactor_register_def Let_def split: option.splits if_splits)
      with False res so [OF o3] v(1) 3(1) show ?thesis by simp
    qed
  qed
qed


text \<open>What a life-cycle call of the server leaves alone.\<close>

definition life_same :: "srv \<Rightarrow> srv \<Rightarrow> bool" where
  "life_same w w' \<longleftrightarrow> g_transfer_pool (sv_sys w') = g_transfer_pool (sv_sys w) \<and>
     reactor_flags (sv_sys w') = reactor_flags (sv_sys w) \<and>
     disk_of (ts_os (sv_sys w')) = disk_of (ts_os (sv_sys w)) \<and> g_server_in_use w' = g_server_in_use w"

lemma life_same_refl [simp]: "life_same w w"
  by (simp add: life_same_def)

lemma life_same_trans: "life_same a b \<Longrightarrow> life_same b c \<Longrightarrow> life_same a c"
  by (simp add: life_same_def)

lemma sock_only_life:
  "sock_only (sv_sys w) s' \<Longrightarrow> life_same w (w\<lparr>sv_sys := s', g_server := v\<rparr>)"
  by (simp add: life_same_def sock_only_def reactor_flags_def)

lemma srv_invD:
  assumes "srv_inv E w"
  shows "tsys_inv E (s_transport (g_server w)) (s_registered (g_server w)) (sv_sys w)"
    "all_active (sv_sys w)" "server_ok (g_server w)"
  using assms by (simp_all add: srv_inv_def)

lemma server_idle:
  assumes "srv_inv E w" "\<not> s_running (g_server w)"
  shows "s_transport (g_server w) = None" "\<not> s_registered (g_server w)"
  using assms by (simp_all add: srv_inv_def server_ok_def)

lemma server_running:
  assumes "srv_inv E w" "s_running (g_server w)"
  shows "\<exists>p. s_transport (g_server w) = Some p" "s_registered (g_server w)" "s_initialized (g_server w)"
    "s_reactor (g_server w) = Some 0"
  using assms unfolding srv_inv_def server_ok_def by auto

lemma start_fail_safe:
  assumes inv: "tsys_inv E (Some p) False (sv_sys w)" and g: "s_transport (g_server w) = Some p"
    "s_initialized (g_server w)" "s_reactor (g_server w) = Some 0"
    and a: "all_active (sv_sys w)"
  shows "srv_inv E (server_start_fail w)" "life_same w (server_start_fail w)"
    "g_server (server_start_fail w) =
      (g_server w)\<lparr>s_transport := None, s_registered := False, s_running := False\<rparr>"
proof -
  obtain r s' where e: "shut_socket (Some p) (sv_sys w) = (r, s')" by (meson surj_pair)
  note eff = start_fail_effect [OF g(1) e]
  from shut_socket_safe [OF inv e] have s: "r = Some None" "tsys_inv E None False s'"
    "sock_only (sv_sys w) s'" by simp_all
  then have "all_active s'" using all_active_pool [of s' "sv_sys w"] a by (simp add: sock_only_def)
  then show "srv_inv E (server_start_fail w)"
    using s g by (simp add: eff srv_inv_def server_ok_def)
  show "life_same w (server_start_fail w)" unfolding eff by (rule sock_only_life [OF s(3)])
  show "g_server (server_start_fail w) =
      (g_server w)\<lparr>s_transport := None, s_registered := False, s_running := False\<rparr>"
    using s by (simp add: eff)
qed

lemma server_start_inv:
  assumes inv: "srv_inv E w" and e: "tftp_server_start (Some 0) w = (st, w')"
  shows "srv_inv E w' \<and> life_same w w' \<and> s_initialized (g_server w') = s_initialized (g_server w) \<and>
    s_running (g_server w') = (s_running (g_server w) \<or> st = TFTP_OK)"
proof (cases "s_initialized (g_server w) \<and> \<not> s_running (g_server w)")
  case False
  then have "w' = w" "st \<noteq> TFTP_OK" using e by (auto simp: tftp_server_start_def split: if_splits)
  with inv show ?thesis by simp
next
  case True
  note i = srv_invD [OF inv] and idle = server_idle [OF inv]
  have inv0: "tsys_inv E None False (sv_sys w)" using i(1) idle True by simp
  have rct: "s_reactor (g_server w) = Some 0" using i(3) True by (simp add: server_ok_def)
  obtain st1 q s1 where a: "udp_call (udp_transport_acquire (Some None)) (sv_sys w) = ((st1, q), s1)"
    by (metis prod.collapse)
  note c = server_start_cases [of w 0, OF conjunct1 [OF True] conjunct2 [OF True]]
  note ac = udp_acquire_call [OF inv0 a] and inv1 = owned_acquire_server [OF inv0 a]
  show ?thesis
  proof (cases "st1 = TFTP_OK")
    case False
    with ac have "q = Some None" "s1 = sv_sys w" by auto
    with False e c a idle(1) True have w': "st = st1" "w' = w\<lparr>g_server := (g_server w)\<lparr>s_transport := None\<rparr>\<rparr>"
      by (simp_all add: Let_def)
    have "g_server w' = g_server w" using w' idle(1) True by simp
    moreover have "sv_sys w' = sv_sys w" "g_server_in_use w' = g_server_in_use w" using w' by simp_all
    ultimately show ?thesis using inv False w'(1) True by (simp add: srv_inv_def life_same_def)
  next
    case ok: True
    with ac obtain p where p: "q = Some (Some p)" "p < UDP_TRANSPORT_POOL_SIZE"
      "s1 = set_used p True (sock_change p fresh_sock (ts_os (sv_sys w)) (sv_sys w))" by auto
    have inv1: "tsys_inv E (Some p) False s1" using inv1 p by simp
    have u: "\<not> u_initialized (sock s1 p)" using pool_len [OF inv0] p by (simp add: udp_transport_zero_def)
    have s1: "g_transfer_pool s1 = g_transfer_pool (sv_sys w)" "reactor_flags s1 = reactor_flags (sv_sys w)"
      "disk_of (ts_os s1) = disk_of (ts_os (sv_sys w))" using p(3) by (simp_all add: reactor_flags_def)
    obtain st2 s2 where o: "open_listener p (s_port (g_server w)) (Some 0) 0 s1 = (st2, s2)"
      by (meson surj_pair)
    from open_listener_safe [OF inv1 u o] s1 have 2: "tsys_inv E (Some p) (st2 = TFTP_OK) s2"
      "g_transfer_pool s2 = g_transfer_pool (sv_sys w)" "reactor_flags s2 = reactor_flags (sv_sys w)"
      "disk_of (ts_os s2) = disk_of (ts_os (sv_sys w))" by simp_all
    let ?w2 = "w\<lparr>g_server := (g_server w)\<lparr>s_transport := Some p\<rparr>, sv_sys := s2\<rparr>"
    have res: "st = st2" "w' = (if st2 \<noteq> TFTP_OK then server_start_fail ?w2
        else ?w2\<lparr>g_server := (g_server ?w2)\<lparr>s_registered := True, s_running := True\<rparr>\<rparr>)"
      using e c a idle(1) True ok p(1) o rct by (auto simp: Let_def split: if_splits)
    have aa: "all_active s2" using all_active_pool [OF 2(2)] i(2) by simp
    have l2: "life_same w ?w2" using 2 by (simp add: life_same_def)
    show ?thesis
    proof (cases "st2 = TFTP_OK")
      case True
      with res 2 aa l2 rct \<open>s_initialized (g_server w) \<and> \<not> s_running (g_server w)\<close> show ?thesis
        by (simp add: srv_inv_def server_ok_def life_same_def)
    next
      case False
      have "tsys_inv E (Some p) False (sv_sys ?w2)" using 2(1) False by simp
      from start_fail_safe [OF this] aa rct \<open>s_initialized (g_server w) \<and> \<not> s_running (g_server w)\<close>
        life_same_trans [OF l2] res False
      show ?thesis by simp
    qed
  qed
qed


lemma server_open:
  assumes "tsys_inv E (Some p) True s"
  shows "u_open (sock s p)" "get_fd (Some p) s = u_fd (sock s p)" "0 \<le> u_fd (sock s p)"
proof -
  have "(Server_udp_handler, 0, p) \<in> registrants (Some p) True s" by (auto simp: registrants_def)
  then show op: "u_open (sock s p)"
    using tsys_invD(8) [OF assms] by (auto simp: registrations_owned_def)
  then show "get_fd (Some p) s = u_fd (sock s p)" "0 \<le> u_fd (sock s p)"
    using get_fd_open [OF assms owner_server(1) [OF assms]] by simp_all
qed

lemma server_stop_run:
  assumes p: "s_transport (g_server w) = Some p" "s_registered (g_server w)" "s_reactor (g_server w) = Some 0"
    and fd: "get_fd (Some p) (sv_sys w) = fd" "0 \<le> fd"
    and u: "reactor_call (reactor_unregister (Some 0) fd) (sv_sys w) = (st, s1)"
    and sh: "shut_socket (Some p) s1 = (r, s2)"
  shows "tftp_server_stop (Some me) w = (st, w\<lparr>g_server := (g_server w)
      \<lparr>s_running := False, s_registered := False, s_transport := deref None r\<rparr>, sv_sys := s2\<rparr>)"
proof -
  obtain st2 s3 where c: "udp_call (udp_transport_close (Some p)) s1 = (st2, s3)" by (meson surj_pair)
  obtain st3 s4 where d: "udp_call (udp_transport_deinit (Some p)) s3 = (st3, s4)" by (meson surj_pair)
  have rel: "udp_call (udp_transport_release (Some (Some p))) s4 = (r, s2)"
    using sh c d by (simp add: shut_socket_def)
  show ?thesis
    by (simp only: tftp_server_stop_def option.case)
      (simp add: Let_def upd_sv_def sys_call_def p fd u c d rel)
qed

lemma server_stop_inv:
  assumes inv: "srv_inv E w" and e: "tftp_server_stop (Some me) w = (st, w')"
  shows "srv_inv E w' \<and> st = TFTP_OK \<and> g_transfer_pool (sv_sys w') = g_transfer_pool (sv_sys w) \<and>
    reactor_flags (sv_sys w') = reactor_flags (sv_sys w) \<and>
    disk_of (ts_os (sv_sys w')) = disk_of (ts_os (sv_sys w)) \<and> g_server_in_use w' = g_server_in_use w \<and>
    g_server w' = (g_server w)\<lparr>s_running := False, s_registered := False, s_transport := None\<rparr>"
proof (cases "s_running (g_server w)")
  case False
  note idle = server_idle [OF inv False]
  have g: "g_server w = (g_server w)\<lparr>s_running := False, s_registered := False, s_transport := None\<rparr>"
    using False idle by simp
  have "w' = w\<lparr>g_server := (g_server w)\<lparr>s_running := False\<rparr>\<rparr>" "st = TFTP_OK"
    using e idle by (simp_all add: tftp_server_stop_def upd_sv_def Let_def)
  moreover have "(g_server w)\<lparr>s_running := False\<rparr> = g_server w" using False by simp
  ultimately show ?thesis using g inv by (simp add: srv_inv_def)
next
  case True
  note i = srv_invD [OF inv] and run = server_running [OF inv True]
  then obtain p where p: "s_transport (g_server w) = Some p" by blast
  have inv1: "tsys_inv E (Some p) True (sv_sys w)" using i(1) p run(2) by simp
  note op = server_open [OF inv1]
  obtain st1 s1 where u: "reactor_call (reactor_unregister (Some 0) (u_fd (sock (sv_sys w) p))) (sv_sys w) = (st1, s1)"
    by (meson surj_pair)
  note un = owned_unregister_server [OF inv1 u]
  have m: "(Server_udp_handler, 0, p) \<in> registrants (Some p) True (sv_sys w)" by (auto simp: registrants_def)
  from unregister_call [OF inv1 m u] obtain v where v: "s1 = (sv_sys w)\<lparr>ts_reactor := v\<rparr>"
    "rc_initialized (g_reactor v)"
    "rc_max_handlers (g_reactor v) = rc_max_handlers (g_reactor (ts_reactor (sv_sys w)))"
    "rc_running (g_reactor v) = rc_running (g_reactor (ts_reactor (sv_sys w)))"
    "g_reactor_in_use v = g_reactor_in_use (ts_reactor (sv_sys w))" by blast
  have fl: "reactor_flags s1 = reactor_flags (sv_sys w)" "g_transfer_pool s1 = g_transfer_pool (sv_sys w)"
    "ts_os s1 = ts_os (sv_sys w)"
    using registrant_initialized [OF inv1 m] v by (simp_all add: reactor_flags_def)
  obtain r s2 where sh: "shut_socket (Some p) s1 = (r, s2)" by (meson surj_pair)
  have un: "tsys_inv E (Some p) False s1" "st1 = TFTP_OK" using un by blast+
  note h = shut_socket_safe [OF un(1) sh]
  have res: "st = TFTP_OK" "w' = w\<lparr>g_server := (g_server w)
      \<lparr>s_running := False, s_registered := False, s_transport := None\<rparr>, sv_sys := s2\<rparr>"
    using server_stop_run [OF p run(2,4) op(2,3) u sh, of me] e un(2) h by simp_all
  have so: "sock_only s1 s2" using h by blast
  then have "all_active s2" using i(2) fl(2) all_active_pool [of s2 "sv_sys w"] by (simp add: sock_only_def)
  moreover have "g_transfer_pool s2 = g_transfer_pool (sv_sys w)" "disk_of (ts_os s2) = disk_of (ts_os (sv_sys w))"
    "reactor_flags s2 = reactor_flags (sv_sys w)"
    using so fl by (simp_all add: sock_only_def reactor_flags_def)
  moreover have "tsys_inv E None False s2" using h by blast
  ultimately show ?thesis using res i(3) by (simp add: srv_inv_def server_ok_def)
qed

lemma server_deinit_inv:
  assumes inv: "srv_inv E w" and e: "tftp_server_deinit (Some me) w = (st, w')"
  shows "srv_inv E w' \<and> st = TFTP_OK \<and> life_same w w' \<and> \<not> s_initialized (g_server w') \<and>
    s_transport (g_server w') = None \<and> \<not> s_running (g_server w')"
proof (cases "s_transport (g_server w) = None")
  case True
  then have r: "\<not> s_running (g_server w)" "\<not> s_registered (g_server w)"
    using srv_invD(3) [OF inv] by (auto simp: server_ok_def)
  have "w' = w\<lparr>g_server := (g_server w)\<lparr>s_running := False, s_registered := False, s_reactor := None,
      s_initialized := False\<rparr>\<rparr>" "st = TFTP_OK"
    using e True by (simp_all add: tftp_server_deinit_def upd_sv_def)
  then show ?thesis using inv True r by (simp add: srv_inv_def server_ok_def life_same_def)
next
  case False
  obtain st1 w1 where s: "tftp_server_stop (Some me) w = (st1, w1)" by (meson surj_pair)
  note st = server_stop_inv [OF inv s]
  have w': "w' = w1\<lparr>g_server := (g_server w1)\<lparr>s_running := False, s_registered := False, s_reactor := None,
      s_initialized := False\<rparr>\<rparr>" "st = TFTP_OK"
    using e False s by (simp_all add: tftp_server_deinit_def upd_sv_def)
  have g1: "s_transport (g_server w1) = None" "s_registered (g_server w1) = False" using st by simp_all
  have "srv_inv E w1" using st by blast
  from srv_invD(1,2) [OF this] have "tsys_inv E None False (sv_sys w1)" "all_active (sv_sys w1)"
    unfolding g1 by simp_all
  then show ?thesis using w' st by (simp add: srv_inv_def server_ok_def life_same_def)
qed

lemma server_acquire_inv:
  assumes inv: "srv_inv E w" and u: "\<not> s_initialized (g_server w)"
    and e: "tftp_server_acquire (Some x) w = ((st, p), w')"
  shows "srv_inv E w' \<and> sv_sys w' = sv_sys w \<and> \<not> s_initialized (g_server w') \<and>
    (st = TFTP_OK \<and> p = Some (Some 0) \<or> st = TFTP_ERR_NO_RESOURCE \<and> p = Some None)"
proof (cases "g_server_in_use w")
  case True
  with e inv u show ?thesis by (auto simp: tftp_server_acquire_def)
next
  case False
  have r: "\<not> s_running (g_server w)" using srv_invD(3) [OF inv] u by (auto simp: server_ok_def)
  note idle = server_idle [OF inv r]
  have "tsys_inv E None False (sv_sys w)" using srv_invD(1) [OF inv] idle by simp
  then show ?thesis using e False inv
    by (auto simp: tftp_server_acquire_def srv_inv_def tftp_server_zero_def server_ok_def)
qed

lemma server_init_inv:
  assumes inv: "srv_inv E w" and c: "sc_reactor c = Some 0"
    and e: "tftp_server_init cfg (Some me) (Some c) w = (st, w')"
  shows "srv_inv E w' \<and> life_same w w' \<and> sv_sys w' = sv_sys w \<and>
    (st = TFTP_OK \<longrightarrow> s_initialized (g_server w') \<and> \<not> s_running (g_server w'))"
proof (cases "st = TFTP_OK")
  case False
  then have "w' = w" using e by (auto simp: tftp_server_init_def Let_def split: if_splits)
  with False inv show ?thesis by simp
next
  case True
  then have u: "\<not> s_initialized (g_server w)" using e by (auto simp: tftp_server_init_def split: if_splits)
  have r: "\<not> s_running (g_server w)" using srv_invD(3) [OF inv] u by (auto simp: server_ok_def)
  note idle = server_idle [OF inv r]
  have "tsys_inv E None False (sv_sys w)" using srv_invD(1) [OF inv] idle by simp
  then show ?thesis using e True c inv
    by (auto simp: tftp_server_init_def srv_inv_def server_ok_def life_same_def upd_sv_def Let_def split: if_splits)
qed

lemma server_release_inv:
  assumes inv: "srv_inv E w" and e: "tftp_server_release (Some (Some 0)) w = (p, w')"
  shows "srv_inv E w' \<and> p = Some None \<and> \<not> g_server_in_use w' \<and> \<not> s_initialized (g_server w') \<and>
    g_transfer_pool (sv_sys w') = g_transfer_pool (sv_sys w) \<and>
    reactor_flags (sv_sys w') = reactor_flags (sv_sys w) \<and>
    disk_of (ts_os (sv_sys w')) = disk_of (ts_os (sv_sys w)) \<and> s_transport (g_server w') = None"
proof (cases "s_initialized (g_server w)")
  case True
  obtain st w1 where d: "tftp_server_deinit (Some 0) w = (st, w1)" by (meson surj_pair)
  from server_deinit_inv [OF inv d] e d True show ?thesis
    by (auto simp: tftp_server_release_def life_same_def srv_inv_def)
next
  case False
  have r: "\<not> s_running (g_server w)" using srv_invD(3) [OF inv] False by (auto simp: server_ok_def)
  from server_idle [OF inv r] e False inv show ?thesis
    by (auto simp: tftp_server_release_def srv_inv_def)
qed

end
