(* ===== verification/Tftp_App.thy ===== *)
theory Tftp_App
  imports Tftp_Server
begin

text \<open>
  \<open>src/tftp/app\<close>: the application object that owns reactor and server, and the connection of
  the reactor to the handlers of the program (\<open>app_host\<close>).  A \<open>tftp_app_t *\<close> is NULL or
  \<open>&g_app\<close>, \<open>Some 0\<close>.
\<close>

section \<open>State\<close>

record tftp_app_config_t =
  ac_server_port :: u16
  ac_max_transfers :: u32

record tftp_app =
  a_initialized :: bool
  a_running :: bool
  a_reactor :: ptr
  a_server :: ptr

definition tftp_app_zero :: tftp_app where
  "tftp_app_zero = \<lparr>a_initialized = False, a_running = False, a_reactor = None, a_server = None\<rparr>"

record app =
  ap_srv :: srv
  g_app :: tftp_app
  g_app_in_use :: bool

definition app_init_state :: "tftp_config \<Rightarrow> os \<Rightarrow> app" where
  "app_init_state cfg k =
     \<lparr>ap_srv = srv_init cfg k, g_app = tftp_app_zero, g_app_in_use = False\<rparr>"

definition srv_call :: "(srv \<Rightarrow> 'r \<times> srv) \<Rightarrow> app \<Rightarrow> 'r \<times> app" where
  "srv_call f a = (case f (ap_srv a) of (r, w) \<Rightarrow> (r, a\<lparr>ap_srv := w\<rparr>))"

definition upd_app :: "(tftp_app \<Rightarrow> tftp_app) \<Rightarrow> app \<Rightarrow> app" where
  "upd_app f a = a\<lparr>g_app := f (g_app a)\<rparr>"

text \<open>What the reactor's calls through function pointers do.\<close>

fun call_handler :: "handler \<Rightarrow> int \<Rightarrow> u32 \<Rightarrow> ptr \<Rightarrow> srv \<Rightarrow> srv" where
  "call_handler Transfer_udp_handler fd events context w =
     w\<lparr>sv_sys := transfer_udp_handler fd events context (sv_sys w)\<rparr>"
| "call_handler Server_udp_handler fd events context w =
     tftp_server_udp_handler fd events context w"

definition srv_host :: "(srv, handler) host" where
  "srv_host =
     \<lparr>h_reactor = (\<lambda>w. ts_reactor (sv_sys w)),
      h_set_reactor = (\<lambda>r w. w\<lparr>sv_sys := (sv_sys w)\<lparr>ts_reactor := r\<rparr>\<rparr>),
      h_os = (\<lambda>w. ts_os (sv_sys w)),
      h_set_os = (\<lambda>k w. w\<lparr>sv_sys := (sv_sys w)\<lparr>ts_os := k\<rparr>\<rparr>),
      h_call = call_handler\<rparr>"

section \<open>Operations\<close>

definition tftp_app_acquire :: "ptr option \<Rightarrow> app \<Rightarrow> (tftp_status_t \<times> ptr option) \<times> app" where
  "tftp_app_acquire out a =
     (case out of
        None \<Rightarrow> ((TFTP_ERR_INVALID_ARGUMENT, None), a)
      | Some _ \<Rightarrow>
          if g_app_in_use a then ((TFTP_ERR_NO_RESOURCE, Some None), a)
          else ((TFTP_OK, Some (Some 0)),
                a\<lparr>g_app_in_use := True,
                  g_app := (g_app a)\<lparr>a_initialized := False, a_running := False,
                              a_reactor := None, a_server := None\<rparr>\<rparr>))"

definition rct_call ::
  "(handler reactor_state \<Rightarrow> 'r \<times> handler reactor_state) \<Rightarrow> app \<Rightarrow> 'r \<times> app" where
  "rct_call f = srv_call (sys_call (reactor_call f))"

text \<open>The \<open>fail\<close> label of \<open>tftp_app_init\<close>.\<close>

definition app_init_fail :: "app \<Rightarrow> app" where
  "app_init_fail a =
     (let a = (if a_server (g_app a) \<noteq> None then
                 (case srv_call (tftp_server_release (Some (a_server (g_app a)))) a of
                    (p, a) \<Rightarrow> upd_app (\<lambda>x. x\<lparr>a_server := deref None p\<rparr>) a)
               else a)
      in if a_reactor (g_app a) \<noteq> None then
           let a = snd (rct_call (reactor_deinit (a_reactor (g_app a))) a) in
           (case rct_call (reactor_release (Some (a_reactor (g_app a)))) a of
              (p, a) \<Rightarrow> upd_app (\<lambda>x. x\<lparr>a_reactor := deref None p\<rparr>) a)
         else a)"

definition tftp_app_init ::
  "tftp_config \<Rightarrow> ptr \<Rightarrow> tftp_app_config_t option \<Rightarrow> app \<Rightarrow> tftp_status_t \<times> app" where
  "tftp_app_init cfg self config a =
     (case (self, config) of
        (Some _, Some c) \<Rightarrow>
          if ac_server_port c = 0 \<or> a_initialized (g_app a) then (TFTP_ERR_INVALID_ARGUMENT, a)
          else
            (case rct_call (reactor_acquire (Some (a_reactor (g_app a)))) a of ((status, p), a) \<Rightarrow>
            let a = upd_app (\<lambda>x. x\<lparr>a_reactor := deref None p\<rparr>) a in
            if status \<noteq> TFTP_OK then (status, a) else
            (case rct_call (reactor_init (a_reactor (g_app a)) (Some \<lparr>rcfg_max_handlers = 16\<rparr>)) a of
               (status, a) \<Rightarrow>
            if status \<noteq> TFTP_OK then (status, app_init_fail a) else
            (case srv_call (tftp_server_acquire (Some (a_server (g_app a)))) a of ((status, p), a) \<Rightarrow>
            let a = upd_app (\<lambda>x. x\<lparr>a_server := deref None p\<rparr>) a in
            if status \<noteq> TFTP_OK then (status, app_init_fail a) else
            let server_config = \<lparr>sc_port = ac_server_port c, sc_max_transfers = ac_max_transfers c,
                                 sc_reactor = a_reactor (g_app a)\<rparr> in
            (case srv_call (tftp_server_init cfg (a_server (g_app a)) (Some server_config)) a of
               (status, a) \<Rightarrow>
            if status \<noteq> TFTP_OK then (status, app_init_fail a)
            else (TFTP_OK, upd_app (\<lambda>x. x\<lparr>a_initialized := True, a_running := False\<rparr>) a)))))
      | _ \<Rightarrow> (TFTP_ERR_INVALID_ARGUMENT, a))"

definition tftp_app_start :: "ptr \<Rightarrow> app \<Rightarrow> tftp_status_t \<times> app" where
  "tftp_app_start self a =
     (case self of
        None \<Rightarrow> (TFTP_ERR_INVALID_ARGUMENT, a)
      | Some _ \<Rightarrow>
          if \<not> a_initialized (g_app a) then (TFTP_ERR_NOT_INITIALIZED, a)
          else if a_running (g_app a) then (TFTP_ERR_INVALID_STATE, a)
          else
            (case srv_call (tftp_server_start (a_server (g_app a))) a of (status, a) \<Rightarrow>
               if status \<noteq> TFTP_OK then (status, a)
               else (TFTP_OK, upd_app (\<lambda>x. x\<lparr>a_running := True\<rparr>) a)))"

text \<open>\<open>None\<close>: the main loop does not return.\<close>

definition tftp_app_run ::
  "(nat \<Rightarrow> pollfd list) \<Rightarrow> ptr \<Rightarrow> app \<Rightarrow> (tftp_status_t \<times> app) option" where
  "tftp_app_run stacks self a =
     (case self of
        None \<Rightarrow> Some (TFTP_ERR_INVALID_ARGUMENT, a)
      | Some _ \<Rightarrow>
          if \<not> a_initialized (g_app a) then Some (TFTP_ERR_NOT_INITIALIZED, a)
          else if \<not> a_running (g_app a) then Some (TFTP_ERR_INVALID_STATE, a)
          else
            (case reactor_run srv_host stacks (a_reactor (g_app a)) (ap_srv a) of
               None \<Rightarrow> None
             | Some (status, w) \<Rightarrow> Some (status, a\<lparr>ap_srv := w\<rparr>)))"

definition tftp_app_stop :: "ptr \<Rightarrow> app \<Rightarrow> tftp_status_t \<times> app" where
  "tftp_app_stop self a =
     (case self of
        None \<Rightarrow> (TFTP_ERR_INVALID_ARGUMENT, a)
      | Some _ \<Rightarrow>
          let a = upd_app (\<lambda>x. x\<lparr>a_running := False\<rparr>) a;
              (server_status, a) =
                (if a_server (g_app a) \<noteq> None
                 then srv_call (tftp_server_stop (a_server (g_app a))) a else (TFTP_OK, a));
              (reactor_status, a) =
                (if a_reactor (g_app a) \<noteq> None
                 then rct_call (reactor_stop (a_reactor (g_app a))) a else (TFTP_OK, a))
          in (if server_status \<noteq> TFTP_OK then server_status else reactor_status, a))"

definition tftp_app_deinit :: "ptr \<Rightarrow> app \<Rightarrow> tftp_status_t \<times> app" where
  "tftp_app_deinit self a =
     (case self of
        None \<Rightarrow> (TFTP_ERR_INVALID_ARGUMENT, a)
      | Some _ \<Rightarrow>
          let a = (if a_server (g_app a) \<noteq> None then
                     let a = snd (srv_call (tftp_server_stop (a_server (g_app a))) a);
                         a = snd (srv_call (tftp_server_deinit (a_server (g_app a))) a) in
                     (case srv_call (tftp_server_release (Some (a_server (g_app a)))) a of
                        (p, a) \<Rightarrow> upd_app (\<lambda>x. x\<lparr>a_server := deref None p\<rparr>) a)
                   else a);
              a = (if a_reactor (g_app a) \<noteq> None then
                     let a = snd (rct_call (reactor_stop (a_reactor (g_app a))) a);
                         a = snd (rct_call (reactor_deinit (a_reactor (g_app a))) a) in
                     (case rct_call (reactor_release (Some (a_reactor (g_app a)))) a of
                        (p, a) \<Rightarrow> upd_app (\<lambda>x. x\<lparr>a_reactor := deref None p\<rparr>) a)
                   else a)
          in (TFTP_OK, upd_app (\<lambda>x. x\<lparr>a_running := False, a_initialized := False\<rparr>) a))"

definition tftp_app_is_running :: "ptr \<Rightarrow> app \<Rightarrow> bool" where
  "tftp_app_is_running self a =
     (case self of None \<Rightarrow> False | Some _ \<Rightarrow> a_running (g_app a))"

definition tftp_app_release :: "ptr option \<Rightarrow> app \<Rightarrow> ptr option \<times> app" where
  "tftp_app_release self a =
     (case self of
        Some (Some p) \<Rightarrow>
          if p = 0 then
            let a = snd (tftp_app_deinit (Some p) a) in (Some None, a\<lparr>g_app_in_use := False\<rparr>)
          else (self, a)
      | _ \<Rightarrow> (self, a))"

end
