(* ===== verification/App_Safety.thy ===== *)
theory App_Safety
  imports Server_Safety Tftp_App
begin

text \<open>
  The whole program: its reactor runs on the server's state (\<open>srv_host\<close>), every call of the
  application module, every round of the reactor and every move of the environment keeps the
  invariant, and so it holds in every state that the program can reach.
\<close>

section \<open>The reactor on the server's state\<close>

text \<open>
  The invariant with what no handler changes: the server's own data and the reactor's flags.
\<close>

definition host_inv :: "int set \<Rightarrow> tftp_server \<times> bool \<Rightarrow> bool \<times> nat \<times> bool \<Rightarrow> srv \<Rightarrow> bool" where
  "host_inv E v f w \<longleftrightarrow> srv_inv E w \<and> (g_server w, g_server_in_use w) = v \<and>
     (rc_initialized (g_reactor (ts_reactor (sv_sys w))),
      rc_max_handlers (g_reactor (ts_reactor (sv_sys w))), g_reactor_in_use (ts_reactor (sv_sys w))) = f"

lemma host_invD: "host_inv E v f w \<Longrightarrow> srv_inv E w"
  by (simp add: host_inv_def)

lemma host_invI:
  "srv_inv E w \<Longrightarrow> reactor_flags (sv_sys w) = reactor_flags (sv_sys w0) \<Longrightarrow> g_server w = g_server w0 \<Longrightarrow>
   g_server_in_use w = g_server_in_use w0 \<Longrightarrow> host_inv E v f w0 \<Longrightarrow> host_inv E v f w"
  by (simp add: host_inv_def reactor_flags_def)

text \<open>An entry of the table is the server's or that of a registered transfer.\<close>

lemma table_entry:
  assumes inv: "srv_inv E w" and r: "reg \<in> set (reg_table (ts_reactor (sv_sys w)))"
  shows "r_handler reg = Some Server_udp_handler \<and> r_context reg = Some 0 \<or>
    (\<exists>i<length (g_transfer_pool (sv_sys w)).
       r_handler reg = Some Transfer_udp_handler \<and> r_context reg = Some i \<and> t_registered (tr (sv_sys w) i))"
  using r tsys_invD(8) [OF srv_invD(1) [OF inv]]
  by (auto simp: registrations_owned_def registrants_def reg_of_def)

lemma handler_inv:
  assumes inv: "host_inv E v f w" and r: "reg \<in> set (reg_table (ts_reactor (sv_sys w)))"
    and h: "r_handler reg = Some h"
  shows "host_inv E v f (call_handler h fd ev (r_context reg) w) \<and>
    reactor_flags (sv_sys (call_handler h fd ev (r_context reg) w)) = reactor_flags (sv_sys w) \<and>
    polls (ts_os (sv_sys (call_handler h fd ev (r_context reg) w))) = polls (ts_os (sv_sys w))"
  using table_entry [OF host_invD [OF inv] r]
proof
  assume "r_handler reg = Some Server_udp_handler \<and> r_context reg = Some 0"
  with h server_handler_inv [OF host_invD [OF inv] refl, of fd ev 0] host_invI [OF _ _ _ _ inv]
  show ?thesis by simp
next
  assume "\<exists>i<length (g_transfer_pool (sv_sys w)). r_handler reg = Some Transfer_udp_handler \<and>
    r_context reg = Some i \<and> t_registered (tr (sv_sys w) i)"
  then obtain i where i: "i < length (g_transfer_pool (sv_sys w))" "h = Transfer_udp_handler"
    "r_context reg = Some i" using h by auto
  have o: "own_step i (sv_sys w) (transfer_udp_handler fd ev (Some i) (sv_sys w))"
    by (rule transfer_handler_inv(2) [OF host_invD [OF inv] i(1) refl])
  then have "polls (ts_os (transfer_udp_handler fd ev (Some i) (sv_sys w))) = polls (ts_os (sv_sys w))"
    by (simp add: own_step_def)
  with transfer_handler_inv(1) [OF host_invD [OF inv] i(1) refl, of fd ev] own_step_flags [OF o]
    host_invI [OF _ _ _ _ inv] i
  show ?thesis by simp
qed

lemma running_host_inv:
  assumes "host_inv E v f w"
  shows "host_inv E v f (set_running srv_host b w)"
proof -
  let ?r = "ts_reactor (sv_sys w)"
  let ?u = "?r\<lparr>g_reactor := (g_reactor ?r)\<lparr>rc_running := b\<rparr>\<rparr>"
  have t: "reg_table ?u = reg_table ?r" by (simp add: reg_table_def)
  have e: "set_running srv_host b w = w\<lparr>sv_sys := (sv_sys w)\<lparr>ts_reactor := ?u\<rparr>\<rparr>"
    by (simp add: set_running_def srv_host_def Let_def)
  note i = srv_invD(1) [OF host_invD [OF assms]]
  have "registrations_owned (s_transport (g_server w)) (s_registered (g_server w)) ((sv_sys w)\<lparr>ts_reactor := ?u\<rparr>)"
    using tsys_invD(8) [OF i] by (simp add: registrations_owned_def registrants_def reg_of_def t)
  moreover have "reactor_inv ?u" using tsys_invD(3) [OF i] by (simp add: reactor_inv_def t)
  ultimately have "tsys_inv E (s_transport (g_server w)) (s_registered (g_server w)) ((sv_sys w)\<lparr>ts_reactor := ?u\<rparr>)"
    using owned_reactor [OF i, of ?u _ _ "sv_sys w"] by simp
  then show ?thesis using assms all_active_pool [of "(sv_sys w)\<lparr>ts_reactor := ?u\<rparr>" "sv_sys w"]
    unfolding e by (simp add: host_inv_def srv_inv_def)
qed

lemma os_host_inv:
  assumes "host_inv E v f w" "fds k = fds (ts_os (sv_sys w))"
    "streams k = streams (ts_os (sv_sys w))" "next_stream k = next_stream (ts_os (sv_sys w))"
  shows "host_inv E v f (w\<lparr>sv_sys := (sv_sys w)\<lparr>ts_os := k\<rparr>\<rparr>)"
  using assms owned_os [OF srv_invD(1) [OF host_invD [OF assms(1)]] assms(2-4)]
    all_active_pool [of "(sv_sys w)\<lparr>ts_os := k\<rparr>" "sv_sys w"]
  by (simp add: host_inv_def srv_inv_def)

interpretation loop: reactor_host srv_host "host_inv E v f" for E v f
proof
  fix w
  assume inv: "host_inv E v f w"
  show "reactor_inv (h_reactor srv_host w)"
    using tsys_invD(3) [OF srv_invD(1) [OF host_invD [OF inv]]] by (simp add: srv_host_def)
  fix reg h ev
  assume r: "reg \<in> set (reg_table (h_reactor srv_host w))" "r_handler reg = Some h"
  from handler_inv [OF inv _ r(2), of "r_fd reg" ev] r(1)
  show "host_inv E v f (h_call srv_host h (r_fd reg) ev (r_context reg) w)"
    "rc_running (g_reactor (h_reactor srv_host (h_call srv_host h (r_fd reg) ev (r_context reg) w))) =
      rc_running (g_reactor (h_reactor srv_host w))"
    "rc_initialized (g_reactor (h_reactor srv_host (h_call srv_host h (r_fd reg) ev (r_context reg) w))) =
      rc_initialized (g_reactor (h_reactor srv_host w))"
    "polls (h_os srv_host (h_call srv_host h (r_fd reg) ev (r_context reg) w)) = polls (h_os srv_host w)"
    by (simp_all add: srv_host_def reactor_flags_def)
next
  fix w ps
  assume "host_inv E v f w"
  then show "host_inv E v f (h_set_os srv_host ((h_os srv_host w)\<lparr>polls := ps\<rparr>) w)"
    by (simp add: srv_host_def os_host_inv)
next
  fix w b
  assume "host_inv E v f w"
  then show "host_inv E v f (set_running srv_host b w)" by (rule running_host_inv)
qed (simp_all add: srv_host_def set_running_def Let_def)


section \<open>The application\<close>

abbreviation asys :: "app \<Rightarrow> tsys" where
  "asys a \<equiv> sv_sys (ap_srv a)"

definition no_transfer :: "tsys \<Rightarrow> bool" where
  "no_transfer s \<longleftrightarrow> (\<forall>t\<in>set (g_transfer_pool s). \<not> t_in_use t)"

text \<open>
  An initialised application owns reactor and server, and it runs exactly when the server does;
  one that is not initialised owns nothing, and no transfer is in use.
\<close>

definition app_ready :: "app \<Rightarrow> bool" where
  "app_ready a \<longleftrightarrow> a_reactor (g_app a) = Some 0 \<and> a_server (g_app a) = Some 0 \<and>
     rc_initialized (g_reactor (ts_reactor (asys a))) \<and> s_initialized (g_server (ap_srv a)) \<and>
     a_running (g_app a) = s_running (g_server (ap_srv a)) \<and> g_app_in_use a"

definition app_blank :: "app \<Rightarrow> bool" where
  "app_blank a \<longleftrightarrow> a_reactor (g_app a) = None \<and> a_server (g_app a) = None \<and>
     \<not> a_running (g_app a) \<and> \<not> s_initialized (g_server (ap_srv a)) \<and>
     \<not> rc_initialized (g_reactor (ts_reactor (asys a))) \<and>
     \<not> g_reactor_in_use (ts_reactor (asys a)) \<and> \<not> g_server_in_use (ap_srv a) \<and> no_transfer (asys a)"

definition app_inv :: "int set \<Rightarrow> app \<Rightarrow> bool" where
  "app_inv E a \<longleftrightarrow> srv_inv E (ap_srv a) \<and>
     (if a_initialized (g_app a) then app_ready a else app_blank a)"

lemma no_transfer_registrants:
  assumes "tsys_inv E S R s" "no_transfer s"
  shows "registrants None False s = {}"
proof -
  have "\<not> t_registered (tr s i)" if "i < length (g_transfer_pool s)" for i
    using tsys_inv_tr [OF assms(1) that] assms(2) that by (simp add: transfer_ok_def no_transfer_def)
  then show ?thesis by (auto simp: registrants_def)
qed

text \<open>A reactor that starts or ends with an empty table, when nobody is registered.\<close>

lemma fresh_reactor:
  assumes inv: "tsys_inv E None False s" and n: "no_transfer s"
    and u: "reactor_inv u" "reg_table u = []"
  shows "tsys_inv E None False (s\<lparr>ts_reactor := u\<rparr>)"
proof -
  have r: "registrants None False (s\<lparr>ts_reactor := u\<rparr>) = {}"
    using no_transfer_registrants [OF inv n] by (simp add: registrants_def)
  have "registrations_owned None False (s\<lparr>ts_reactor := u\<rparr>)"
    using tsys_invD(8) [OF inv] u(2) unfolding registrations_owned_def r by simp
  with owned_reactor [OF inv u(1), of None False s] show ?thesis by simp
qed

lemma blank_server:
  assumes "srv_inv E w" "\<not> s_initialized (g_server w)"
  shows "tsys_inv E None False (sv_sys w)" "s_transport (g_server w) = None" "\<not> s_registered (g_server w)"
    "\<not> s_running (g_server w)"
proof -
  have r: "\<not> s_running (g_server w)" using srv_invD(3) [OF assms(1)] assms(2) by (auto simp: server_ok_def)
  with server_idle [OF assms(1) r] srv_invD(1) [OF assms(1)]
  show "tsys_inv E None False (sv_sys w)" "s_transport (g_server w) = None" "\<not> s_registered (g_server w)"
    "\<not> s_running (g_server w)" by simp_all
qed

lemma app_acquire_inv:
  assumes inv: "app_inv E a" and use: "\<not> g_app_in_use a \<longrightarrow> \<not> a_initialized (g_app a)"
    and e: "tftp_app_acquire (Some x) a = (r, a')"
  shows "app_inv E a' \<and> ap_srv a' = ap_srv a"
proof (cases "g_app_in_use a")
  case True
  with e inv show ?thesis by (simp add: tftp_app_acquire_def)
next
  case False
  with e inv use show ?thesis by (auto simp: tftp_app_acquire_def app_inv_def app_blank_def)
qed

lemma reactor_call_srv:
  "reactor_call f (sv_sys w) = (r, s) \<Longrightarrow> sys_call (reactor_call f) w = (r, w\<lparr>sv_sys := s\<rparr>)"
  by (simp add: sys_call_def)

text \<open>
  On a blank application all four acquisitions of \<open>tftp_app_init\<close> succeed, so only the
  arguments decide its status.
\<close>

lemma app_init_inv:
  assumes inv: "app_inv E a" and use: "g_app_in_use a"
    and e: "tftp_app_init cfg (Some 0) (Some c) a = (st, a')"
  shows "app_inv E a' \<and> g_transfer_pool (asys a') = g_transfer_pool (asys a) \<and> g_app_in_use a' \<and>
    disk_of (ts_os (asys a')) = disk_of (ts_os (asys a)) \<and>
    (if ac_server_port c \<noteq> 0 \<and> \<not> a_initialized (g_app a)
     then st = TFTP_OK \<and> a_initialized (g_app a') \<and> \<not> a_running (g_app a')
     else st = TFTP_ERR_INVALID_ARGUMENT \<and> a' = a)"
proof (cases "ac_server_port c \<noteq> 0 \<and> \<not> a_initialized (g_app a)")
  case False
  then have "st = TFTP_ERR_INVALID_ARGUMENT" "a' = a"
    using e by (auto simp: tftp_app_init_def split: if_splits)
  with False inv use show ?thesis by auto
next
  case True
  let ?w = "ap_srv a" let ?s = "sv_sys ?w" let ?r = "ts_reactor ?s"
  have b: "app_blank a" and si: "srv_inv E ?w" using inv True by (simp_all add: app_inv_def)
  have bs: "\<not> s_initialized (g_server ?w)" "\<not> g_reactor_in_use ?r" "\<not> g_server_in_use ?w" "no_transfer ?s"
    "a_reactor (g_app a) = None" "a_server (g_app a) = None"
    using b by (simp_all add: app_blank_def)
  note bl = blank_server [OF si bs(1)]
  let ?r1 = "?r\<lparr>g_reactor_in_use := True\<rparr>"
  have len: "length (rc_registrations (g_reactor ?r1)) = REACTOR_MAX_HANDLERS"
    using tsys_invD(3) [OF bl(1)] by (simp add: reactor_inv_def)
  from reactor_init_ok [OF len, of "Some \<lparr>rcfg_max_handlers = 16\<rparr>"] obtain u where
    u: "reactor_init (Some 0) (Some \<lparr>rcfg_max_handlers = 16\<rparr>) ?r1 = (TFTP_OK, u)" "reactor_inv u"
      "reg_table u = []" "rc_initialized (g_reactor u)" by blast
  let ?s2 = "?s\<lparr>ts_reactor := u\<rparr>"
  have inv2: "tsys_inv E None False ?s2" by (rule fresh_reactor [OF bl(1) bs(4) u(2,3)])
  let ?m = "if ac_max_transfers c = 0 \<or> unat (ac_max_transfers c) > TFTP_MAX_TRANSFERS cfg
     then of_nat (TFTP_MAX_TRANSFERS cfg) else ac_max_transfers c"
  let ?v = "tftp_server_zero\<lparr>s_port := ac_server_port c, s_max_transfers := ?m, s_reactor := Some 0,
      s_initialized := True\<rparr>"
  let ?a = "a\<lparr>ap_srv := ?w\<lparr>sv_sys := ?s2, g_server := ?v, g_server_in_use := True\<rparr>,
      g_app := (g_app a)\<lparr>a_reactor := Some 0, a_server := Some 0, a_initialized := True, a_running := False\<rparr>\<rparr>"
  have res: "st = TFTP_OK \<and> a' = ?a"
    using e True bs u(1)
    by (auto simp: tftp_app_init_def Let_def upd_app_def rct_call_def srv_call_def sys_call_def
        reactor_call_def reactor_acquire_def tftp_server_acquire_def tftp_server_init_def
        upd_sv_def tftp_server_zero_def)
  have "all_active ?s2" using srv_invD(2) [OF si] by (simp add: all_active_def)
  then have "srv_inv E (ap_srv ?a)" using inv2 by (simp add: srv_inv_def server_ok_def tftp_server_zero_def)
  moreover have "app_ready ?a" using u(4) use by (simp add: app_ready_def tftp_server_zero_def)
  ultimately show ?thesis using True res use by (simp add: app_inv_def)
qed


lemma app_not_ready: "app_inv E a \<Longrightarrow> \<not> a_initialized (g_app a) \<Longrightarrow> \<not> a_running (g_app a)"
  by (simp add: app_inv_def app_blank_def)

lemma app_start_inv:
  assumes inv: "app_inv E a" and e: "tftp_app_start (Some 0) a = (st, a')"
  shows "app_inv E a' \<and> g_transfer_pool (asys a') = g_transfer_pool (asys a) \<and>
    disk_of (ts_os (asys a')) = disk_of (ts_os (asys a)) \<and> g_app_in_use a' = g_app_in_use a \<and>
    a_initialized (g_app a') = a_initialized (g_app a) \<and>
    a_running (g_app a') = (a_running (g_app a) \<or> st = TFTP_OK)"
proof (cases "a_initialized (g_app a) \<and> \<not> a_running (g_app a)")
  case False
  then have "a' = a" "st \<noteq> TFTP_OK" using e by (auto simp: tftp_app_start_def split: if_splits)
  with inv show ?thesis by simp
next
  case True
  then have r: "srv_inv E (ap_srv a)" "app_ready a" using inv by (simp_all add: app_inv_def)
  obtain st1 w where s: "tftp_server_start (Some 0) (ap_srv a) = (st1, w)" by (meson surj_pair)
  have sv: "a_server (g_app a) = Some 0" using r(2) by (simp add: app_ready_def)
  have res: "st = st1" "a' = (if st1 = TFTP_OK
      then a\<lparr>ap_srv := w, g_app := (g_app a)\<lparr>a_running := True\<rparr>\<rparr> else a\<lparr>ap_srv := w\<rparr>)"
    using e True s sv by (auto simp: tftp_app_start_def srv_call_def upd_app_def split: if_splits)
  note i = server_start_inv [OF r(1) s]
  have "rc_initialized (g_reactor (ts_reactor (sv_sys w)))"
    using i r(2) by (simp add: life_same_def reactor_flags_def app_ready_def)
  then show ?thesis
    using i r True res by (auto simp: app_inv_def app_ready_def life_same_def)
qed

text \<open>One round of the reactor, and its whole run, on the application's server.\<close>

lemma app_host:
  "srv_inv E (ap_srv a) \<Longrightarrow> host_inv E (g_server (ap_srv a), g_server_in_use (ap_srv a))
     (rc_initialized (g_reactor (ts_reactor (asys a))), rc_max_handlers (g_reactor (ts_reactor (asys a))),
      g_reactor_in_use (ts_reactor (asys a))) (ap_srv a)"
  by (simp add: host_inv_def)

lemma app_round_inv:
  assumes inv: "app_inv E a" and i: "a_initialized (g_app a)"
    and h: "host_inv E (g_server (ap_srv a), g_server_in_use (ap_srv a))
     (rc_initialized (g_reactor (ts_reactor (asys a))), rc_max_handlers (g_reactor (ts_reactor (asys a))),
      g_reactor_in_use (ts_reactor (asys a))) w"
  shows "app_inv E (a\<lparr>ap_srv := w\<rparr>)"
  using assms by (simp add: app_inv_def host_inv_def app_ready_def)

lemma app_once_inv:
  assumes inv: "app_inv E a" and i: "a_initialized (g_app a)"
    and e: "reactor_run_once srv_host stack (a_reactor (g_app a)) t (ap_srv a) = (st, w)"
  shows "app_inv E (a\<lparr>ap_srv := w\<rparr>)"
proof -
  have "srv_inv E (ap_srv a)" using inv by (simp add: app_inv_def)
  from loop.run_once_inv [OF app_host [OF this] e] show ?thesis
    by (intro app_round_inv [OF inv i]) simp
qed

lemma app_run_inv:
  assumes inv: "app_inv E a" and e: "tftp_app_run stacks (Some 0) a = Some (st, a')"
  shows "app_inv E a' \<and> g_app a' = g_app a \<and> g_app_in_use a' = g_app_in_use a \<and>
    (if \<not> a_initialized (g_app a) then st = TFTP_ERR_NOT_INITIALIZED \<and> a' = a
     else if \<not> a_running (g_app a) then st = TFTP_ERR_INVALID_STATE \<and> a' = a
     else st = TFTP_ERR_IO \<and> Poll_fail \<in> set (polls (ts_os (asys a))))"
proof (cases "a_initialized (g_app a) \<and> a_running (g_app a)")
  case False
  with e inv show ?thesis by (auto simp: tftp_app_run_def split: if_splits)
next
  case True
  then have r: "srv_inv E (ap_srv a)" "app_ready a" using inv by (simp_all add: app_inv_def)
  have rr: "a_reactor (g_app a) = Some 0" "rc_initialized (g_reactor (h_reactor srv_host (ap_srv a)))"
    using r(2) by (simp_all add: app_ready_def srv_host_def)
  obtain w where w: "reactor_run srv_host stacks (Some 0) (ap_srv a) = Some (st, w)" "a' = a\<lparr>ap_srv := w\<rparr>"
    using e True rr by (auto simp: tftp_app_run_def split: option.splits)
  note run = loop.run_result [OF w(1) app_host [OF r(1)] rr(2)]
  have "h_os srv_host (ap_srv a) = ts_os (asys a)" by (simp add: srv_host_def)
  with run app_round_inv [OF inv, of w] True w(2) show ?thesis by auto
qed

lemma reactor_stop_running:
  "srv_call (sys_call (reactor_call (reactor_stop (Some p)))) a =
     (TFTP_OK, a\<lparr>ap_srv := set_running srv_host False (ap_srv a)\<rparr>)"
  by (simp add: srv_call_def sys_call_def reactor_call_def reactor_stop_def set_running_def
      srv_host_def Let_def)

lemma app_stop_inv:
  assumes inv: "app_inv E a" and e: "tftp_app_stop (Some 0) a = (st, a')"
  shows "app_inv E a' \<and> st = TFTP_OK \<and> g_transfer_pool (asys a') = g_transfer_pool (asys a) \<and>
    disk_of (ts_os (asys a')) = disk_of (ts_os (asys a)) \<and> g_app_in_use a' = g_app_in_use a \<and>
    a_initialized (g_app a') = a_initialized (g_app a) \<and> \<not> a_running (g_app a') \<and>
    s_transport (g_server (ap_srv a')) = None"
proof (cases "a_initialized (g_app a)")
  case False
  then have b: "app_blank a" "srv_inv E (ap_srv a)" using inv by (simp_all add: app_inv_def)
  then have a: "a' = a\<lparr>g_app := (g_app a)\<lparr>a_running := False\<rparr>\<rparr>" "st = TFTP_OK"
    using e by (simp_all add: tftp_app_stop_def upd_app_def Let_def app_blank_def)
  have "\<not> s_initialized (g_server (ap_srv a))" using b(1) by (simp add: app_blank_def)
  note bl = blank_server [OF b(2) this]
  show ?thesis using a b bl False by (simp add: app_inv_def app_blank_def)
next
  case True
  then have r: "srv_inv E (ap_srv a)" "app_ready a" using inv by (simp_all add: app_inv_def)
  obtain st1 w where s: "tftp_server_stop (Some 0) (ap_srv a) = (st1, w)" by (meson surj_pair)
  note i = server_stop_inv [OF r(1) s]
  let ?w = "set_running srv_host False w"
  have res: "st = TFTP_OK \<and> a' = a\<lparr>g_app := (g_app a)\<lparr>a_running := False\<rparr>, ap_srv := ?w\<rparr>"
  proof -
    have p: "a_server (g_app a) = Some 0" "a_reactor (g_app a) = Some 0"
      using r(2) by (simp_all add: app_ready_def)
    let ?a = "a\<lparr>g_app := (g_app a)\<lparr>a_running := False\<rparr>\<rparr>"
    have "srv_call (tftp_server_stop (Some 0)) ?a = (TFTP_OK, ?a\<lparr>ap_srv := w\<rparr>)"
      using s i by (simp add: srv_call_def)
    moreover have "rct_call (reactor_stop (Some 0)) (?a\<lparr>ap_srv := w\<rparr>) =
        (TFTP_OK, ?a\<lparr>ap_srv := ?w\<rparr>)"
      by (simp add: rct_call_def reactor_stop_running)
    ultimately show ?thesis using e p by (simp add: tftp_app_stop_def upd_app_def Let_def)
  qed
  have "srv_inv E w" using i by blast
  from running_host_inv [OF app_host [of E "a\<lparr>ap_srv := w\<rparr>", simplified, OF this], of False]
  have h: "srv_inv E ?w" "g_server ?w = g_server w" "g_server_in_use ?w = g_server_in_use w"
    "rc_initialized (g_reactor (ts_reactor (sv_sys ?w))) = rc_initialized (g_reactor (ts_reactor (sv_sys w)))"
    "g_reactor_in_use (ts_reactor (sv_sys ?w)) = g_reactor_in_use (ts_reactor (sv_sys w))"
    by (simp_all add: host_inv_def)
  have t: "g_transfer_pool (sv_sys ?w) = g_transfer_pool (sv_sys w)" "ts_os (sv_sys ?w) = ts_os (sv_sys w)"
    by (simp_all add: set_running_def srv_host_def Let_def)
  show ?thesis
    using res True h t i r(2) by (auto simp: app_inv_def app_ready_def reactor_flags_def)
qed


text \<open>The reactor after \<open>reactor_stop\<close>, \<open>reactor_deinit\<close> and \<open>reactor_release\<close>.\<close>

definition ended_reactor :: "handler reactor_state \<Rightarrow> handler reactor_state" where
  "ended_reactor r = r\<lparr>g_reactor := (g_reactor r)\<lparr>rc_running := False, rc_registration_count := 0,
     rc_initialized := False\<rparr>, g_reactor_in_use := False\<rparr>"

lemma ended_reactor_inv: "reactor_inv r \<Longrightarrow> reactor_inv (ended_reactor r) \<and> reg_table (ended_reactor r) = []"
  by (simp add: ended_reactor_def reactor_inv_def reg_table_def)

lemma app_deinit_cases:
  assumes p: "a_server (g_app a) = Some 0" "a_reactor (g_app a) = Some 0"
    and s: "tftp_server_stop (Some 0) (ap_srv a) = (st1, w1)"
    and d: "tftp_server_deinit (Some 0) w1 = (st2, w2)"
    and r: "tftp_server_release (Some (Some 0)) w2 = (Some None, w3)"
    and i: "rc_initialized (g_reactor (ts_reactor (sv_sys w3)))"
  shows "tftp_app_deinit (Some 0) a = (TFTP_OK, a\<lparr>g_app := (g_app a)\<lparr>a_server := None, a_reactor := None,
      a_running := False, a_initialized := False\<rparr>,
     ap_srv := w3\<lparr>sv_sys := (sv_sys w3)\<lparr>ts_reactor := ended_reactor (ts_reactor (sv_sys w3))\<rparr>\<rparr>\<rparr>)"
proof -
  let ?a1 = "a\<lparr>ap_srv := w1\<rparr>" let ?a2 = "a\<lparr>ap_srv := w2\<rparr>"
  let ?a3 = "a\<lparr>g_app := (g_app a)\<lparr>a_server := None\<rparr>, ap_srv := w3\<rparr>"
  let ?b = "a\<lparr>g_app := (g_app a)\<lparr>a_server := None\<rparr>\<rparr>"
  let ?r = "ts_reactor (sv_sys w3)"
  let ?w = "\<lambda>u. w3\<lparr>sv_sys := (sv_sys w3)\<lparr>ts_reactor := u\<rparr>\<rparr>"
  let ?r4 = "?r\<lparr>g_reactor := (g_reactor ?r)\<lparr>rc_running := False\<rparr>\<rparr>"
  let ?r5 = "?r\<lparr>g_reactor := (g_reactor ?r)\<lparr>rc_running := False, rc_registration_count := 0,
     rc_initialized := False\<rparr>\<rparr>"
  have 1: "srv_call (tftp_server_stop (Some 0)) a = (st1, ?a1)"
    "srv_call (tftp_server_deinit (Some 0)) ?a1 = (st2, ?a2)"
    "srv_call (tftp_server_release (Some (Some 0))) ?a2 = (Some None, a\<lparr>ap_srv := w3\<rparr>)"
    using s d r by (simp_all add: srv_call_def)
  have 2: "rct_call (reactor_stop (Some 0)) (?b\<lparr>ap_srv := w3\<rparr>) = (TFTP_OK, ?b\<lparr>ap_srv := ?w ?r4\<rparr>)"
    "rct_call (reactor_deinit (Some 0)) (?b\<lparr>ap_srv := ?w ?r4\<rparr>) = (TFTP_OK, ?b\<lparr>ap_srv := ?w ?r5\<rparr>)"
    "rct_call (reactor_release (Some (Some 0))) (?b\<lparr>ap_srv := ?w ?r5\<rparr>) =
      (Some None, ?b\<lparr>ap_srv := ?w (ended_reactor ?r)\<rparr>)"
    using i by (simp_all add: rct_call_def srv_call_def sys_call_def reactor_call_def reactor_stop_def
        reactor_deinit_def reactor_release_def ended_reactor_def)
  have 3: "upd_app f (a\<lparr>ap_srv := w\<rparr>) = (a\<lparr>g_app := f (g_app a)\<rparr>)\<lparr>ap_srv := w\<rparr>" for f w
    by (simp add: upd_app_def)
  have a3: "a_reactor (g_app (?b\<lparr>ap_srv := w\<rparr>)) = Some 0" for w using p by simp
  show ?thesis
    unfolding tftp_app_deinit_def option.case
    by (simp add: Let_def p 1 3 2 a3) (simp add: upd_app_def)
qed

text \<open>What \<open>tftp_app_deinit\<close> does, transfers in use or not: the transfers are left as they are.\<close>

lemma app_deinit_effect:
  assumes inv: "app_inv E a" and r: "a_initialized (g_app a)"
    and e: "tftp_app_deinit (Some 0) a = (st, a')"
  shows "st = TFTP_OK \<and> (\<exists>w. srv_inv E w \<and> \<not> s_initialized (g_server w) \<and> \<not> g_server_in_use w \<and>
    reactor_flags (sv_sys w) = reactor_flags (asys a) \<and> g_transfer_pool (sv_sys w) = g_transfer_pool (asys a) \<and>
    disk_of (ts_os (sv_sys w)) = disk_of (ts_os (asys a)) \<and>
    a' = a\<lparr>g_app := (g_app a)\<lparr>a_server := None, a_reactor := None, a_running := False, a_initialized := False\<rparr>,
      ap_srv := w\<lparr>sv_sys := (sv_sys w)\<lparr>ts_reactor := ended_reactor (ts_reactor (sv_sys w))\<rparr>\<rparr>\<rparr>)"
proof -
  have r: "srv_inv E (ap_srv a)" "app_ready a" using inv r by (simp_all add: app_inv_def)
  obtain st1 w1 where s: "tftp_server_stop (Some 0) (ap_srv a) = (st1, w1)" by (meson surj_pair)
  note i1 = server_stop_inv [OF r(1) s]
  have i1a: "srv_inv E w1" using i1 by blast
  obtain st2 w2 where d: "tftp_server_deinit (Some 0) w1 = (st2, w2)" by (meson surj_pair)
  note i2 = server_deinit_inv [OF i1a d]
  have i2a: "srv_inv E w2" using i2 by blast
  obtain p w3 where l: "tftp_server_release (Some (Some 0)) w2 = (p, w3)" by (meson surj_pair)
  note i3 = server_release_inv [OF i2a l]
  have p: "p = Some None" and i3a: "srv_inv E w3" "\<not> s_initialized (g_server w3)" "\<not> g_server_in_use w3"
    using i3 by blast+
  have fl: "reactor_flags (sv_sys w3) = reactor_flags (asys a)"
    "g_transfer_pool (sv_sys w3) = g_transfer_pool (asys a)" "disk_of (ts_os (sv_sys w3)) = disk_of (ts_os (asys a))"
    using i1 i2 i3 by (simp_all add: life_same_def)
  have init: "rc_initialized (g_reactor (ts_reactor (sv_sys w3)))"
    using fl(1) r(2) by (simp add: reactor_flags_def app_ready_def)
  have ptr: "a_server (g_app a) = Some 0" "a_reactor (g_app a) = Some 0"
    using r(2) by (simp_all add: app_ready_def)
  from app_deinit_cases [OF ptr s d l [unfolded p] init] e i3a fl show ?thesis
    by (intro conjI exI [of _ w3]) simp_all
qed

lemma app_deinit_inv:
  assumes inv: "app_inv E a" and n: "no_transfer (asys a)"
    and e: "tftp_app_deinit (Some 0) a = (st, a')"
  shows "app_inv E a' \<and> st = TFTP_OK \<and> \<not> a_initialized (g_app a') \<and>
    g_transfer_pool (asys a') = g_transfer_pool (asys a) \<and> disk_of (ts_os (asys a')) = disk_of (ts_os (asys a)) \<and>
    g_app_in_use a' = g_app_in_use a"
proof (cases "a_initialized (g_app a)")
  case False
  then have b: "app_blank a" using inv by (simp add: app_inv_def)
  then have "a' = a\<lparr>g_app := (g_app a)\<lparr>a_running := False, a_initialized := False\<rparr>\<rparr>" "st = TFTP_OK"
    using e by (simp_all add: tftp_app_deinit_def upd_app_def Let_def app_blank_def)
  with b inv False show ?thesis by (simp add: app_inv_def app_blank_def)
next
  case True
  from app_deinit_effect [OF inv True e] obtain w where w: "srv_inv E w" "\<not> s_initialized (g_server w)"
    "\<not> g_server_in_use w" "g_transfer_pool (sv_sys w) = g_transfer_pool (asys a)"
    "disk_of (ts_os (sv_sys w)) = disk_of (ts_os (asys a))" and st: "st = TFTP_OK"
    and a': "a' = a\<lparr>g_app := (g_app a)\<lparr>a_server := None, a_reactor := None, a_running := False, a_initialized := False\<rparr>,
      ap_srv := w\<lparr>sv_sys := (sv_sys w)\<lparr>ts_reactor := ended_reactor (ts_reactor (sv_sys w))\<rparr>\<rparr>\<rparr>" by blast
  let ?u = "ended_reactor (ts_reactor (sv_sys w))"
  let ?w = "w\<lparr>sv_sys := (sv_sys w)\<lparr>ts_reactor := ?u\<rparr>\<rparr>"
  note bl = blank_server [OF w(1,2)]
  have n3: "no_transfer (sv_sys w)" using n w(4) by (simp add: no_transfer_def)
  have rv: "reactor_inv ?u" "reg_table ?u = []"
    using ended_reactor_inv [OF tsys_invD(3) [OF bl(1)]] by simp_all
  have "tsys_inv E None False (sv_sys ?w)" using fresh_reactor [OF bl(1) n3 rv] by simp
  moreover have "all_active (sv_sys ?w)"
    using all_active_pool [of "sv_sys ?w" "sv_sys w"] srv_invD(2) [OF w(1)] by simp
  ultimately have "srv_inv E ?w" using bl srv_invD(3) [OF w(1)] by (simp add: srv_inv_def)
  moreover have "app_blank a'"
    using a' w n3 bl by (simp add: app_blank_def ended_reactor_def no_transfer_def)
  ultimately show ?thesis using a' st w by (simp add: app_inv_def)
qed

lemma app_release_inv:
  assumes inv: "app_inv E a" and n: "no_transfer (asys a)"
    and e: "tftp_app_release (Some (Some 0)) a = (p, a')"
  shows "app_inv E a' \<and> p = Some None \<and> \<not> a_initialized (g_app a') \<and> \<not> g_app_in_use a'"
proof -
  obtain st a1 where d: "tftp_app_deinit (Some 0) a = (st, a1)" by (meson surj_pair)
  note i = app_deinit_inv [OF inv n d]
  have "a' = a1\<lparr>g_app_in_use := False\<rparr>" "p = Some None" using e d by (simp_all add: tftp_app_release_def)
  moreover have "srv_inv E (ap_srv a1)" "app_blank a1" "\<not> a_initialized (g_app a1)"
    using i by (auto simp: app_inv_def)
  ultimately show ?thesis by (simp add: app_inv_def app_blank_def)
qed

text \<open>Network, disk and time move on their own; the open descriptors and streams stay.\<close>

definition env_change :: "os \<Rightarrow> app \<Rightarrow> app" where
  "env_change k a = a\<lparr>ap_srv := (ap_srv a)\<lparr>sv_sys := (asys a)\<lparr>ts_os := k\<rparr>\<rparr>\<rparr>"

lemma env_change_inv:
  assumes inv: "app_inv E a" and k: "fds k = fds (ts_os (asys a))" "streams k = streams (ts_os (asys a))"
    "next_stream k = next_stream (ts_os (asys a))"
  shows "app_inv E (env_change k a)"
proof -
  have "srv_inv E (ap_srv a)" using inv by (simp add: app_inv_def)
  from os_host_inv [OF app_host [OF this] k] have "srv_inv E (ap_srv (env_change k a))"
    by (simp add: env_change_def host_inv_def)
  moreover have "app_ready (env_change k a) = app_ready a" "app_blank (env_change k a) = app_blank a"
    "g_app (env_change k a) = g_app a"
    by (simp_all add: env_change_def app_ready_def app_blank_def no_transfer_def)
  ultimately show ?thesis using inv by (simp add: app_inv_def)
qed

section \<open>Every run of the program\<close>

text \<open>
  One call of a function of the application module by its client, one round or a whole run of
  the reactor, or a move of the environment; the label says which.  The client calls with the
  pointer it acquired.  As in the code, nothing guards \<open>deinit\<close> and \<open>release\<close> against transfers
  in use.
\<close>

datatype app_call = App_acquire | App_init | App_start | App_round | App_run | App_stop |
  App_deinit | App_release | App_environment

inductive app_step :: "tftp_config \<Rightarrow> app_call \<Rightarrow> app \<Rightarrow> app \<Rightarrow> bool" for cfg where
  acquire: "tftp_app_acquire (Some x) a = (r, a') \<Longrightarrow> app_step cfg App_acquire a a'"
| init: "g_app_in_use a \<Longrightarrow> tftp_app_init cfg (Some 0) (Some c) a = (st, a') \<Longrightarrow> app_step cfg App_init a a'"
| start: "g_app_in_use a \<Longrightarrow> tftp_app_start (Some 0) a = (st, a') \<Longrightarrow> app_step cfg App_start a a'"
| round: "a_initialized (g_app a) \<Longrightarrow>
    reactor_run_once srv_host stack (a_reactor (g_app a)) t (ap_srv a) = (st, w) \<Longrightarrow>
    app_step cfg App_round a (a\<lparr>ap_srv := w\<rparr>)"
| run: "tftp_app_run stacks (Some 0) a = Some (st, a') \<Longrightarrow> app_step cfg App_run a a'"
| stop: "g_app_in_use a \<Longrightarrow> tftp_app_stop (Some 0) a = (st, a') \<Longrightarrow> app_step cfg App_stop a a'"
| deinit: "g_app_in_use a \<Longrightarrow> tftp_app_deinit (Some 0) a = (st, a') \<Longrightarrow> app_step cfg App_deinit a a'"
| release: "tftp_app_release (Some (Some 0)) a = (p, a') \<Longrightarrow> app_step cfg App_release a a'"
| environment: "fds k = fds (ts_os (asys a)) \<Longrightarrow> streams k = streams (ts_os (asys a)) \<Longrightarrow>
    next_stream k = next_stream (ts_os (asys a)) \<Longrightarrow> app_step cfg App_environment a (env_change k a)"

text \<open>
  An orderly run shuts down, by \<open>deinit\<close> or \<open>release\<close>, only while no transfer is in use.  This is
  a condition on the client, not a guard of the code: a shutdown in the middle of a transfer
  is possible, and \<open>shutdown_forgets_transfers\<close> in \<open>App_Findings\<close> says what it leaves behind.
  Everything up to the first such shutdown is an orderly run.
\<close>

definition orderly :: "app_call \<Rightarrow> app \<Rightarrow> bool" where
  "orderly c a \<longleftrightarrow> (c = App_deinit \<or> c = App_release \<longrightarrow> no_transfer (asys a))"

inductive orderly_reachable :: "tftp_config \<Rightarrow> int set \<Rightarrow> app \<Rightarrow> bool" for cfg E where
  start: "set (fds k) = E \<Longrightarrow> streams k = Map.empty \<Longrightarrow> orderly_reachable cfg E (app_init_state cfg k)"
| step: "orderly_reachable cfg E a \<Longrightarrow> orderly c a \<Longrightarrow> app_step cfg c a a' \<Longrightarrow> orderly_reachable cfg E a'"

inductive_cases app_stepE: "app_step cfg c a a'"

lemma orderly_step:
  "orderly_reachable cfg E a \<Longrightarrow> app_step cfg c a a' \<Longrightarrow> c \<noteq> App_deinit \<and> c \<noteq> App_release \<Longrightarrow>
   orderly_reachable cfg E a'"
  by (rule orderly_reachable.step) (simp_all add: orderly_def)

lemma orderly_environment:
  assumes "orderly_reachable cfg E a" "fds k = fds (ts_os (asys a))" "streams k = streams (ts_os (asys a))"
    "next_stream k = next_stream (ts_os (asys a))"
  shows "orderly_reachable cfg E (env_change k a)"
  by (rule orderly_step [OF assms(1) app_step.environment [OF assms(2-4)]]) simp

lemma tsys_init_inv:
  assumes "set (fds k) = E" "streams k = Map.empty"
  shows "tsys_inv E None False (tsys_init cfg k)"
proof -
  have ok: "streams_ok k" using assms(2) by (simp add: streams_ok_def)
  have u: "udp_inv (udp_state_init, k)" by (rule udp_inv_init)
  have h: "held (transports None (tsys_init cfg k)) = {}" "held (files (tsys_init cfg k)) = {}"
    by (auto simp: transports_def files_def tsys_init_def tftp_transfer_zero_def elim!: heldE
        simp: nth_Cons split: nat.splits)
  have e: "exclusive (transports None (tsys_init cfg k))" "exclusive (files (tsys_init cfg k))"
    by (auto intro!: exclusiveI simp: transports_def files_def tsys_init_def tftp_transfer_zero_def
        nth_Cons split: nat.splits)
  have "transports_owned None (tsys_init cfg k)"
    unfolding transports_owned_def h by (intro conjI e(1)) (auto simp: tsys_init_def udp_state_init_def)
  moreover have "files_owned (tsys_init cfg k)"
    unfolding files_owned_def h
    by (intro conjI e(2)) (auto simp: tsys_init_def file_state_init_def tftp_file_zero_def)
  moreover have "fds_owned E (tsys_init cfg k)"
    using assms by (auto simp: fds_owned_def sock_fds_def stream_fds_def tsys_init_def udp_state_init_def
        udp_transport_zero_def UDP_TRANSPORT_POOL_SIZE_def)
  moreover have "registrations_owned None False (tsys_init cfg k)"
    by (auto simp: registrations_owned_def registrants_def tsys_init_def reactor_state_init_def
        reg_table_def tftp_transfer_zero_def)
  moreover have "reactor_inv (ts_reactor (tsys_init cfg k))"
    by (simp add: tsys_init_def reactor_state_init_def reactor_inv_def reg_table_def)
  moreover have "file_inv (file_state_init n, k)" for n by (rule file_inv_start [OF ok assms(2)])
  ultimately show ?thesis
    using u by (simp add: tsys_inv_def) (simp add: tsys_init_def transfer_ok_def tftp_transfer_zero_def)
qed

lemma app_init_state_inv:
  assumes "set (fds k) = E" "streams k = Map.empty"
  shows "app_inv E (app_init_state cfg k)"
  using tsys_init_inv [OF assms, of cfg]
  by (auto simp: app_inv_def app_init_state_def app_blank_def srv_inv_def srv_init_def server_ok_def
      tftp_server_zero_def tftp_app_zero_def all_active_def no_transfer_def tsys_init_def
      tftp_transfer_zero_def reactor_state_init_def)

lemma app_step_inv:
  assumes "app_inv E a" "\<not> g_app_in_use a \<longrightarrow> \<not> a_initialized (g_app a)" "orderly c a" "app_step cfg c a a'"
  shows "app_inv E a' \<and> (\<not> g_app_in_use a' \<longrightarrow> \<not> a_initialized (g_app a'))"
proof -
  have r: "g_app_in_use x" if "app_inv E x" "a_initialized (g_app x)" for x
    using that by (simp add: app_inv_def app_ready_def)
  from assms(4) have "app_inv E a'"
  proof cases
    case (acquire x r)
    with app_acquire_inv [OF assms(1,2)] show ?thesis by blast
  next
    case (init d st)
    with app_init_inv [OF assms(1)] show ?thesis by blast
  next
    case (start st)
    with app_start_inv [OF assms(1)] show ?thesis by blast
  next
    case (round stack t st w)
    with app_once_inv [OF assms(1)] show ?thesis by blast
  next
    case (run stacks st)
    with app_run_inv [OF assms(1)] show ?thesis by blast
  next
    case (stop st)
    with app_stop_inv [OF assms(1)] show ?thesis by blast
  next
    case (deinit st)
    then have "no_transfer (asys a)" using assms(3) by (simp add: orderly_def)
    with deinit app_deinit_inv [OF assms(1)] show ?thesis by blast
  next
    case (release p)
    then have "no_transfer (asys a)" using assms(3) by (simp add: orderly_def)
    with release app_release_inv [OF assms(1)] show ?thesis by blast
  next
    case (environment k)
    with env_change_inv [OF assms(1)] show ?thesis by blast
  qed
  with r show ?thesis by blast
qed

lemma orderly_reachable_inv:
  assumes "orderly_reachable cfg E a"
  shows "app_inv E a"
proof -
  have "app_inv E a \<and> (\<not> g_app_in_use a \<longrightarrow> \<not> a_initialized (g_app a))"
    using assms
  proof induction
    case (start k)
    then show ?case
      using app_init_state_inv [of k E cfg] by (simp add: app_init_state_def tftp_app_zero_def)
  next
    case (step a c a')
    then show ?case using app_step_inv by blast
  qed
  then show ?thesis ..
qed

end
