(* ===== verification/App_Sizes.thy ===== *)
theory App_Sizes
  imports App_Safety
begin

text \<open>
  The number of transfers and the length of each file name array stay as configured in every
  orderly run; the bound on the length of a name in a request rests on it.  The main loop is
  covered by a second interpretation of the reactor's interface, with the sizes added to the
  invariant.
\<close>

definition name_sizes :: "tsys \<Rightarrow> nat list" where
  "name_sizes s = map (\<lambda>t. length (t_filename t)) (g_transfer_pool s)"

lemma name_sizes_pool: "g_transfer_pool s' = g_transfer_pool s \<Longrightarrow> name_sizes s' = name_sizes s"
  by (simp add: name_sizes_def)

lemma own_step_sizes:
  assumes "own_step i s s'"
  shows "name_sizes s' = name_sizes s"
proof (rule nth_equalityI)
  show "length (name_sizes s') = length (name_sizes s)"
    using own_step_len [OF assms] by (simp add: name_sizes_def)
  fix j assume "j < length (name_sizes s')"
  then show "name_sizes s' ! j = name_sizes s ! j"
    using own_step_len [OF assms] own_step_name [OF assms] own_step_other [OF assms, of j]
    by (cases "j = i") (simp_all add: name_sizes_def)
qed

lemma pool_same_sizes: "pool_same s s' \<Longrightarrow> name_sizes s' = name_sizes s"
  by (auto simp: pool_same_def name_sizes_def intro!: nth_equalityI)

lemma process_event_sizes:
  assumes inv: "srv_inv E w" and e: "tftp_server_process_event (Some me) data n src w = (st, w')"
  shows "name_sizes (sv_sys w') = name_sizes (sv_sys w)"
proof (cases "s_running (g_server w)")
  case False
  with e have "w' = w" by (cases data; cases src) (auto simp: process_event_cases process_event_null)
  then show ?thesis by simp
next
  case True
  then have "s_reactor (g_server w) = Some 0" using srv_invD(3) [OF inv] by (simp add: server_ok_def)
  from process_event_safe [OF srv_invD(1) [OF inv] this e] show ?thesis
    using own_step_sizes pool_same_sizes by (metis (full_types))
qed

lemma server_handler_sizes:
  assumes inv: "srv_inv E w"
  shows "name_sizes (sv_sys (tftp_server_udp_handler fd ev (Some me) w)) = name_sizes (sv_sys w)"
proof -
  obtain st b n src s1 where r: "udp_call (udp_transport_receive (s_transport (g_server w))
      (Some (replicate TFTP_SERVER_RX_BUFFER_SIZE 0)) TFTP_SERVER_RX_BUFFER_SIZE
      (Some 0) (Some sockaddr_zero)) (sv_sys w) = ((st, b, n, src), s1)" by (metis prod.collapse)
  let ?w1 = "w\<lparr>sv_sys := s1\<rparr>"
  obtain st2 w2 where p: "tftp_server_process_event (Some 0) b (deref 0 n) src ?w1 = (st2, w2)"
    by (meson surj_pair)
  have o: "s1 = (sv_sys w)\<lparr>ts_os := ts_os s1\<rparr>" using receive_call [OF r] by blast
  have s: "name_sizes s1 = name_sizes (sv_sys w)" by (rule name_sizes_pool [OF os_only(1) [OF o]])
  have "srv_inv E ?w1"
    using inv owned_receive [OF srv_invD(1) [OF inv] r] all_active_pool [OF os_only(1) [OF o]]
    by (simp add: srv_inv_def)
  from process_event_sizes [OF this p] s have "name_sizes (sv_sys w2) = name_sizes (sv_sys w)" by simp
  with s r p show ?thesis
    by (auto simp: tftp_server_udp_handler_def sys_call_def split: if_splits)
qed

lemma handler_sizes:
  assumes inv: "host_inv E v f w" and r: "reg \<in> set (reg_table (ts_reactor (sv_sys w)))"
    and h: "r_handler reg = Some h"
  shows "name_sizes (sv_sys (call_handler h fd ev (r_context reg) w)) = name_sizes (sv_sys w)"
  using table_entry [OF host_invD [OF inv] r] h server_handler_sizes [OF host_invD [OF inv]]
    own_step_sizes [OF transfer_handler_inv(2) [OF host_invD [OF inv] _ refl]]
  by auto

definition sized_inv :: "int set \<Rightarrow> tftp_server \<times> bool \<Rightarrow> bool \<times> nat \<times> bool \<Rightarrow> nat list \<Rightarrow> srv \<Rightarrow> bool" where
  "sized_inv E v f L w \<longleftrightarrow> host_inv E v f w \<and> name_sizes (sv_sys w) = L"

interpretation sized: reactor_host srv_host "sized_inv E v f L" for E v f L
proof
  fix w
  assume inv: "sized_inv E v f L w"
  then have h: "host_inv E v f w" by (simp add: sized_inv_def)
  show "reactor_inv (h_reactor srv_host w)" by (rule loop.inv_reactor [OF h])
  fix reg h ev
  assume r: "reg \<in> set (reg_table (h_reactor srv_host w))" "r_handler reg = Some h"
  note l = \<open>host_inv E v f w\<close> r
  have "name_sizes (sv_sys (h_call srv_host h (r_fd reg) ev (r_context reg) w)) = L"
    using handler_sizes [OF l(1) _ r(2)] r(1) inv by (simp add: srv_host_def sized_inv_def)
  then show "sized_inv E v f L (h_call srv_host h (r_fd reg) ev (r_context reg) w)"
    using loop.call_inv [OF l] by (simp add: sized_inv_def)
  show "rc_running (g_reactor (h_reactor srv_host (h_call srv_host h (r_fd reg) ev (r_context reg) w))) =
      rc_running (g_reactor (h_reactor srv_host w))" by (rule loop.call_running [OF l])
  show "rc_initialized (g_reactor (h_reactor srv_host (h_call srv_host h (r_fd reg) ev (r_context reg) w))) =
      rc_initialized (g_reactor (h_reactor srv_host w))" by (rule loop.call_initialized [OF l])
  show "polls (h_os srv_host (h_call srv_host h (r_fd reg) ev (r_context reg) w)) = polls (h_os srv_host w)"
    by (rule loop.call_polls [OF l])
next
  fix w ps
  assume "sized_inv E v f L w"
  then show "sized_inv E v f L (h_set_os srv_host ((h_os srv_host w)\<lparr>polls := ps\<rparr>) w)"
    using loop.os_inv [of E v f w ps] by (simp add: sized_inv_def name_sizes_def srv_host_def)
next
  fix w b
  assume "sized_inv E v f L w"
  then show "sized_inv E v f L (set_running srv_host b w)"
    using loop.running_inv [of E v f w b]
    by (simp add: sized_inv_def name_sizes_def srv_host_def set_running_def Let_def)
qed (simp_all add: srv_host_def set_running_def Let_def)

section \<open>In every run\<close>

lemma app_step_sizes:
  assumes inv: "app_inv E a" and use: "\<not> g_app_in_use a \<longrightarrow> \<not> a_initialized (g_app a)"
    and o: "orderly c a" and s: "app_step cfg c a a'"
  shows "name_sizes (asys a') = name_sizes (asys a)"
  using s
proof cases
  case (acquire x r)
  with app_acquire_inv [OF inv use] show ?thesis by simp
next
  case (init d st)
  with app_init_inv [OF inv] name_sizes_pool show ?thesis by blast
next
  case (start st)
  with app_start_inv [OF inv] name_sizes_pool show ?thesis by blast
next
  case (round stack t st w)
  have "srv_inv E (ap_srv a)" using inv by (simp add: app_inv_def)
  note h = app_host [OF this]
  have "sized_inv E (g_server (ap_srv a), g_server_in_use (ap_srv a))
     (rc_initialized (g_reactor (ts_reactor (asys a))), rc_max_handlers (g_reactor (ts_reactor (asys a))),
      g_reactor_in_use (ts_reactor (asys a))) (name_sizes (asys a)) (ap_srv a)"
    using h by (simp add: sized_inv_def)
  from sized.run_once_inv [OF this round(4)] round(2) show ?thesis by (simp add: sized_inv_def)
next
  case (run stacks st)
  show ?thesis
  proof (cases "a_initialized (g_app a) \<and> a_running (g_app a)")
    case False
    with app_run_inv [OF inv run(2)] show ?thesis by (auto split: if_splits)
  next
    case True
    then have r: "srv_inv E (ap_srv a)" "app_ready a" using inv by (simp_all add: app_inv_def)
    have rr: "a_reactor (g_app a) = Some 0" "rc_initialized (g_reactor (h_reactor srv_host (ap_srv a)))"
      using r(2) by (simp_all add: app_ready_def srv_host_def)
    obtain w where w: "reactor_run srv_host stacks (Some 0) (ap_srv a) = Some (st, w)" "a' = a\<lparr>ap_srv := w\<rparr>"
      using run(2) True rr by (auto simp: tftp_app_run_def split: option.splits)
    have "sized_inv E (g_server (ap_srv a), g_server_in_use (ap_srv a))
       (rc_initialized (g_reactor (ts_reactor (asys a))), rc_max_handlers (g_reactor (ts_reactor (asys a))),
        g_reactor_in_use (ts_reactor (asys a))) (name_sizes (asys a)) (ap_srv a)"
      using app_host [OF r(1)] by (simp add: sized_inv_def)
    from sized.run_result [OF w(1) this rr(2)] w(2) show ?thesis by (simp add: sized_inv_def)
  qed
next
  case (stop st)
  with app_stop_inv [OF inv] name_sizes_pool show ?thesis by blast
next
  case (deinit st)
  then have "no_transfer (asys a)" using o by (simp add: orderly_def)
  with deinit app_deinit_inv [OF inv] name_sizes_pool show ?thesis by blast
next
  case (release p)
  then have n: "no_transfer (asys a)" using o by (simp add: orderly_def)
  obtain st a1 where d: "tftp_app_deinit (Some 0) a = (st, a1)" by (meson surj_pair)
  with release app_deinit_inv [OF inv n d] show ?thesis
    by (auto simp: tftp_app_release_def intro!: name_sizes_pool)
next
  case (environment k)
  then show ?thesis by (simp add: env_change_def name_sizes_def)
qed

lemma orderly_reachable_sizes:
  assumes "orderly_reachable cfg E a"
  shows "name_sizes (asys a) = replicate (TFTP_MAX_TRANSFERS cfg) (TFTP_MAX_FILENAME_LENGTH cfg + 1)"
  using assms
proof induction
  case (start k)
  show ?case
    by (simp add: app_init_state_def srv_init_def tsys_init_def name_sizes_def tftp_transfer_zero_def map_replicate)
next
  case (step a c a')
  have "\<not> g_app_in_use a \<longrightarrow> \<not> a_initialized (g_app a)"
    using orderly_reachable_inv [OF step.hyps(1)] by (auto simp: app_inv_def app_ready_def split: if_splits)
  from app_step_sizes [OF orderly_reachable_inv [OF step.hyps(1)] this step.hyps(2,3)] step.IH show ?case by simp
qed

end
