(* ===== verification/Server_Protocol.thy ===== *)
theory Server_Protocol
  imports Transfer_Protocol App_Sizes
begin

text \<open>
  What a request does: the path that a file name leads to, the decision of the server on every
  datagram, and, on a machine whose calls do not fail, the way from a read request to the first
  block and, with the acknowledgements that follow, to the complete file.
\<close>

section \<open>File names and paths\<close>

lemma c_string_of_snprintf: "c_string (snprintf_to dst x) = c_string (take (length dst - 1) x)"
proof -
  have "c_string (a @ 0 # b) = c_string a" for a b :: bytes by (induction a) (simp_all add: c_string_def)
  then show ?thesis by (simp add: snprintf_to_def memcpy_at_0)
qed

lemma strlen_take: "strlen (take n b) \<le> n"
  by (simp add: strlen_def c_string_def) (metis length_takeWhile_le length_take min.bounded_iff)

lemma cstr_root: "0 \<notin> set (cstr ''tftp_root/'')"
  by (simp add: cstr_def)

text \<open>The path of a transfer is \<open>tftp_root/\<close> and its name: the array holds both in full.\<close>

lemma transfer_path_string:
  assumes "t_filename t = snprintf_to old x" "old \<noteq> []"
  shows "c_string (transfer_path t) = cstr ''tftp_root/'' @ c_string (t_filename t)"
proof -
  let ?n = "length (t_filename t)"
  have n: "length old = ?n" using assms by simp
  have "length (c_string (t_filename t)) \<le> ?n - 1"
    using strlen_take [of "length old - 1" x] unfolding assms(1) c_string_of_snprintf n
    by (simp add: strlen_def n)
  moreover have "0 < ?n" using assms(2) n by auto
  ultimately have len: "length (c_string (t_filename t)) < ?n" by linarith
  show ?thesis unfolding transfer_path_def
    by (rule c_string_snprintf_to) (use len cstr_root c_string_no_nul in \<open>auto simp: cstr_def\<close>)
qed

section \<open>A read request without faults\<close>

lemma has_room_parts:
  "ts_udp s' = ts_udp s \<Longrightarrow> ts_file s' = ts_file s \<Longrightarrow> ts_reactor s' = ts_reactor s \<Longrightarrow> has_room s' = has_room s"
  by (simp add: has_room_def)

lemma accept_prepares:
  assumes inv: "tsys_inv E S R s" and i: "i < length (g_transfer_pool s)"
    and t: "tr s i = (retired n)\<lparr>t_in_use := True\<rparr>"
    and c: "xc_opcode c = TFTP_OPCODE_RRQ" "xc_reactor c = Some 0" "xc_filename c = Some name"
    and name: "name_accepted (Some name) (tr s i)"
  shows "\<exists>s2. run_request i c s = tftp_transfer_process (Some i) s2 \<and> tsys_inv E S R s2 \<and>
    i < length (g_transfer_pool s2) \<and> startable (tr s2 i) \<and> t_state (tr s2 i) = TFTP_TRANSFER_RRQ \<and>
    t_block (tr s2 i) = 0 \<and> t_peer (tr s2 i) = xc_peer c \<and> ts_os s2 = ts_os s \<and> has_room s2 = has_room s \<and>
    c_string (transfer_path (tr s2 i)) = cstr ''tftp_root/'' @ c_string name"
proof -
  let ?f = "\<lambda>t. t\<lparr>t_initialized := True, t_state := TFTP_TRANSFER_IDLE\<rparr> :: tftp_transfer"
  let ?s1 = "upd_tr i ?f s"
  let ?s2 = "upd_tr i (configured c) ?s1"
  have u: "t_in_use (tr s i)" using t by simp
  have e1: "tftp_transfer_init (Some i) s = (TFTP_OK, ?s1)" using u by (simp add: tftp_transfer_init_def)
  have inv1: "tsys_inv E S R ?s1" by (rule owned_init [OF inv i u])
  have i1: "i < length (g_transfer_pool ?s1)" and t1: "tr ?s1 i = ?f (tr s i)" using i by simp_all
  have acc: "name_accepted (xc_filename c) (tr ?s1 i)" using name c(3) t1
    by (simp add: name_accepted_def max_filename_length_def)
  have e2: "tftp_transfer_start (Some i) (Some c) ?s1 = (TFTP_OK, ?s2)"
    unfolding start_effect [OF i1] using acc t1 c by simp
  have "\<not> t_registered (tr ?s1 i)" using t1 t by simp
  from start_safe [OF inv1 i1 this e2] have inv2: "tsys_inv E S R ?s2" by blast
  have t2: "tr ?s2 i = configured c (tr ?s1 i)" using i by simp
  have ne: "t_filename (tr s i) \<noteq> []" using tsys_inv_tr [OF inv i] by (simp add: transfer_ok_def)
  have fn: "t_filename (tr ?s2 i) = snprintf_to (t_filename (tr s i)) (c_string name)"
    using t2 t1 c(3) by (simp add: configured_def)
  have "strlen name < length (t_filename (tr s i))"
    using name ne by (simp add: name_accepted_def max_filename_length_def less_Suc_eq_le [symmetric])
  then have "c_string (t_filename (tr ?s2 i)) = c_string name"
    unfolding fn by (intro c_string_snprintf_to c_string_no_nul) (simp add: strlen_def)
  with transfer_path_string [OF fn ne]
  have "c_string (transfer_path (tr ?s2 i)) = cstr ''tftp_root/'' @ c_string name" by simp
  moreover have "run_request i c s = tftp_transfer_process (Some i) ?s2"
    using e1 e2 t2 t1 by (simp add: run_request_def configured_def)
  moreover have "startable (tr ?s2 i)" "t_state (tr ?s2 i) = TFTP_TRANSFER_RRQ" "t_block (tr ?s2 i) = 0"
    "t_peer (tr ?s2 i) = xc_peer c"
    using t2 t1 t c by (simp_all add: startable_def configured_def)
  moreover have "has_room ?s2 = has_room s" by (rule has_room_parts) simp_all
  ultimately show ?thesis using inv2 i by (intro exI [of _ ?s2]) simp
qed

lemma accept_serves:
  assumes inv: "tsys_inv E S R s" and i: "i < length (g_transfer_pool s)"
    and t: "tr s i = (retired n)\<lparr>t_in_use := True\<rparr>"
    and c: "xc_opcode c = TFTP_OPCODE_RRQ" "xc_reactor c = Some 0" "xc_filename c = Some name"
    and name: "name_accepted (Some name) (tr s i)"
    and room: "has_room s" and f: "faults (ts_os s) = []"
    and path: "fs (ts_os s) (cstr ''tftp_root/'' @ c_string name) = Some d"
  shows "\<exists>s' p. accept_request i c s = (TFTP_OK, s') \<and> serving d 1 i s' \<and>
    t_transport (tr s' i) = Some p \<and> t_peer (tr s' i) = xc_peer c \<and> rx (ts_os s') = rx (ts_os s) \<and>
    sent (ts_os s') = sent (ts_os s) @ blocks_from d (u_fd (sock s' p)) (xc_peer c) [0] \<and>
    tsys_inv E S R s' \<and> i < length (g_transfer_pool s')"
proof -
  from accept_prepares [OF inv i t c name] obtain s2 where
    r: "run_request i c s = tftp_transfer_process (Some i) s2"
    and s2: "tsys_inv E S R s2" "i < length (g_transfer_pool s2)" "startable (tr s2 i)"
      "t_state (tr s2 i) = TFTP_TRANSFER_RRQ" "t_block (tr s2 i) = 0"
    and k: "t_peer (tr s2 i) = xc_peer c" "ts_os s2 = ts_os s" "has_room s2 = has_room s"
      "c_string (transfer_path (tr s2 i)) = cstr ''tftp_root/'' @ c_string name" by blast
  from process_serves [OF s2, of d] room f path k obtain s' p where
    p: "tftp_transfer_process (Some i) s2 = (TFTP_OK, s')" "serving d 1 i s'" "t_transport (tr s' i) = Some p"
      "t_peer (tr s' i) = xc_peer c" "rx (ts_os s') = rx (ts_os s)"
      "sent (ts_os s') = sent (ts_os s) @ blocks_from d (u_fd (sock s' p)) (xc_peer c) [0]"
      "tsys_inv E S R s'" "i < length (g_transfer_pool s')" by auto
  then show ?thesis using r by (simp add: accept_request_def)
qed

section \<open>The decision of the server\<close>

definition safe_name :: "bytes \<Rightarrow> bool" where
  "safe_name n \<longleftrightarrow> n \<noteq> [] \<and> n \<noteq> cstr ''.'' \<and> n \<noteq> cstr ''..'' \<and>
     of_char (CHR ''/'') \<notin> set n \<and> of_char (CHR 0x5C) \<notin> set n"

lemma filename_valid_iff: "transfer_filename_valid (Some b) \<longleftrightarrow> safe_name (c_string b)"
  by (auto simp: transfer_filename_valid_def safe_name_def)

lemma request_parse_ok:
  assumes "valid_request opc fname mode" "take n b = request_bytes opc fname mode" "n \<le> length b"
  shows "\<exists>rq. request_parse (Some b) n = (TFTP_OK, Some opc, Some rq) \<and> c_string (rq_filename rq) = fname"
proof -
  let ?rq = "\<lparr>rq_filename = replicate REQUEST_FILENAME_SIZE 0, rq_mode = TFTP_MODE_OCTET\<rparr>"
  let ?rq' = "?rq\<lparr>rq_filename := memcpy_at 0 (fname @ [0]) (rq_filename ?rq), rq_mode := TFTP_MODE_OCTET\<rparr>"
  have l: "length (take n b) = n" using assms(3) by simp
  have "tftp_packet_parse_request (Some (take n b)) (length (take n b)) (Some TFTP_OPCODE_ZERO) (Some ?rq) =
      (TFTP_OK, Some opc, Some ?rq')"
    unfolding parse_request_iff using assms(1,2) by blast
  then have "request_parse (Some b) n = (TFTP_OK, Some opc, Some ?rq')"
    unfolding l parse_request_take [OF assms(3)] .
  moreover have "c_string (rq_filename ?rq') = fname"
    using assms(1) by (simp add: memcpy_at_0 valid_request_def)
  ultimately show ?thesis by blast
qed

lemma request_prepares:
  assumes inv: "srv_inv E w" and run: "s_running (g_server w)"
    and sizes: "name_sizes (sv_sys w) = replicate m (Suc k)"
    and req: "valid_request TFTP_OPCODE_RRQ fname mode" "take n b = request_bytes TFTP_OPCODE_RRQ fname mode"
      "n \<le> length b" "safe_name fname" "length fname \<le> k"
    and free: "\<exists>t\<in>set (g_transfer_pool (sv_sys w)). \<not> t_in_use t"
  shows "\<exists>i s1 c name l. tftp_server_process_event (Some 0) (Some b) n (Some peer) w =
      (case accept_request i c s1 of (st, s) \<Rightarrow> (st, w\<lparr>sv_sys := s\<rparr>)) \<and>
    first_index (\<lambda>t. \<not> t_in_use t) (g_transfer_pool (sv_sys w)) = Some i \<and>
    tsys_inv E (s_transport (g_server w)) (s_registered (g_server w)) s1 \<and> i < length (g_transfer_pool s1) \<and>
    tr s1 i = (retired l)\<lparr>t_in_use := True\<rparr> \<and> xc_opcode c = TFTP_OPCODE_RRQ \<and> xc_reactor c = Some 0 \<and>
    xc_filename c = Some name \<and> c_string name = fname \<and> xc_peer c = peer \<and> name_accepted (Some name) (tr s1 i) \<and>
    ts_os s1 = ts_os (sv_sys w) \<and> has_room s1 = has_room (sv_sys w)"
proof -
  note t = srv_invD(1) [OF inv]
  have r: "s_reactor (g_server w) = Some 0" using srv_invD(3) [OF inv] run by (simp add: server_ok_def)
  from request_parse_ok [OF req(1-3)] obtain rq where
    rq: "request_parse (Some b) n = (TFTP_OK, Some TFTP_OPCODE_RRQ, Some rq)" "c_string (rq_filename rq) = fname" by blast
  obtain st out s1 where a: "tftp_transfer_acquire (Some None) (sv_sys w) = ((st, out), s1)"
    by (metis prod.collapse)
  from acquire_safe [OF t a] free obtain i where i: "st = TFTP_OK"
    "first_index (\<lambda>t. \<not> t_in_use t) (g_transfer_pool (sv_sys w)) = Some i" "out = Some (Some i)"
    "i < length (g_transfer_pool (sv_sys w))" "own_step i (sv_sys w) s1" "ts_os s1 = ts_os (sv_sys w)"
    "ts_udp s1 = ts_udp (sv_sys w)" "ts_file s1 = ts_file (sv_sys w)" "ts_reactor s1 = ts_reactor (sv_sys w)"
    "tr s1 i = (retired (length (t_filename (tr (sv_sys w) i))))\<lparr>t_in_use := True\<rparr>"
    "tsys_inv E (s_transport (g_server w)) (s_registered (g_server w)) s1" by blast
  let ?c = "\<lparr>xc_opcode = TFTP_OPCODE_RRQ, xc_filename = Some (rq_filename rq), xc_peer = peer, xc_reactor = Some 0\<rparr>"
  have "length (t_filename (tr (sv_sys w) i)) = name_sizes (sv_sys w) ! i" "i < m"
    using i(4) arg_cong [OF sizes, of length] by (simp_all add: name_sizes_def)
  then have "length (t_filename (tr s1 i)) = Suc k" using sizes own_step_name [OF i(5)] by simp
  then have acc: "name_accepted (Some (rq_filename rq)) (tr s1 i)"
    using req(4,5) rq(2) by (simp add: name_accepted_def filename_valid_iff strlen_def max_filename_length_def)
  have "tftp_server_process_event (Some 0) (Some b) n (Some peer) w =
      (case accept_request i ?c s1 of (st, s) \<Rightarrow> (st, w\<lparr>sv_sys := s\<rparr>))"
    using run rq(1) a i(1,3) r by (simp add: process_event_cases)
  moreover have "has_room s1 = has_room (sv_sys w)" by (rule has_room_parts [OF i(7-9)])
  moreover have "i < length (g_transfer_pool s1)" using i(4) own_step_len [OF i(5)] by simp
  ultimately show ?thesis
    using i rq(2) acc
    by (intro exI [of _ i] exI [of _ s1] exI [of _ ?c] exI [of _ "rq_filename rq"]
        exI [of _ "length (t_filename (tr (sv_sys w) i))"]) simp
qed

lemma request_serves:
  assumes inv: "srv_inv E w" "s_running (g_server w)" "name_sizes (sv_sys w) = replicate m (Suc k)"
    and req: "valid_request TFTP_OPCODE_RRQ fname mode" "take n b = request_bytes TFTP_OPCODE_RRQ fname mode"
      "n \<le> length b" "safe_name fname" "length fname \<le> k"
    and free: "\<exists>t\<in>set (g_transfer_pool (sv_sys w)). \<not> t_in_use t"
    and room: "has_room (sv_sys w)" and f: "faults (ts_os (sv_sys w)) = []"
    and path: "fs (ts_os (sv_sys w)) (cstr ''tftp_root/'' @ fname) = Some d"
  shows "\<exists>w' i p S R. tftp_server_process_event (Some 0) (Some b) n (Some peer) w = (TFTP_OK, w') \<and>
    first_index (\<lambda>t. \<not> t_in_use t) (g_transfer_pool (sv_sys w)) = Some i \<and>
    serving d 1 i (sv_sys w') \<and> t_transport (tr (sv_sys w') i) = Some p \<and>
    t_peer (tr (sv_sys w') i) = peer \<and> rx (ts_os (sv_sys w')) = rx (ts_os (sv_sys w)) \<and>
    sent (ts_os (sv_sys w')) = sent (ts_os (sv_sys w)) @ blocks_from d (u_fd (sock (sv_sys w') p)) peer [0] \<and>
    tsys_inv E S R (sv_sys w') \<and> i < length (g_transfer_pool (sv_sys w'))"
proof -
  from request_prepares [OF inv req free, of peer] obtain i s1 c name l where
    e: "tftp_server_process_event (Some 0) (Some b) n (Some peer) w =
      (case accept_request i c s1 of (st, s) \<Rightarrow> (st, w\<lparr>sv_sys := s\<rparr>))"
    and i: "first_index (\<lambda>t. \<not> t_in_use t) (g_transfer_pool (sv_sys w)) = Some i"
    and s1: "tsys_inv E (s_transport (g_server w)) (s_registered (g_server w)) s1" "i < length (g_transfer_pool s1)"
      "tr s1 i = (retired l)\<lparr>t_in_use := True\<rparr>" "xc_opcode c = TFTP_OPCODE_RRQ" "xc_reactor c = Some 0"
      "xc_filename c = Some name"
    and c: "c_string name = fname" "xc_peer c = peer" "name_accepted (Some name) (tr s1 i)"
      "ts_os s1 = ts_os (sv_sys w)" "has_room s1 = has_room (sv_sys w)" by blast
  from accept_serves [OF s1 c(3), of d] room f path c obtain s' p where
    "accept_request i c s1 = (TFTP_OK, s')" "serving d 1 i s'" "t_transport (tr s' i) = Some p"
      "t_peer (tr s' i) = peer" "rx (ts_os s') = rx (ts_os s1)"
      "sent (ts_os s') = sent (ts_os s1) @ blocks_from d (u_fd (sock s' p)) peer [0]"
      "tsys_inv E (s_transport (g_server w)) (s_registered (g_server w)) s'" "i < length (g_transfer_pool s')"
    by auto
  with e i c(4) show ?thesis
    by (intro exI [of _ "w\<lparr>sv_sys := s'\<rparr>"] exI [of _ i] exI [of _ p] exI [of _ "s_transport (g_server w)"]
        exI [of _ "s_registered (g_server w)"]) simp
qed

section \<open>Refused requests\<close>

lemma request_parse_status:
  assumes "n \<le> length b" "\<nexists>opc fname mode. valid_request opc fname mode \<and> take n b = request_bytes opc fname mode"
  shows "fst (request_parse (Some b) n) \<noteq> TFTP_OK"
proof
  assume ok: "fst (request_parse (Some b) n) = TFTP_OK"
  have l: "length (take n b) = n" using assms(1) by simp
  have "request_parse (Some (take n b)) (length (take n b)) = request_parse (Some b) n"
    unfolding l by (rule parse_request_take [OF assms(1)])
  then obtain opc rq where "request_parse (Some (take n b)) (length (take n b)) = (TFTP_OK, opc, rq)"
    using ok by (metis prod.collapse)
  from parse_request_sound [OF this] assms(2) show False by blast
qed

text \<open>
  A name that is refused: the transfer that was taken for the request is given back, and all
  that is left of it is a slot of zeros.
\<close>

lemma release_nothing_held:
  assumes "\<not> t_registered (tr s i)" "t_file (tr s i) = None" "t_transport (tr s i) = None"
  shows "tftp_transfer_release (Some (Some i)) s = (Some None, transfer_reset (Some i) s)"
  using assms
  by (simp add: tftp_transfer_release_def cleanup_parts cleanup_register_def cleanup_file_def cleanup_transport_def)

lemma accept_bad_name:
  assumes i: "i < length (g_transfer_pool s)"
    and t: "tr s i = (retired m)\<lparr>t_in_use := True\<rparr>" and c: "xc_reactor c = Some 0"
    and bad: "\<not> name_accepted (xc_filename c) (tr s i)"
  shows "accept_request i c s = (TFTP_ERR_INVALID_ARGUMENT, transfer_reset (Some i) s)"
proof -
  let ?f = "\<lambda>t. t\<lparr>t_initialized := True, t_state := TFTP_TRANSFER_IDLE\<rparr> :: tftp_transfer"
  let ?s1 = "upd_tr i ?f s"
  have e1: "tftp_transfer_init (Some i) s = (TFTP_OK, ?s1)" using t by (simp add: tftp_transfer_init_def)
  have i1: "i < length (g_transfer_pool ?s1)" and t1: "tr ?s1 i = ?f (tr s i)" using i by simp_all
  have "\<not> name_accepted (xc_filename c) (tr ?s1 i)"
    using bad t1 by (simp add: name_accepted_def max_filename_length_def)
  then have e2: "tftp_transfer_start (Some i) (Some c) ?s1 = (TFTP_ERR_INVALID_ARGUMENT, ?s1)"
    unfolding start_effect [OF i1] using t1 c by simp
  have "tftp_transfer_release (Some (Some i)) ?s1 = (Some None, transfer_reset (Some i) ?s1)"
    by (rule release_nothing_held) (use t1 t in simp_all)
  moreover have "transfer_reset (Some i) ?s1 = transfer_reset (Some i) s"
    using i by (simp add: transfer_reset_def)
  ultimately show ?thesis using e1 e2 by (simp add: accept_request_def run_request_def)
qed

lemma request_decision_facts:
  assumes inv: "srv_inv E w" and sizes: "name_sizes (sv_sys w) = replicate m (Suc k)" and n: "n \<le> length b"
    and e: "tftp_server_process_event (Some 0) (Some b) n (Some peer) w = (st, w')"
  shows "(\<not> s_running (g_server w) \<longrightarrow> st = TFTP_ERR_INVALID_STATE \<and> w' = w) \<and>
    (s_running (g_server w) \<longrightarrow>
      ((\<nexists>opc fname mode. valid_request opc fname mode \<and> take n b = request_bytes opc fname mode) \<longrightarrow>
         st = fst (request_parse (Some b) n) \<and> st \<noteq> TFTP_OK \<and> w' = w) \<and>
      (\<forall>fname mode. valid_request TFTP_OPCODE_WRQ fname mode \<and>
         take n b = request_bytes TFTP_OPCODE_WRQ fname mode \<longrightarrow> st = TFTP_ERR_PROTOCOL \<and> w' = w) \<and>
      (\<forall>fname mode. valid_request TFTP_OPCODE_RRQ fname mode \<and>
         take n b = request_bytes TFTP_OPCODE_RRQ fname mode \<longrightarrow>
         ((\<forall>t\<in>set (g_transfer_pool (sv_sys w)). t_in_use t) \<longrightarrow> st = TFTP_ERR_NO_RESOURCE \<and> w' = w) \<and>
         (\<forall>i. first_index (\<lambda>t. \<not> t_in_use t) (g_transfer_pool (sv_sys w)) = Some i \<and>
            (\<not> safe_name fname \<or> k < length fname) \<longrightarrow>
            st = TFTP_ERR_INVALID_ARGUMENT \<and> w' = w\<lparr>sv_sys := transfer_reset (Some i) (sv_sys w)\<rparr>)))"
proof (cases "s_running (g_server w)")
  case False
  with e show ?thesis by (auto simp: process_event_cases)
next
  case True
  note t = srv_invD(1) [OF inv]
  have r: "s_reactor (g_server w) = Some 0" using srv_invD(3) [OF inv] True by (simp add: server_ok_def)
  obtain sa out s1 where a: "tftp_transfer_acquire (Some None) (sv_sys w) = ((sa, out), s1)"
    by (metis prod.collapse)
  note ac = acquire_safe [OF t a]
  have 1: "st = fst (request_parse (Some b) n) \<and> st \<noteq> TFTP_OK \<and> w' = w"
    if "\<nexists>opc fname mode. valid_request opc fname mode \<and> take n b = request_bytes opc fname mode"
    using request_parse_status [OF n that] e True by (auto simp: process_event_cases split: prod.splits)
  have 2: "st = TFTP_ERR_PROTOCOL \<and> w' = w"
    if "valid_request TFTP_OPCODE_WRQ fname mode" "take n b = request_bytes TFTP_OPCODE_WRQ fname mode"
    for fname mode
    using request_parse_ok [OF that n] e True by (auto simp: process_event_cases)
  have 3: "st = TFTP_ERR_NO_RESOURCE \<and> w' = w"
    if "valid_request TFTP_OPCODE_RRQ fname mode" "take n b = request_bytes TFTP_OPCODE_RRQ fname mode"
      "\<forall>t\<in>set (g_transfer_pool (sv_sys w)). t_in_use t" for fname mode
  proof -
    have "\<not> t_in_use (tr (sv_sys w) i) \<Longrightarrow> i < length (g_transfer_pool (sv_sys w)) \<Longrightarrow> False" for i
      using that(3) by simp
    with ac have "sa = TFTP_ERR_NO_RESOURCE" "s1 = sv_sys w" by blast+
    with request_parse_ok [OF that(1,2) n] e True a show ?thesis by (auto simp: process_event_cases)
  qed
  have 4: "st = TFTP_ERR_INVALID_ARGUMENT \<and> w' = w\<lparr>sv_sys := transfer_reset (Some i) (sv_sys w)\<rparr>"
    if q: "valid_request TFTP_OPCODE_RRQ fname mode" "take n b = request_bytes TFTP_OPCODE_RRQ fname mode"
      "first_index (\<lambda>t. \<not> t_in_use t) (g_transfer_pool (sv_sys w)) = Some i"
      "\<not> safe_name fname \<or> k < length fname" for fname mode i
  proof -
    let ?s1 = "upd_tr i (\<lambda>t. t\<lparr>t_in_use := True\<rparr>) (transfer_reset (Some i) (sv_sys w))"
    have a: "tftp_transfer_acquire (Some None) (sv_sys w) = ((TFTP_OK, Some (Some i)), ?s1)"
      using q(3) by (simp add: tftp_transfer_acquire_def)
    have i: "i < length (g_transfer_pool (sv_sys w))" using q(3) by (simp add: first_index_Some_iff)
    from acquire_safe [OF t a] have t1: "tr ?s1 i = (retired (length (t_filename (tr (sv_sys w) i))))\<lparr>t_in_use := True\<rparr>"
      by auto
    have i1: "i < length (g_transfer_pool ?s1)" using i by (simp add: transfer_reset_def)
    have "length (t_filename (tr (sv_sys w) i)) = name_sizes (sv_sys w) ! i" "i < m"
      using i arg_cong [OF sizes, of length] by (simp_all add: name_sizes_def)
    then have len: "length (t_filename (tr ?s1 i)) = Suc k" using sizes t1 by simp
    from request_parse_ok [OF q(1,2) n] obtain rq where
      rq: "request_parse (Some b) n = (TFTP_OK, Some TFTP_OPCODE_RRQ, Some rq)" "c_string (rq_filename rq) = fname"
      by blast
    let ?c = "\<lparr>xc_opcode = TFTP_OPCODE_RRQ, xc_filename = Some (rq_filename rq), xc_peer = peer, xc_reactor = Some 0\<rparr>"
    have "\<not> name_accepted (xc_filename ?c) (tr ?s1 i)" using q(4) rq(2) len
      by (auto simp: name_accepted_def filename_valid_iff strlen_def max_filename_length_def)
    from accept_bad_name [OF i1 t1 _ this] have
      "accept_request i ?c ?s1 = (TFTP_ERR_INVALID_ARGUMENT, transfer_reset (Some i) ?s1)" by simp
    moreover have "transfer_reset (Some i) ?s1 = transfer_reset (Some i) (sv_sys w)"
      using i by (simp add: transfer_reset_def tftp_transfer_zero_def)
    ultimately show ?thesis using e True rq(1) a r by (simp add: process_event_cases)
  qed
  show ?thesis using True 1 2 3 4 by blast
qed

section \<open>A missing file\<close>

definition file_not_found :: tftp_message where
  "file_not_found = Error 1 (cstr ''File not found'')"

lemma send_error_ok:
  assumes inv: "tsys_inv E S R s" and i: "i < length (g_transfer_pool s)"
    and t: "t_transport (tr s i) = Some p" "u_open (sock s p)" and f: "faults (ts_os s) = []"
  shows "sent (ts_os (transfer_send_file_error i s)) = sent (ts_os s) @
    [(u_fd (sock s p), t_peer (tr s i), encode file_not_found)]"
proof -
  have len: "length (t_packet_buffer (tr s i)) = TFTP_MAX_PACKET_SIZE"
    using tsys_inv_tr [OF inv i] by (simp add: transfer_ok_def)
  have msg: "c_string (cstr ''File not found'' @ [0]) = cstr ''File not found''"
    "strlen (cstr ''File not found'' @ [0]) = 14" by code_simp+
  let ?m = "encode file_not_found"
  let ?buf = "?m @ drop (5 + 14) (t_packet_buffer (tr s i))"
  have b: "tftp_packet_build_error (error_code TFTP_ERROR_FILE_NOT_FOUND) (Some (cstr ''File not found'' @ [0]))
      (Some (t_packet_buffer (tr s i))) TFTP_MAX_PACKET_SIZE (Some 0) = (TFTP_OK, Some ?buf, Some 19)"
    using build_error_encode [of "cstr ''File not found'' @ [0]" TFTP_MAX_PACKET_SIZE
        "t_packet_buffer (tr s i)" "error_code TFTP_ERROR_FILE_NOT_FOUND" 0] len
    unfolding msg by (simp add: tftp_defs file_not_found_def)
  have lm: "length ?m = 19" by (simp add: file_not_found_def cstr_def)
  let ?s1 = "upd_tr i (\<lambda>t. t\<lparr>t_packet_buffer := ?buf\<rparr>) s"
  have lb: "length ?buf = TFTP_MAX_PACKET_SIZE" using lm len by (simp add: tftp_defs)
  have inv1: "tsys_inv E S R ?s1"
    by (rule owned_cosmetic [OF inv i]) (use lb len in \<open>simp add: same_owner_def\<close>)
  have p: "p < UDP_TRANSPORT_POOL_SIZE" by (rule owner_transport(1) [OF inv i t(1)])
  have "udp_call (udp_transport_send (Some p) (Some ?buf) 19 (Some (t_peer (tr s i)))) ?s1 =
      (TFTP_OK, ?s1\<lparr>ts_os := (ts_os s)\<lparr>sent := sent (ts_os s) @ [(u_fd (sock s p), t_peer (tr s i), ?m)]\<rparr>\<rparr>)"
    using send_ok [OF inv1 p, of 19 ?buf] t(2) f lm lb by (simp add: tftp_defs)
  moreover have "tr ?s1 i = (tr s i)\<lparr>t_packet_buffer := ?buf\<rparr>" using i by simp
  ultimately show ?thesis
    unfolding transfer_send_file_error_def b by (simp add: t(1) Let_def)
qed

lemma open_file_missing:
  assumes inv: "tsys_inv E S R s" and i: "i < length (g_transfer_pool s)" and f: "faults (ts_os s) = []"
    and t: "t_file (tr s i) = None" "t_in_use (tr s i)" "\<not> t_registered (tr s i)"
      "t_transport (tr s i) = Some p" "u_open (sock s p)"
    and room: "\<exists>f\<in>set (g_file_pool (ts_file s)). \<not> f_in_use f"
    and path: "fs (ts_os s) (c_string path) = None"
  shows "\<exists>s'. transfer_open_file i path s = (TFTP_ERR_FILE, s') \<and>
    sent (ts_os s') = sent (ts_os s) @ [(u_fd (sock s p), t_peer (tr s i), encode file_not_found)]"
proof -
  obtain q where q: "first_index (\<lambda>f. \<not> f_in_use f) (g_file_pool (ts_file s)) = Some q"
    using room free_slot [of _ "g_file_pool (ts_file s)" "\<lambda>f. \<not> f_in_use f"] by blast
  let ?s1 = "file_change q ((filo s q)\<lparr>f_in_use := True, f_open := False, f_fp := None\<rparr>) (ts_os s) s"
  let ?s2 = "upd_tr i (\<lambda>t. t\<lparr>t_file := Some q\<rparr>) ?s1"
  let ?s3 = "file_change q ((filo ?s2 q)\<lparr>f_open := False, f_fp := None\<rparr>) (ts_os ?s2) ?s2"
  have a: "file_call (tftp_file_acquire (Some (t_file (tr s i)))) s = ((TFTP_OK, Some (Some q)), ?s1)"
    by (simp add: file_call_def tftp_file_acquire_def q set_fl_def file_change_def)
  have n: "file_call (tftp_file_init (Some q)) ?s2 = (TFTP_OK, ?s3)"
    by (simp add: file_call_def tftp_file_init_def set_fl_def file_change_def)
  from owned_acquire_file [OF inv i t(1-3) a] have inv2: "tsys_inv E S R ?s2"
    and q1: "q < length (g_file_pool (ts_file s))" "\<not> f_open (filo ?s1 q)" by auto
  have i2: "i < length (g_transfer_pool ?s2)" and t2: "t_file (tr ?s2 i) = Some q" using i by simp_all
  have closed: "\<not> f_open (filo ?s2 q)" using q1(2) by simp
  from owned_init_file [OF inv2 closed n] have inv3: "tsys_inv E S R ?s3" by blast
  have q3: "q < length (g_file_pool (ts_file ?s3))" "f_in_use (filo ?s3 q)" "\<not> f_open (filo ?s3 q)"
    using q1 owner_file(2) [OF inv2 i2 t2] by simp_all
  have os3: "ts_os ?s3 = ts_os s" by simp
  obtain st s4 where o: "file_call (tftp_file_open (Some q) (Some path) TFTP_FILE_READ) ?s3 = (st, s4)"
    by (meson surj_pair)
  from owned_open_file [OF inv3 q3 o] path have inv4: "tsys_inv E S R s4" and st: "st = TFTP_ERR_FILE"
    by auto
  have s4: "sent (ts_os s4) = sent (ts_os s)" "faults (ts_os s4) = []" "ts_udp s4 = ts_udp s"
    "tr s4 i = (tr s i)\<lparr>t_file := Some q\<rparr>" "length (g_transfer_pool s4) = length (g_transfer_pool s)"
    using o path f i by (auto simp: file_call_def tftp_file_open_def sys_fopen_def set_fl_def Let_def
        file_change_def split: if_splits)
  have "sent (ts_os (transfer_send_file_error i s4)) = sent (ts_os s) @
      [(u_fd (sock s p), t_peer (tr s i), encode file_not_found)]"
    using send_error_ok [OF inv4 _ _ _ s4(2), of i p] i s4 t(4,5) by simp
  moreover have "transfer_open_file i path s = (TFTP_ERR_FILE, transfer_send_file_error i s4)"
    unfolding transfer_open_file_def a prod.case deref_simps Let_def t2 n using o st i by simp
  ultimately show ?thesis by blast
qed

lemma accept_missing:
  assumes inv: "tsys_inv E S R s" and i: "i < length (g_transfer_pool s)"
    and t: "tr s i = (retired n)\<lparr>t_in_use := True\<rparr>"
    and c: "xc_opcode c = TFTP_OPCODE_RRQ" "xc_reactor c = Some 0" "xc_filename c = Some name"
    and name: "name_accepted (Some name) (tr s i)"
    and room: "has_room s" and f: "faults (ts_os s) = []"
    and path: "fs (ts_os s) (cstr ''tftp_root/'' @ c_string name) = None"
  shows "\<exists>s' fd. accept_request i c s = (TFTP_ERR_FILE, s') \<and>
    sent (ts_os s') = sent (ts_os s) @ [(fd, xc_peer c, encode file_not_found)]"
proof -
  from accept_prepares [OF inv i t c name] obtain s2 where
    r: "run_request i c s = tftp_transfer_process (Some i) s2"
    and inv2: "tsys_inv E S R s2" and i2: "i < length (g_transfer_pool s2)" and st: "startable (tr s2 i)"
      "t_state (tr s2 i) = TFTP_TRANSFER_RRQ"
    and k: "t_peer (tr s2 i) = xc_peer c" "ts_os s2 = ts_os s" "has_room s2 = has_room s"
      "c_string (transfer_path (tr s2 i)) = cstr ''tftp_root/'' @ c_string name" by blast
  have u: "t_in_use (tr s2 i)" "t_initialized (tr s2 i)" "\<not> t_registered (tr s2 i)"
    "t_transport (tr s2 i) = None" "t_file (tr s2 i) = None" using st(1) by (simp_all add: startable_def)
  from open_transport_ok [OF inv2 i2 u(4,1)] room k(2,3) f obtain s3 where
    o: "transfer_open_transport i s2 = (TFTP_OK, s3)" "faults (ts_os s3) = []" by (auto simp: has_room_def)
  from open_transport_safe [OF inv2 i2 u(4,1) o(1)] obtain p where inv3: "tsys_inv E S R s3"
    and w3: "own_step i s2 s3" and k3: "disk_same (ts_os s2) (ts_os s3)" "script_same (ts_os s2) (ts_os s3)"
    and m3: "ts_file s3 = ts_file s2" and t3: "tr s3 i = (tr s2 i)\<lparr>t_transport := Some p\<rparr>"
    and p3: "u_open (sock s3 p)" by auto
  have i3: "i < length (g_transfer_pool s3)" using i2 own_step_len [OF w3] by simp
  let ?path = "transfer_path (tr s2 i)"
  have x: "t_file (tr s3 i) = None" "t_in_use (tr s3 i)" "\<not> t_registered (tr s3 i)"
    "t_transport (tr s3 i) = Some p" "\<exists>f\<in>set (g_file_pool (ts_file s3)). \<not> f_in_use f"
    "fs (ts_os s3) (c_string ?path) = None"
    using t3 u room k m3 path k3(1) by (simp_all add: has_room_def disk_same_def)
  from open_file_missing [OF inv3 i3 o(2) x(1-4) p3 x(5,6)] obtain s4 where
    m: "transfer_open_file i ?path s3 = (TFTP_ERR_FILE, s4)"
      "sent (ts_os s4) = sent (ts_os s3) @ [(u_fd (sock s3 p), t_peer (tr s3 i), encode file_not_found)]" by blast
  from open_file_safe [OF inv3 i3 x(1-3) m(1)] have inv4: "tsys_inv E S R s4" and w4: "own_step i s3 s4" by blast+
  have i4: "i < length (g_transfer_pool s4)" using i3 own_step_len [OF w4] by simp
  have "run_request i c s = (TFTP_ERR_FILE, s4)"
    using r u st(2) o(1) m(1) by (simp add: tftp_transfer_process_def)
  moreover obtain q s5 where rel: "tftp_transfer_release (Some (Some i)) s4 = (q, s5)" by (meson surj_pair)
  moreover have "sent (ts_os s5) = sent (ts_os s) @ [(u_fd (sock s3 p), xc_peer c, encode file_not_found)]"
    using release_safe [OF inv4 i4 rel] m(2) k3(2) k(1,2) t3 by (simp add: script_same_def)
  ultimately show ?thesis by (auto simp: accept_request_def)
qed

lemma request_missing_file:
  assumes inv: "srv_inv E w" "s_running (g_server w)" "name_sizes (sv_sys w) = replicate m (Suc k)"
    and req: "valid_request TFTP_OPCODE_RRQ fname mode" "take n b = request_bytes TFTP_OPCODE_RRQ fname mode"
      "n \<le> length b" "safe_name fname" "length fname \<le> k"
    and free: "\<exists>t\<in>set (g_transfer_pool (sv_sys w)). \<not> t_in_use t"
    and room: "has_room (sv_sys w)" and f: "faults (ts_os (sv_sys w)) = []"
    and path: "fs (ts_os (sv_sys w)) (cstr ''tftp_root/'' @ fname) = None"
  shows "\<exists>w' fd. tftp_server_process_event (Some 0) (Some b) n (Some peer) w = (TFTP_ERR_FILE, w') \<and>
    sent (ts_os (sv_sys w')) = sent (ts_os (sv_sys w)) @ [(fd, peer, encode file_not_found)]"
proof -
  from request_prepares [OF inv req free, of peer] obtain i s1 c name l where
    e: "tftp_server_process_event (Some 0) (Some b) n (Some peer) w =
      (case accept_request i c s1 of (st, s) \<Rightarrow> (st, w\<lparr>sv_sys := s\<rparr>))"
    and s1: "tsys_inv E (s_transport (g_server w)) (s_registered (g_server w)) s1" "i < length (g_transfer_pool s1)"
      "tr s1 i = (retired l)\<lparr>t_in_use := True\<rparr>" "xc_opcode c = TFTP_OPCODE_RRQ" "xc_reactor c = Some 0"
      "xc_filename c = Some name"
    and c: "c_string name = fname" "xc_peer c = peer" "name_accepted (Some name) (tr s1 i)"
      "ts_os s1 = ts_os (sv_sys w)" "has_room s1 = has_room (sv_sys w)" by blast
  from accept_missing [OF s1 c(3)] room f path c obtain s' fd where
    "accept_request i c s1 = (TFTP_ERR_FILE, s')"
    "sent (ts_os s') = sent (ts_os s1) @ [(fd, peer, encode file_not_found)]" by auto
  with e c(4) show ?thesis by (intro exI [of _ "w\<lparr>sv_sys := s'\<rparr>"] exI [of _ fd]) simp
qed

section \<open>One transfer at a time\<close>

text \<open>
  A running server holds one of the two transports and every transfer in use holds one, so at
  most one transfer is in use, whatever the size of the transfer pool.
\<close>

lemma one_active:
  assumes inv: "srv_inv E w" and run: "s_running (g_server w)"
    and i: "i < length (g_transfer_pool (sv_sys w))" "t_in_use (tr (sv_sys w) i)"
    and j: "j < length (g_transfer_pool (sv_sys w))" "t_in_use (tr (sv_sys w) j)"
  shows "i = j"
proof (rule ccontr)
  assume ij: "i \<noteq> j"
  from server_running(1,2) [OF inv run] obtain p where p: "s_transport (g_server w) = Some p" by blast
  have t: "tsys_inv E (Some p) (s_registered (g_server w)) (sv_sys w)" using srv_invD(1) [OF inv] p by simp
  note a = all_activeD [OF srv_invD(2) [OF inv]]
  from a [OF i] a [OF j] obtain q r where q: "t_transport (tr (sv_sys w) i) = Some q"
    and r: "t_transport (tr (sv_sys w) j) = Some r" by (auto simp: active_def)
  have "p \<noteq> q" using transports_not_server [OF t i(1)] q by blast
  moreover have "p \<noteq> r" using transports_not_server [OF t j(1)] r by blast
  moreover have "q \<noteq> r" using transports_distinct [OF t i(1) j(1) q] r ij by blast
  moreover have "p < 2" "q < 2" "r < 2"
    using owner_server(1) [OF t] owner_transport(1) [OF t i(1) q] owner_transport(1) [OF t j(1) r]
    by (simp_all add: UDP_TRANSPORT_POOL_SIZE_def)
  ultimately show False by linarith
qed

lemma second_request_fails:
  assumes inv: "srv_inv E w" and run: "s_running (g_server w)"
    and i: "i < length (g_transfer_pool (sv_sys w))" "t_in_use (tr (sv_sys w) i)"
    and e: "tftp_server_process_event (Some 0) data n src w = (st, w')"
  shows "st \<noteq> TFTP_OK"
proof
  assume ok: "st = TFTP_OK"
  have r: "s_reactor (g_server w) = Some 0" using srv_invD(3) [OF inv] run by (simp add: server_ok_def)
  from process_event_safe [OF srv_invD(1) [OF inv] r e] ok obtain j where
    j: "j < length (g_transfer_pool (sv_sys w))" "\<not> t_in_use (tr (sv_sys w) j)"
      "own_step j (sv_sys w) (sv_sys w')" "active (tr (sv_sys w') j)" by auto
  have ij: "i \<noteq> j" using i(2) j(2) by blast
  then have "t_in_use (tr (sv_sys w') i)" using i(2) own_step_other [OF j(3) ij] by simp
  moreover have "t_in_use (tr (sv_sys w') j)" using j(4) by (simp add: active_def)
  moreover have "s_running (g_server w')" using process_event_inv(3) [OF inv e] run by simp
  ultimately show False
    using one_active [OF process_event_inv(1) [OF inv e], of i j] i(1) j(1) own_step_len [OF j(3)] ij by simp
qed

end
