(* ===== verification/Stream_Paths.thy ===== *)
theory Stream_Paths
  imports Server_Protocol
begin

text \<open>
  Which files the modular server opens: the paths of the open streams, what each step of a
  transfer does to them, and that a transfer opens one path only, the one of its name.
\<close>

definition stream_paths :: "os \<Rightarrow> nat \<rightharpoonup> bytes" where
  "stream_paths k sid = map_option st_path (streams k sid)"

lemma stream_paths_same: "streams k' = streams k \<Longrightarrow> stream_paths k' = stream_paths k"
  by (simp add: stream_paths_def fun_eq_iff)

lemma stream_paths_disk: "disk_same k k' \<Longrightarrow> stream_paths k' = stream_paths k \<and> next_stream k' = next_stream k"
  by (simp add: disk_same_def stream_paths_def fun_eq_iff)

section \<open>The steps of a start\<close>

lemma file_open_paths:
  assumes e: "file_call (tftp_file_open (Some q) (Some path) TFTP_FILE_READ) s = (st, s')"
    and q: "q < length (g_file_pool (ts_file s))" "\<not> f_open (filo s q)"
  shows "g_transfer_pool s' = g_transfer_pool s \<and>
    (st = TFTP_OK \<and> f_mode (filo s' q) = TFTP_FILE_READ \<and> f_fp (filo s' q) = Some (next_stream (ts_os s)) \<and>
       stream_paths (ts_os s') = (stream_paths (ts_os s))(next_stream (ts_os s) \<mapsto> c_string path) \<or>
     st \<noteq> TFTP_OK \<and> stream_paths (ts_os s') = stream_paths (ts_os s))"
proof -
  obtain u k where o: "tftp_file_open (Some q) (Some path) TFTP_FILE_READ (ts_file s, ts_os s) = (st, (u, k))"
    and s': "s' = s\<lparr>ts_file := u, ts_os := k\<rparr>" using e by (auto simp: file_call_eq)
  from file_open_effect [OF o] q(2) consider
      "st = TFTP_ERR_FILE" "disk_same (ts_os s) k"
    | "st = TFTP_OK" "g_file_pool u = (g_file_pool (ts_file s))
         [q := (filo s q)\<lparr>f_fp := Some (next_stream (ts_os s)), f_mode := TFTP_FILE_READ, f_open := True\<rparr>]"
        "streams k = (streams (ts_os s))(next_stream (ts_os s) \<mapsto>
         \<lparr>st_path = c_string path, st_fd = alloc_fd (fds (ts_os s)), st_pos = 0, st_err = False\<rparr>)"
    by fastforce
  then show ?thesis
  proof cases
    case 1
    then show ?thesis using s' stream_paths_disk by simp
  next
    case 2
    then have "stream_paths k = (stream_paths (ts_os s))(next_stream (ts_os s) \<mapsto> c_string path)"
      by (simp add: stream_paths_def fun_eq_iff)
    with 2 s' q(1) show ?thesis by simp
  qed
qed

lemma send_error_paths:
  "stream_paths (ts_os (transfer_send_file_error i s)) = stream_paths (ts_os s)"
proof -
  obtain st b n where b: "tftp_packet_build_error (error_code TFTP_ERROR_FILE_NOT_FOUND)
      (Some (cstr ''File not found'' @ [0])) (Some (t_packet_buffer (tr s i))) TFTP_MAX_PACKET_SIZE (Some 0) =
      (st, b, n)" by (metis prod.collapse)
  let ?s1 = "upd_tr i (\<lambda>t. t\<lparr>t_packet_buffer := deref [] b\<rparr>) s"
  obtain st2 s2 where x: "udp_call (udp_transport_send (t_transport (tr ?s1 i))
      (Some (t_packet_buffer (tr ?s1 i))) (deref 0 n) (Some (t_peer (tr ?s1 i)))) ?s1 = (st2, s2)"
    by (meson surj_pair)
  have "transfer_send_file_error i s = (if st \<noteq> TFTP_OK then ?s1 else s2)"
    by (simp only: transfer_send_file_error_def b x Let_def prod.case snd_conv)
  moreover have "stream_paths (ts_os s2) = stream_paths (ts_os ?s1)"
    using send_call [OF x] stream_paths_disk by blast
  ultimately show ?thesis by simp
qed

lemma open_file_paths:
  assumes inv: "tsys_inv E S R s" and i: "i < length (g_transfer_pool s)"
    and t: "t_file (tr s i) = None" "t_in_use (tr s i)" "\<not> t_registered (tr s i)"
    and e: "transfer_open_file i path s = (st, s')"
  shows "st = TFTP_OK \<and>
      stream_paths (ts_os s') = (stream_paths (ts_os s))(next_stream (ts_os s) \<mapsto> c_string path) \<and>
      (\<exists>q. t_file (tr s' i) = Some q \<and> f_mode (filo s' q) = TFTP_FILE_READ \<and>
         f_fp (filo s' q) = Some (next_stream (ts_os s))) \<or>
    st \<noteq> TFTP_OK \<and> stream_paths (ts_os s') = stream_paths (ts_os s)"
proof -
  obtain st1 p s1 where a: "file_call (tftp_file_acquire (Some (t_file (tr s i)))) s = ((st1, p), s1)"
    by (metis prod.collapse)
  let ?s2 = "upd_tr i (\<lambda>t. t\<lparr>t_file := deref None p\<rparr>) s1"
  note ac = owned_acquire_file [OF inv i t a]
  then have inv2: "tsys_inv E S R ?s2" and s1: "g_transfer_pool s1 = g_transfer_pool s" "ts_os s1 = ts_os s"
    by blast+
  show ?thesis
  proof (cases "st1 = TFTP_OK")
    case False
    with e a have "st = st1" "s' = ?s2" by (auto simp: transfer_open_file_def)
    with False s1 show ?thesis by simp
  next
    case True
    with ac obtain q where p: "p = Some (Some q)" and closed: "\<not> f_open (filo ?s2 q)" by auto
    have i2: "i < length (g_transfer_pool ?s2)" and tq: "t_file (tr ?s2 i) = Some q" using i s1 p by simp_all
    note own = owner_file [OF inv2 i2 tq]
    obtain st3 s3 where n: "file_call (tftp_file_init (Some q)) ?s2 = (st3, s3)" by (meson surj_pair)
    from owned_init_file [OF inv2 closed n] have st3: "st3 = TFTP_OK"
      and s3: "s3 = file_change q ((filo ?s2 q)\<lparr>f_open := False, f_fp := None\<rparr>) (ts_os ?s2) ?s2" by auto
    have q3: "q < length (g_file_pool (ts_file s3))" "\<not> f_open (filo s3 q)" and pool3: "tr s3 i = tr ?s2 i"
      using own s3 by simp_all
    obtain st4 s4 where o: "file_call (tftp_file_open (Some q) (Some path) TFTP_FILE_READ) s3 = (st4, s4)"
      by (meson surj_pair)
    have res: "st = st4" "s' = (if st4 \<noteq> TFTP_OK then transfer_send_file_error i s4 else s4)"
      using e a n True st3 o tq pool3 p by (auto simp: transfer_open_file_def Let_def split: if_splits)
    have os: "ts_os s3 = ts_os s" using s3 s1 by simp
    have "t_file (tr s4 i) = Some q" using file_open_paths [OF o q3] tq pool3 by simp
    with file_open_paths [OF o q3] res send_error_paths [of i s4] show ?thesis
      unfolding os by (cases "st4 = TFTP_OK") auto
  qed
qed

lemma file_read_paths:
  assumes inv: "tsys_inv E S R s" and i: "i < length (g_transfer_pool s)"
    and r: "file_call (tftp_file_read (t_file (tr s i)) (Some b) m (Some x)) s = ((st, b', n), s')"
  shows "stream_paths (ts_os s') = stream_paths (ts_os s)"
proof (cases "\<exists>q. t_file (tr s i) = Some q \<and> f_open (filo s q)")
  case True
  then obtain q where q: "t_file (tr s i) = Some q" "f_open (filo s q)" by blast
  obtain u k where o: "tftp_file_read (Some q) (Some b) m (Some x) (ts_file s, ts_os s) = ((st, b', n), (u, k))"
    and s': "s' = s\<lparr>ts_file := u, ts_os := k\<rparr>" using r q(1) by (auto simp: file_call_eq)
  obtain sid str where f: "f_fp (filo s q) = Some sid" "streams (ts_os s) sid = Some str"
    using open_file_stream [OF inv owner_file(1) [OF inv i q(1)] q(2)] by blast
  from file_read_effect [OF o, unfolded fst_conv snd_conv, OF q(2) f] obtain str' where
    "streams k = (streams (ts_os s))(sid \<mapsto> str')" "st_path str' = st_path str" by blast
  with f(2) s' show ?thesis by (auto simp: stream_paths_def fun_eq_iff)
next
  case False
  with r show ?thesis by (auto simp: file_call_def tftp_file_read_def split: option.splits)
qed

text \<open>Sending a block moves the position of the stream and touches nothing else of files.\<close>

lemma send_next_paths:
  assumes inv: "tsys_inv E S R s" and i: "i < length (g_transfer_pool s)"
    and e: "transfer_send_next_data i s = (st, s')"
  shows "stream_paths (ts_os s') = stream_paths (ts_os s) \<and> ts_file s' = ts_file s"
proof -
  obtain r1 b n s1 where r: "file_call (tftp_file_read (t_file (tr s i))
      (Some (replicate TFTP_BLOCK_SIZE 0)) TFTP_BLOCK_SIZE (Some 0)) s = ((r1, b, n), s1)"
    by (metis prod.collapse)
  have p1: "stream_paths (ts_os s1) = stream_paths (ts_os s)" by (rule file_read_paths [OF inv i r])
  have f1: "ts_file s1 = ts_file s" using read_next_block [OF inv i r] os_only(3) by blast
  from send_next_unfold [OF inv i r] show ?thesis
  proof (elim disjE conjE exE)
    assume "transfer_send_next_data i s = (r1, s1)"
    with e p1 f1 show ?thesis by simp
  next
    fix data buf :: bytes
    let ?s2 = "upd_tr i (\<lambda>t. t\<lparr>t_block := t_block t + 1, t_packet_buffer := buf,
        t_packet_length := 4 + length data, t_final_data := length data < TFTP_BLOCK_SIZE,
        t_expected_block := t_block t + 1\<rparr>) s1"
    obtain st3 s3 where x: "udp_call (udp_transport_send (t_transport (tr s i)) (Some buf) (4 + length data)
        (Some (t_peer (tr s i)))) ?s2 = (st3, s3)" by (meson surj_pair)
    assume "transfer_send_next_data i s =
        (case udp_call (udp_transport_send (t_transport (tr s i)) (Some buf) (4 + length data)
           (Some (t_peer (tr s i)))) ?s2 of
           (st, s3) \<Rightarrow> if st \<noteq> TFTP_OK then (st, s3)
             else (TFTP_OK, upd_tr i (\<lambda>t. t\<lparr>t_state := TFTP_TRANSFER_WAIT_ACK\<rparr>) s3))"
    then have "s' = s3 \<or> s' = upd_tr i (\<lambda>t. t\<lparr>t_state := TFTP_TRANSFER_WAIT_ACK\<rparr>) s3"
      using e x by (auto split: if_splits)
    moreover have "stream_paths (ts_os s3) = stream_paths (ts_os ?s2)" "ts_file s3 = ts_file ?s2"
      using send_call [OF x] stream_paths_disk os_only(3) by blast+
    ultimately show ?thesis using p1 f1 by auto
  qed
qed

text \<open>
  Starting a transfer opens at most one stream, on the path of the transfer; when the start
  succeeds, this stream is the one that the transfer's file object reads.
\<close>

lemma process_paths:
  assumes inv: "tsys_inv E S R s" and i: "i < length (g_transfer_pool s)"
    and t: "startable (tr s i)" "t_state (tr s i) = TFTP_TRANSFER_RRQ"
    and e: "tftp_transfer_process (Some i) s = (st, s')"
  defines "opened \<equiv> (stream_paths (ts_os s))(next_stream (ts_os s) \<mapsto> c_string (transfer_path (tr s i)))"
  shows "(stream_paths (ts_os s') = stream_paths (ts_os s) \<or> stream_paths (ts_os s') = opened) \<and>
    (st = TFTP_OK \<longrightarrow> stream_paths (ts_os s') = opened \<and>
       (\<exists>q. t_file (tr s' i) = Some q \<and> f_mode (filo s' q) = TFTP_FILE_READ \<and>
          f_fp (filo s' q) = Some (next_stream (ts_os s))))"
proof -
  let ?path = "transfer_path (tr s i)"
  have u: "t_in_use (tr s i)" "t_initialized (tr s i)" "\<not> t_registered (tr s i)"
    "t_transport (tr s i) = None" "t_file (tr s i) = None" "t_reactor (tr s i) = Some 0"
    using t(1) by (simp_all add: startable_def)
  obtain st1 s1 where o1: "transfer_open_transport i s = (st1, s1)" by (meson surj_pair)
  note ot = open_transport_safe [OF inv i u(4,1) o1]
  then have k1: "stream_paths (ts_os s1) = stream_paths (ts_os s)" "next_stream (ts_os s1) = next_stream (ts_os s)"
    using stream_paths_disk by blast+
  show ?thesis
  proof (cases "st1 = TFTP_OK")
    case False
    with e o1 t u have "st = st1" "s' = s1" by (auto simp: tftp_transfer_process_def)
    with False k1 show ?thesis by simp
  next
    case ok1: True
    with ot obtain x p where inv1: "tsys_inv E S R s1" and w1: "own_step i s s1"
      and t1: "tr s1 i = (tr s i)\<lparr>t_transport := x\<rparr>" and p: "x = Some p" "u_open (sock s1 p)" by auto
    have i1: "i < length (g_transfer_pool s1)" using i own_step_len [OF w1] by simp
    obtain st2 s2 where o2: "transfer_open_file i ?path s1 = (st2, s2)" by (meson surj_pair)
    have a2: "t_file (tr s1 i) = None" "t_in_use (tr s1 i)" "\<not> t_registered (tr s1 i)" using t1 u by simp_all
    note of = open_file_paths [OF inv1 i1 a2 o2, unfolded k1]
    show ?thesis
    proof (cases "st2 = TFTP_OK")
      case False
      with e o1 o2 ok1 t u have "st = st2" "s' = s2" by (auto simp: tftp_transfer_process_def)
      with False of show ?thesis by auto
    next
      case ok2: True
      with of obtain q where k2: "stream_paths (ts_os s2) = opened" and q: "t_file (tr s2 i) = Some q"
        "f_mode (filo s2 q) = TFTP_FILE_READ \<and> f_fp (filo s2 q) = Some (next_stream (ts_os s))" by (auto simp: opened_def)
      from open_file_safe [OF inv1 i1 a2 o2] obtain y z where inv2: "tsys_inv E S R s2"
        and w2: "own_step i s1 s2" and u2: "ts_udp s2 = ts_udp s1"
        and t2: "tr s2 i = (tr s1 i)\<lparr>t_file := y, t_packet_buffer := z\<rparr>" by blast
      have i2: "i < length (g_transfer_pool s2)" using i1 own_step_len [OF w2] by simp
      obtain st3 s3 where o3: "transfer_register i s2 = (st3, s3)" by (meson surj_pair)
      have "t_transport (tr s2 i) = Some p" "u_open (sock s2 p)" "\<not> t_registered (tr s2 i)"
        "t_reactor (tr s2 i) = Some 0" "t_in_use (tr s2 i)"
        using t1 t2 u p u2 by simp_all
      from register_safe [OF inv2 i2 this o3] have inv3: "tsys_inv E S R s3" and w3: "own_step i s2 s3"
        and s3: "s3 = s2\<lparr>ts_reactor := ts_reactor s3, g_transfer_pool := g_transfer_pool s3\<rparr>"
        and t3: "tr s3 i = (tr s2 i)\<lparr>t_registered := (st3 = TFTP_OK)\<rparr>" by blast+
      have i3: "i < length (g_transfer_pool s3)" using i2 own_step_len [OF w3] by simp
      have k3: "ts_os s3 = ts_os s2" "ts_file s3 = ts_file s2"
        using arg_cong [OF s3, of ts_os] arg_cong [OF s3, of ts_file] by simp_all
      show ?thesis
      proof (cases "st3 = TFTP_OK")
        case False
        with e o1 o2 o3 ok1 ok2 t u have "st = st3" "s' = s3" by (auto simp: tftp_transfer_process_def)
        with False k2 k3 show ?thesis by simp
      next
        case True
        with e o1 o2 o3 ok1 ok2 t u have n: "transfer_send_next_data i s3 = (st, s')"
          by (auto simp: tftp_transfer_process_def)
        from send_next_paths [OF inv3 i3 n] k2 k3 have "stream_paths (ts_os s') = opened" "ts_file s' = ts_file s2"
          by simp_all
        moreover have "t_file (tr s' i) = Some q"
          using send_next_safe [OF inv3 i3 n] t3 q(1) by (simp add: holds_same_def)
        ultimately show ?thesis using q(2) by simp
      qed
    qed
  qed
qed

section \<open>Streams inside the root directory\<close>

definition in_root :: "bytes \<Rightarrow> bool" where
  "in_root p \<longleftrightarrow> (\<exists>name. safe_name name \<and> p = cstr ''tftp_root/'' @ name)"

definition rooted :: "os \<Rightarrow> bool" where
  "rooted k \<longleftrightarrow> (\<forall>sid st. streams k sid = Some st \<longrightarrow> in_root (st_path st))"

lemma rooted_paths: "rooted k \<longleftrightarrow> (\<forall>sid p. stream_paths k sid = Some p \<longrightarrow> in_root p)"
  by (auto simp: rooted_def stream_paths_def)

lemma rooted_same: "stream_paths k' = stream_paths k \<Longrightarrow> rooted k \<Longrightarrow> rooted k'"
  by (simp add: rooted_paths)

lemma rooted_streams: "streams k' = streams k \<Longrightarrow> rooted k \<Longrightarrow> rooted k'"
  by (simp add: rooted_def)

lemma rooted_disk: "disk_same k k' \<Longrightarrow> rooted k \<Longrightarrow> rooted k'"
  by (simp add: rooted_def disk_same_def)

lemma rooted_open:
  "stream_paths k' = (stream_paths k)(sid \<mapsto> p) \<Longrightarrow> in_root p \<Longrightarrow> rooted k \<Longrightarrow> rooted k'"
  by (auto simp: rooted_paths)

lemma rooted_file_deinit: "rooted (ts_os s) \<Longrightarrow> rooted (ts_os (snd (file_call (tftp_file_deinit p) s)))"
  by (auto simp: rooted_def file_call_def tftp_file_deinit_def tftp_file_close_def sys_fclose_def next_fault_def
      set_fl_def Let_def split: option.splits list.splits prod.splits if_splits)

lemma file_release_os: "ts_os (snd (file_call (tftp_file_release p) s)) = ts_os s"
  by (simp add: file_call_def tftp_file_release_def set_fl_def split: option.splits)

lemma udp_release_streams: "streams (ts_os (snd (udp_call (udp_transport_release p) s))) = streams (ts_os s)"
  by (auto simp: udp_call_def udp_transport_release_def udp_transport_deinit_def udp_transport_close_def
      sys_close_def next_fault_def set_tp_def Let_def split: option.splits list.splits prod.splits if_splits)

lemma reactor_call_os: "ts_os (snd (reactor_call f s)) = ts_os s"
  by (simp add: reactor_call_def split: prod.splits)

lemma release_rooted:
  assumes "rooted (ts_os s)"
  shows "rooted (ts_os (snd (tftp_transfer_release (Some (Some i)) s)))"
proof -
  have "ts_os (cleanup_register i s) = ts_os s" by (simp add: cleanup_register_def Let_def reactor_call_os)
  with assms have 1: "rooted (ts_os (cleanup_register i s))" by simp
  have 2: "rooted (ts_os (cleanup_file i u))" if "rooted (ts_os u)" for u
  proof (cases "t_file (tr u i)")
    case None
    with that show ?thesis by (simp add: cleanup_file_def)
  next
    case (Some q)
    let ?u1 = "snd (file_call (tftp_file_deinit (t_file (tr u i))) u)"
    have "ts_os (cleanup_file i u) = ts_os ?u1"
      using Some file_release_os [of "Some (t_file (tr ?u1 i))" ?u1]
      by (simp add: cleanup_file_def Let_def case_prod_beta)
    with rooted_file_deinit [OF that] show ?thesis by simp
  qed
  have 3: "rooted (ts_os (cleanup_transport i u))" if "rooted (ts_os u)" for u
  proof -
    have "streams (ts_os (cleanup_transport i u)) = streams (ts_os u)"
      using udp_release_streams [of "Some (t_transport (tr u i))" u]
      by (simp add: cleanup_transport_def case_prod_beta)
    with that rooted_streams show ?thesis by blast
  qed
  have "rooted (ts_os (cleanup_transport i (cleanup_file i (cleanup_register i s))))" by (rule 3 [OF 2 [OF 1]])
  then show ?thesis by (simp add: tftp_transfer_release_def cleanup_parts transfer_reset_def)
qed

section \<open>Requests and handlers\<close>

lemma accept_rooted:
  assumes inv: "tsys_inv E S R s" and i: "i < length (g_transfer_pool s)"
    and t: "tr s i = (retired n)\<lparr>t_in_use := True\<rparr>"
    and c: "xc_opcode c = TFTP_OPCODE_RRQ" "xc_reactor c = Some 0" "xc_filename c = Some name"
    and r: "rooted (ts_os s)"
  shows "rooted (ts_os (snd (accept_request i c s)))"
proof (cases "name_accepted (Some name) (tr s i)")
  case False
  with accept_bad_name [OF i t c(2)] c(3) have "snd (accept_request i c s) = transfer_reset (Some i) s" by simp
  with r show ?thesis by (simp add: transfer_reset_def)
next
  case True
  from accept_prepares [OF inv i t c True] obtain s2 where
    run: "run_request i c s = tftp_transfer_process (Some i) s2"
    and s2: "tsys_inv E S R s2" "i < length (g_transfer_pool s2)" "startable (tr s2 i)"
      "t_state (tr s2 i) = TFTP_TRANSFER_RRQ"
    and k: "ts_os s2 = ts_os s" "c_string (transfer_path (tr s2 i)) = cstr ''tftp_root/'' @ c_string name" by blast
  obtain st s3 where p: "tftp_transfer_process (Some i) s2 = (st, s3)" by (meson surj_pair)
  have root: "in_root (cstr ''tftp_root/'' @ c_string name)"
    using True by (auto simp: in_root_def name_accepted_def filename_valid_iff)
  have "stream_paths (ts_os s3) = stream_paths (ts_os s) \<or> stream_paths (ts_os s3) =
      (stream_paths (ts_os s))(next_stream (ts_os s) \<mapsto> cstr ''tftp_root/'' @ c_string name)"
    using process_paths [OF s2 p] unfolding k by blast
  then have "rooted (ts_os s3)" using rooted_same [OF _ r] rooted_open [OF _ root r] by blast
  then show ?thesis using release_rooted run p by (simp add: accept_request_def)
qed

lemma request_parse_some: "request_parse data n = (TFTP_OK, opc, req) \<Longrightarrow> \<exists>rq. req = Some rq"
  by (auto simp: tftp_packet_parse_request_def Let_def split: option.splits prod.splits if_splits)

lemma process_event_rooted:
  assumes inv: "tsys_inv E S R (sv_sys w)" and r: "s_reactor (g_server w) = Some 0"
    and k: "rooted (ts_os (sv_sys w))"
  shows "rooted (ts_os (sv_sys (snd (tftp_server_process_event (Some me) data n src w))))"
proof (cases "data \<noteq> None \<and> src \<noteq> None")
  case False
  with k show ?thesis by (auto simp: process_event_null)
next
  case True
  then obtain d peer where d: "data = Some d" "src = Some peer" by blast
  obtain st0 opc req where q: "request_parse (Some d) n = (st0, opc, req)" by (metis prod.collapse)
  obtain st1 out s1 where a: "tftp_transfer_acquire (Some None) (sv_sys w) = ((st1, out), s1)"
    by (metis prod.collapse)
  note ac = acquire_safe [OF inv a]
  let ?c = "\<lparr>xc_opcode = TFTP_OPCODE_RRQ, xc_filename = map_option rq_filename req, xc_peer = peer,
      xc_reactor = s_reactor (g_server w)\<rparr>"
  let ?w = "snd (tftp_server_process_event (Some me) data n src w)"
  have eff: "sv_sys ?w = sv_sys w \<or> st1 \<noteq> TFTP_OK \<and> sv_sys ?w = s1 \<or>
      st0 = TFTP_OK \<and> st1 = TFTP_OK \<and> sv_sys ?w = snd (accept_request (the (deref None out)) ?c s1)"
    unfolding d process_event_cases q a by (auto split: prod.splits)
  then show ?thesis
  proof (elim disjE conjE)
    assume x: "st0 = TFTP_OK" "st1 = TFTP_OK" "sv_sys ?w = snd (accept_request (the (deref None out)) ?c s1)"
    from request_parse_some q x(1) obtain rq where rq: "req = Some rq" by blast
    from ac x(2) obtain i where i: "out = Some (Some i)" "i < length (g_transfer_pool (sv_sys w))"
      "own_step i (sv_sys w) s1" "ts_os s1 = ts_os (sv_sys w)" "tsys_inv E S R s1"
      "tr s1 i = (retired (length (t_filename (tr (sv_sys w) i))))\<lparr>t_in_use := True\<rparr>" by auto
    have i1: "i < length (g_transfer_pool s1)" using i(2) own_step_len [OF i(3)] by simp
    from accept_rooted [OF i(5) i1 i(6), of ?c "rq_filename rq"] r rq i(1,4) k x(3) show ?thesis by simp
  next
    assume "st1 \<noteq> TFTP_OK" "sv_sys ?w = s1"
    with ac k show ?thesis by auto
  qed (use k in simp)
qed

lemma server_handler_rooted:
  assumes inv: "srv_inv E w" and k: "rooted (ts_os (sv_sys w))"
  shows "rooted (ts_os (sv_sys (tftp_server_udp_handler fd ev (Some me) w)))"
proof (cases "s_transport (g_server w)")
  case None
  with k show ?thesis by (simp add: tftp_server_udp_handler_def)
next
  case (Some p)
  then have r: "s_reactor (g_server w) = Some 0" using srv_invD(3) [OF inv] by (auto simp: server_ok_def)
  obtain st b n src s1 where e: "udp_call (udp_transport_receive (s_transport (g_server w))
      (Some (replicate TFTP_SERVER_RX_BUFFER_SIZE 0)) TFTP_SERVER_RX_BUFFER_SIZE
      (Some 0) (Some sockaddr_zero)) (sv_sys w) = ((st, b, n, src), s1)" by (metis prod.collapse)
  let ?w1 = "w\<lparr>sv_sys := s1\<rparr>"
  have k1: "rooted (ts_os s1)" using receive_call [OF e] rooted_disk [OF _ k] by blast
  have "tsys_inv E (s_transport (g_server w)) (s_registered (g_server w)) (sv_sys ?w1)"
    using owned_receive [OF srv_invD(1) [OF inv] e] by simp
  from process_event_rooted [OF this, of 0 b "deref 0 n" src] r k1
  have "rooted (ts_os (sv_sys (snd (tftp_server_process_event (Some 0) b (deref 0 n) src ?w1))))" by simp
  with k k1 e show ?thesis by (simp add: tftp_server_udp_handler_def sys_call_def)
qed

lemma transfer_handler_rooted:
  assumes inv: "tsys_inv E S R s" and i: "i < length (g_transfer_pool s)" and k: "rooted (ts_os s)"
  shows "rooted (ts_os (transfer_udp_handler fd events (Some i) s))"
proof -
  obtain st b n src s1 where h: "handler_input i s = ((st, b, n, src), s1)" by (metis prod.collapse)
  note h' = h [unfolded handler_input_def]
  have o: "s1 = s\<lparr>ts_os := ts_os s1\<rparr>" and k1: "rooted (ts_os s1)"
    using receive_call [OF h'] rooted_disk [OF _ k] by blast+
  have inv1: "tsys_inv E S R s1" and i1: "i < length (g_transfer_pool s1)"
    using owned_receive [OF inv h'] os_only(1) [OF o] i by simp_all
  obtain st2 s2 where e: "tftp_transfer_handle_event (Some i) TFTP_TRANSFER_EVENT_RX_PACKET
      b (deref 0 n) s1 = (st2, s2)" by (meson surj_pair)
  have "s2 = s1 \<or> s2 = upd_tr i (\<lambda>t. t\<lparr>t_state := TFTP_TRANSFER_COMPLETE\<rparr>) s1 \<or>
      transfer_send_next_data i s1 = (st2, s2)"
    using e by (auto simp: tftp_transfer_handle_event_def Let_def split: if_splits prod.splits)
  then have k2: "rooted (ts_os s2)"
  proof (elim disjE)
    assume "transfer_send_next_data i s1 = (st2, s2)"
    from send_next_paths [OF inv1 i1 this] show ?thesis using rooted_same [OF _ k1] by blast
  qed (use k1 in simp_all)
  have abort: "rooted (ts_os (snd (tftp_transfer_abort (Some i) u)))" if "rooted (ts_os u)" for u
    using that by (simp add: tftp_transfer_abort_def)
  have "rooted (ts_os (settle i st2 s2))"
    using abort [OF k2] release_rooted [of _ i] k2 by (simp add: settle_def Let_def)
  with k k1 abort show ?thesis
    unfolding handler_cases h e prod.case by (simp only: simp_thms split: if_split)
qed

end
