(* ===== verification/App_Runs.thy ===== *)
theory App_Runs
  imports App_Safety
begin

text \<open>
  What holds in every state of an orderly run of the program (\<open>orderly_reachable\<close>: no \<open>deinit\<close> or
  \<open>release\<close> while a transfer is in use), whatever else its client calls and whatever network,
  disk and kernel do: every resource has exactly one owner, a request that fails leaves nothing
  behind, an idle server holds its socket only, and the main loop ends only when \<open>poll\<close> fails.
\<close>

section \<open>A run to start from\<close>

definition demo_cfg :: tftp_config where
  "demo_cfg = \<lparr>TFTP_MAX_TRANSFERS = 2, TFTP_MAX_FILENAME_LENGTH = 8\<rparr>"

definition demo_disk :: "bytes \<rightharpoonup> bytes" where
  "demo_disk = [cstr ''tftp_root/a'' \<mapsto> [1, 2, 3]]"

definition demo_acquired :: app where
  "demo_acquired = snd (tftp_app_acquire (Some None) (app_init_state demo_cfg (os_start demo_disk)))"

definition demo_ready :: app where
  "demo_ready = snd (tftp_app_init demo_cfg (Some 0)
     (Some \<lparr>ac_server_port = 69, ac_max_transfers = 0\<rparr>) demo_acquired)"

definition demo_app :: app where
  "demo_app = snd (tftp_app_start (Some 0) demo_ready)"

lemma demo_acquired_in_use: "g_app_in_use demo_acquired"
  by (simp add: demo_acquired_def tftp_app_acquire_def app_init_state_def)

lemma demo_ready_reachable: "orderly_reachable demo_cfg {0, 1, 2} demo_ready"
proof -
  have "orderly_reachable demo_cfg {0, 1, 2} (app_init_state demo_cfg (os_start demo_disk))"
    by (rule orderly_reachable.start) (auto simp: os_start_def)
  moreover have "tftp_app_acquire (Some None) (app_init_state demo_cfg (os_start demo_disk)) =
      (fst (tftp_app_acquire (Some None) (app_init_state demo_cfg (os_start demo_disk))), demo_acquired)"
    by (simp add: demo_acquired_def)
  ultimately have r: "orderly_reachable demo_cfg {0, 1, 2} demo_acquired"
    by (rule orderly_step [OF _ app_step.acquire]) simp
  show ?thesis
    by (rule orderly_step [OF r app_step.init [OF demo_acquired_in_use]]) (simp_all add: demo_ready_def prod_eq_iff)
qed

lemma demo_ready_facts: "g_app_in_use demo_ready" "a_initialized (g_app demo_ready)" "\<not> a_running (g_app demo_ready)"
  by code_simp+

lemma demo_app_reachable: "orderly_reachable demo_cfg {0, 1, 2} demo_app"
  by (rule orderly_step [OF demo_ready_reachable app_step.start [OF demo_ready_facts(1)]])
    (simp_all add: demo_app_def prod_eq_iff)

lemma demo_app_facts: "g_app_in_use demo_app" "a_initialized (g_app demo_app)" "a_running (g_app demo_app)"
  "s_running (g_server (ap_srv demo_app))" "polls (ts_os (asys demo_app)) = []"
  by code_simp+

lemma demo_app_idle: "no_transfer (asys demo_app)"
  by code_simp

section \<open>Ownership\<close>

text \<open>
  C1: As long as the program is not shut down in the middle of a transfer (no \<open>tftp_app_deinit\<close>
  and no \<open>tftp_app_release\<close> while one is in use; the code does not prevent that, and
  \<open>shutdown_forgets_transfers\<close> shows that the property then fails), each resource has exactly one
  owner in every state that it reaches.  The open descriptors are those the program started with, one per open transport and one per open
  stream; every transport in use belongs to the server or to one transfer, every file object
  in use to one transfer; the reactor's table holds exactly the entries of the registered
  owners, each with the descriptor of its open transport; every transfer in use is active
  (registered, with transport and file); and the server runs exactly when it has its socket.
\<close>

theorem resources_have_one_owner:
  assumes "orderly_reachable cfg E a"
  shows "fds_owned E (asys a) \<and> transports_owned (s_transport (g_server (ap_srv a))) (asys a) \<and>
    files_owned (asys a) \<and>
    registrations_owned (s_transport (g_server (ap_srv a))) (s_registered (g_server (ap_srv a))) (asys a) \<and>
    (\<forall>t\<in>set (g_transfer_pool (asys a)). t_in_use t \<longrightarrow> active t) \<and>
    (s_running (g_server (ap_srv a)) \<longleftrightarrow> s_transport (g_server (ap_srv a)) \<noteq> None)"
proof -
  have inv: "srv_inv E (ap_srv a)" using orderly_reachable_inv [OF assms] by (simp add: app_inv_def)
  note t = tsys_invD [OF srv_invD(1) [OF inv]]
  have "s_running (g_server (ap_srv a)) \<longleftrightarrow> s_transport (g_server (ap_srv a)) \<noteq> None"
    using srv_invD(3) [OF inv] unfolding server_ok_def by blast
  then show ?thesis using t(5-8) srv_invD(2) [OF inv] by (simp add: all_active_def)
qed

theorem resources_have_one_owner_witness:
  "fds_owned {0, 1, 2} (asys demo_app) \<and> s_transport (g_server (ap_srv demo_app)) \<noteq> None"
  using resources_have_one_owner [OF demo_app_reachable] demo_app_facts(4) by simp

text \<open>
  C5: In an orderly run a request that fails, at any of its steps and for any reason (a bad datagram, no free
  transfer, socket or file object, a name that is refused, a missing file, a full reactor, an
  error of kernel or disk), leaves nothing behind: the same transfers, transports and file
  objects are in use as before, the same owners are registered, and every open descriptor
  still has its owner.
\<close>

theorem failed_request_leaks_nothing:
  assumes "orderly_reachable cfg E a" "a_initialized (g_app a)"
    and "tftp_server_process_event (Some 0) data n src (ap_srv a) = (st, w)" "st \<noteq> TFTP_OK"
  shows "transfer_used (sv_sys w) = transfer_used (asys a) \<and>
    g_transport_used (ts_udp (sv_sys w)) = g_transport_used (ts_udp (asys a)) \<and>
    {q. q < length (g_file_pool (ts_file (sv_sys w))) \<and> f_in_use (filo (sv_sys w) q)} =
      {q. q < length (g_file_pool (ts_file (asys a))) \<and> f_in_use (filo (asys a) q)} \<and>
    registrants (s_transport (g_server w)) (s_registered (g_server w)) (sv_sys w) =
      registrants (s_transport (g_server (ap_srv a))) (s_registered (g_server (ap_srv a))) (asys a) \<and>
    fds_owned E (sv_sys w) \<and> g_server w = g_server (ap_srv a) \<and> fs (ts_os (sv_sys w)) = fs (ts_os (asys a))"
proof -
  let ?S = "s_transport (g_server (ap_srv a))" let ?R = "s_registered (g_server (ap_srv a))"
  have app: "app_inv E a" by (rule orderly_reachable_inv [OF assms(1)])
  then have inv: "srv_inv E (ap_srv a)" by (simp add: app_inv_def)
  have r: "s_reactor (g_server (ap_srv a)) = Some 0"
    using app assms(2) srv_invD(3) [OF inv] by (simp add: app_inv_def app_ready_def server_ok_def)
  note p = process_event_safe [OF srv_invD(1) [OF inv] r assms(3)]
  then have i: "tsys_inv E ?S ?R (sv_sys w)" and same: "pool_same (asys a) (sv_sys w)"
    and f: "fs (ts_os (sv_sys w)) = fs (ts_os (asys a))" using assms(4) by simp_all
  note j = srv_invD(1) [OF inv]
  have g: "g_server w = g_server (ap_srv a)" using process_event_inv(3) [OF inv assms(3)] .
  have len: "length (g_transfer_pool (sv_sys w)) = length (g_transfer_pool (asys a))"
    using same by (simp add: pool_same_def)
  have tr: "t_in_use (tr (sv_sys w) k) = t_in_use (tr (asys a) k) \<and>
      t_transport (tr (sv_sys w) k) = t_transport (tr (asys a) k) \<and>
      t_file (tr (sv_sys w) k) = t_file (tr (asys a) k) \<and>
      t_registered (tr (sv_sys w) k) = t_registered (tr (asys a) k)"
    if "k < length (g_transfer_pool (asys a))" for k
    using same tsys_inv_tr [OF i] tsys_inv_tr [OF j] that len by (auto simp: pool_same_def transfer_ok_def)
  have maps: "map t_in_use (g_transfer_pool (sv_sys w)) = map t_in_use (g_transfer_pool (asys a))"
    "transports ?S (sv_sys w) = transports ?S (asys a)" "files (sv_sys w) = files (asys a)"
    using tr len by (auto simp: transports_def files_def intro!: nth_equalityI)
  have reg: "registrants ?S ?R (sv_sys w) = registrants ?S ?R (asys a)"
    unfolding registrants_def len using tr by auto
  have used: "{p. p < UDP_TRANSPORT_POOL_SIZE \<and> g_transport_used (ts_udp (sv_sys w)) ! p} =
      {p. p < UDP_TRANSPORT_POOL_SIZE \<and> g_transport_used (ts_udp (asys a)) ! p}"
    using tsys_invD(5) [OF i] tsys_invD(5) [OF j] maps(2) by (simp add: transports_owned_def)
  have "g_transport_used (ts_udp (sv_sys w)) = g_transport_used (ts_udp (asys a))"
    using used used_len [OF i] used_len [OF j] by (intro nth_equalityI) (auto simp: set_eq_iff)
  moreover have "{q. q < length (g_file_pool (ts_file (sv_sys w))) \<and> f_in_use (filo (sv_sys w) q)} =
      {q. q < length (g_file_pool (ts_file (asys a))) \<and> f_in_use (filo (asys a) q)}"
    using tsys_invD(6) [OF i] tsys_invD(6) [OF j] maps(3) by (simp add: files_owned_def)
  ultimately show ?thesis using maps(1) reg g f tsys_invD(7) [OF i] by simp
qed

theorem failed_request_leaks_nothing_witness:
  "g_transport_used (ts_udp (sv_sys (snd (tftp_server_process_event (Some 0) (Some [0, 2]) 2
     (Some sockaddr_zero) (ap_srv demo_app))))) = g_transport_used (ts_udp (asys demo_app))"
proof -
  have "fst (tftp_server_process_event (Some 0) (Some [0, 2]) 2 (Some sockaddr_zero) (ap_srv demo_app)) \<noteq> TFTP_OK"
    by code_simp
  then show ?thesis
    using failed_request_leaks_nothing [OF demo_app_reachable demo_app_facts(2), of "Some [0, 2]" 2
        "Some sockaddr_zero"] by (metis prod.collapse)
qed


section \<open>Idle and stopped\<close>

lemma distinct_singleton_set: "distinct xs \<Longrightarrow> set xs = {x} \<Longrightarrow> xs = [x]"
  by (cases xs) (auto simp: subset_singleton_iff)

lemma idle_held:
  assumes inv: "srv_inv E w" and n: "no_transfer (sv_sys w)"
  shows "held (transports (s_transport (g_server w)) (sv_sys w)) = {p. s_transport (g_server w) = Some p}"
    "held (files (sv_sys w)) = {}" "stream_fds (sv_sys w) = {}"
    "registrants (s_transport (g_server w)) (s_registered (g_server w)) (sv_sys w) =
      {(Server_udp_handler, 0, p) | p. s_registered (g_server w) \<and> s_transport (g_server w) = Some p}"
proof -
  let ?s = "sv_sys w"
  note t = srv_invD(1) [OF inv]
  have none: "t_transport x = None \<and> t_file x = None \<and> \<not> t_registered x" if "x \<in> set (g_transfer_pool ?s)" for x
    using tsys_invD(4) [OF t] n that by (auto simp: transfer_ok_def no_transfer_def)
  then show "held (transports (s_transport (g_server w)) ?s) = {p. s_transport (g_server w) = Some p}"
    by (auto simp: transports_def nth_Cons elim!: heldE intro: heldI [of 0] split: nat.splits)
  show hf: "held (files ?s) = {}" using none by (auto simp: files_def elim!: heldE)
  show "registrants (s_transport (g_server w)) (s_registered (g_server w)) ?s =
      {(Server_udp_handler, 0, p) | p. s_registered (g_server w) \<and> s_transport (g_server w) = Some p}"
    using none by (auto simp: registrants_def)
  have "\<not> f_open (filo ?s q)" if "q < length (g_file_pool (ts_file ?s))" for q
    using tsys_invD(6) [OF t] hf file_inv_openD [OF tsys_invD(2) [OF t], of q] that
    by (auto simp: files_owned_def)
  then have "held (file_streams (ts_file ?s, ts_os ?s)) = {}"
    by (auto elim!: heldE simp: open_stream_def)
  then have "dom (streams (ts_os ?s)) = {}" using tsys_invD(2) [OF t] by (simp add: file_inv_def)
  then show "stream_fds ?s = {}" by (auto simp: stream_fds_def)
qed

lemma idle_sockets:
  assumes inv: "srv_inv E w" and n: "no_transfer (sv_sys w)" and q: "q < UDP_TRANSPORT_POOL_SIZE"
  shows "g_transport_used (ts_udp (sv_sys w)) ! q \<longleftrightarrow> s_transport (g_server w) = Some q"
    "u_open (sock (sv_sys w) q) \<Longrightarrow> s_transport (g_server w) = Some q"
proof -
  have "held (transports (s_transport (g_server w)) (sv_sys w)) =
      {p. p < UDP_TRANSPORT_POOL_SIZE \<and> g_transport_used (ts_udp (sv_sys w)) ! p}"
    using tsys_invD(5) [OF srv_invD(1) [OF inv]] by (simp add: transports_owned_def)
  then show u: "g_transport_used (ts_udp (sv_sys w)) ! q \<longleftrightarrow> s_transport (g_server w) = Some q"
    using idle_held(1) [OF inv n] q by auto
  show "s_transport (g_server w) = Some q" if "u_open (sock (sv_sys w) q)"
    using u udp_inv_openD(2) [OF tsys_invD(1) [OF srv_invD(1) [OF inv]], of q] q that by simp
qed

text \<open>
  C9: In an orderly run, with no transfer in use, a running server holds exactly one transport, whose descriptor is
  the only one open besides those of the environment, one registration, its own, and no file
  object; a server that does not run holds nothing at all.  So whatever transfers came and
  went before, nothing of them is left.
\<close>

theorem idle_server_holds_only_its_socket:
  assumes "orderly_reachable cfg E a" "no_transfer (asys a)"
  shows "(\<forall>q<length (g_file_pool (ts_file (asys a))). \<not> f_in_use (filo (asys a) q)) \<and>
    (if s_running (g_server (ap_srv a))
     then \<exists>p. s_transport (g_server (ap_srv a)) = Some p \<and>
       (\<forall>q<UDP_TRANSPORT_POOL_SIZE. g_transport_used (ts_udp (asys a)) ! q \<longleftrightarrow> q = p) \<and>
       reg_table (ts_reactor (asys a)) = [reg_of (asys a) Server_udp_handler 0 p] \<and>
       set (fds (ts_os (asys a))) = insert (u_fd (sock (asys a) p)) E
     else (\<forall>q<UDP_TRANSPORT_POOL_SIZE. \<not> g_transport_used (ts_udp (asys a)) ! q) \<and>
       reg_table (ts_reactor (asys a)) = [] \<and> set (fds (ts_os (asys a))) = E)"
proof -
  let ?w = "ap_srv a" let ?s = "asys a"
  have inv: "srv_inv E ?w" using orderly_reachable_inv [OF assms(1)] by (simp add: app_inv_def)
  note t = srv_invD(1) [OF inv] and h = idle_held [OF inv assms(2)] and u = idle_sockets [OF inv assms(2)]
  have files: "\<forall>q<length (g_file_pool (ts_file ?s)). \<not> f_in_use (filo ?s q)"
    using tsys_invD(6) [OF t] h(2) by (auto simp: files_owned_def)
  have fds: "set (fds (ts_os ?s)) = E \<union> sock_fds ?s"
    using tsys_invD(7) [OF t] h(3) by (simp add: fds_owned_def)
  have table: "set (reg_table (ts_reactor ?s)) = (\<lambda>(h, c, p). reg_of ?s h c p) `
      {(Server_udp_handler, 0, p) | p. s_registered (g_server ?w) \<and> s_transport (g_server ?w) = Some p}"
    "distinct (reg_table (ts_reactor ?s))"
    using tsys_invD(8) [OF t] h(4) by (simp_all add: registrations_owned_def distinct_map)
  show ?thesis
  proof (cases "s_running (g_server ?w)")
    case False
    note idle = server_idle [OF inv False]
    have "sock_fds ?s = {}" using u(2) idle(1) by (auto simp: sock_fds_def)
    then show ?thesis using False files fds table(1) u(1) idle by simp
  next
    case True
    from server_running(1,2) [OF inv True] obtain p where p: "s_transport (g_server ?w) = Some p"
      and r: "s_registered (g_server ?w)" by blast
    have "tsys_inv E (Some p) True ?s" using t p r by simp
    note op = server_open(1) [OF this] and own = owner_server(1) [OF this]
    have "q = p" if "q < UDP_TRANSPORT_POOL_SIZE" "u_open (sock ?s q)" for q
      using u(2) [OF that] p by simp
    then have "sock_fds ?s = {u_fd (sock ?s p)}" unfolding sock_fds_def using op own(1) by blast
    then have fd: "set (fds (ts_os ?s)) = insert (u_fd (sock ?s p)) E" using fds by simp
    have "set (reg_table (ts_reactor ?s)) = {reg_of ?s Server_udp_handler 0 p}"
      using table(1) p r by simp
    then have tab: "reg_table (ts_reactor ?s) = [reg_of ?s Server_udp_handler 0 p]"
      using table(2) distinct_singleton_set by metis
    have "\<forall>q<UDP_TRANSPORT_POOL_SIZE. g_transport_used (ts_udp ?s) ! q \<longleftrightarrow> q = p"
      using u(1) p by auto
    with p tab fd have "\<exists>p. s_transport (g_server ?w) = Some p \<and>
       (\<forall>q<UDP_TRANSPORT_POOL_SIZE. g_transport_used (ts_udp ?s) ! q \<longleftrightarrow> q = p) \<and>
       reg_table (ts_reactor ?s) = [reg_of ?s Server_udp_handler 0 p] \<and>
       set (fds (ts_os ?s)) = insert (u_fd (sock ?s p)) E" by blast
    then show ?thesis unfolding if_P [OF True] using files by blast
  qed
qed

theorem idle_server_holds_only_its_socket_witness:
  "\<exists>p. s_transport (g_server (ap_srv demo_app)) = Some p \<and>
     set (fds (ts_os (asys demo_app))) = {u_fd (sock (asys demo_app) p), 0, 1, 2}"
  using idle_server_holds_only_its_socket [OF demo_app_reachable demo_app_idle] demo_app_facts(4)
  by auto


section \<open>The main loop\<close>

text \<open>
  C10: In an orderly run the main loop of a running program never returns as long as \<open>poll\<close> does not fail,
  whatever datagrams arrive and however the handlers treat them; and when it does return, then
  because \<open>poll\<close> failed, with \<open>TFTP_ERR_IO\<close>, never with \<open>TFTP_OK\<close>: nothing that runs inside
  the loop ends it in an orderly way.  The application still counts as running after that.
  The loop is the sequential one: only a handler runs inside it, and no function under src/
  calls \<open>reactor_stop\<close> from a handler, so a stop from another thread or from a signal handler
  (the comment in \<open>tftp_app_run\<close>) is not covered.
\<close>

theorem main_loop_ends_only_when_poll_fails:
  assumes "orderly_reachable cfg E a" "a_running (g_app a)"
  shows "(Poll_fail \<notin> set (polls (ts_os (asys a))) \<longrightarrow> tftp_app_run stacks (Some 0) a = None) \<and>
    (\<forall>st a'. tftp_app_run stacks (Some 0) a = Some (st, a') \<longrightarrow>
       st = TFTP_ERR_IO \<and> Poll_fail \<in> set (polls (ts_os (asys a))) \<and> tftp_app_is_running (Some 0) a')"
proof -
  note inv = orderly_reachable_inv [OF assms(1)]
  have i: "a_initialized (g_app a)" using app_not_ready [OF inv] assms(2) by blast
  have "st = TFTP_ERR_IO \<and> Poll_fail \<in> set (polls (ts_os (asys a))) \<and> tftp_app_is_running (Some 0) a'"
    if "tftp_app_run stacks (Some 0) a = Some (st, a')" for st a'
    using app_run_inv [OF inv that] i assms(2) by (simp add: tftp_app_is_running_def)
  then show ?thesis by (cases "tftp_app_run stacks (Some 0) a") auto
qed

lemma run_returns:
  assumes inv: "app_inv E a" and r: "a_running (g_app a)" and p: "polls (ts_os (asys a)) = Poll_fail # ps"
  shows "tftp_app_run stacks (Some 0) a \<noteq> None"
proof -
  have i: "a_initialized (g_app a)" using app_not_ready [OF inv] r by blast
  then have a: "app_ready a" "srv_inv E (ap_srv a)" using inv by (simp_all add: app_inv_def)
  let ?w = "set_running srv_host True (ap_srv a)"
  have h: "h_os srv_host ?w = ts_os (asys a)" "rc_initialized (g_reactor (h_reactor srv_host ?w))"
    "rc_running (g_reactor (h_reactor srv_host ?w))"
    "rc_initialized (g_reactor (h_reactor srv_host (ap_srv a)))" "a_reactor (g_app a) = Some 0"
    using a(1) by (simp_all add: set_running_def srv_host_def Let_def app_ready_def)
  obtain st w where o: "reactor_run_once srv_host (stacks 0) (Some 0) 100 ?w = (st, w)" by (meson surj_pair)
  from loop.run_once_result [OF running_host_inv [OF app_host [OF a(2)]] h(2) o] p h(1)
  have "st = TFTP_ERR_IO" by simp
  with o h have "reactor_run srv_host stacks (Some 0) (ap_srv a) \<noteq> None"
    unfolding reactor_run_def by (subst reactor_run_loop.simps) simp
  with i r h(5) show ?thesis by (auto simp: tftp_app_run_def)
qed

definition demo_poll_fails :: app where
  "demo_poll_fails = env_change ((ts_os (asys demo_app))\<lparr>polls := [Poll_fail]\<rparr>) demo_app"

theorem main_loop_ends_only_when_poll_fails_witness:
  "tftp_app_run (\<lambda>n. []) (Some 0) demo_app = None \<and>
   map_option fst (tftp_app_run (\<lambda>n. []) (Some 0) demo_poll_fails) = Some TFTP_ERR_IO"
proof
  show "tftp_app_run (\<lambda>n. []) (Some 0) demo_app = None"
    using main_loop_ends_only_when_poll_fails [OF demo_app_reachable demo_app_facts(3)] demo_app_facts(5)
    by simp
  have r: "orderly_reachable demo_cfg {0, 1, 2} demo_poll_fails"
    unfolding demo_poll_fails_def by (rule orderly_environment [OF demo_app_reachable]) simp_all
  moreover have a: "a_running (g_app demo_poll_fails)"
    using demo_app_facts(3) by (simp add: demo_poll_fails_def env_change_def)
  moreover have "tftp_app_run (\<lambda>n. []) (Some 0) demo_poll_fails \<noteq> None"
    by (rule run_returns [OF orderly_reachable_inv [OF r] a]) (simp add: demo_poll_fails_def env_change_def)
  ultimately show "map_option fst (tftp_app_run (\<lambda>n. []) (Some 0) demo_poll_fails) = Some TFTP_ERR_IO"
    using main_loop_ends_only_when_poll_fails [of demo_cfg "{0, 1, 2}" demo_poll_fails "\<lambda>n. []"] by auto
qed

section \<open>The life cycle\<close>

text \<open>
  C14: The life cycle of the program.  On an application that is acquired but not initialised,
  \<open>tftp_app_init\<close> succeeds for every configuration with a port other than 0; \<open>start\<close> then ends
  running exactly when it returns \<open>TFTP_OK\<close>, and otherwise holds nothing; \<open>stop\<close> always
  succeeds and gives the server's socket back; and \<open>deinit\<close> leaves every descriptor, transport
  and file object as at program start.  All of this for a program with no transfer in use; a
  \<open>stop\<close> or \<open>deinit\<close> in the middle of a transfer leaves that transfer's resources.
\<close>

theorem application_life_cycle:
  assumes "orderly_reachable cfg E a" "g_app_in_use a" "no_transfer (asys a)"
  shows "(\<not> a_initialized (g_app a) \<and> ac_server_port c \<noteq> 0 \<longrightarrow>
      (\<exists>a'. tftp_app_init cfg (Some 0) (Some c) a = (TFTP_OK, a') \<and> a_initialized (g_app a'))) \<and>
    (\<forall>st a'. tftp_app_start (Some 0) a = (st, a') \<and> \<not> a_running (g_app a) \<longrightarrow>
      (if st = TFTP_OK then tftp_app_is_running (Some 0) a' else set (fds (ts_os (asys a'))) = E)) \<and>
    (\<forall>st a'. tftp_app_stop (Some 0) a = (st, a') \<longrightarrow> st = TFTP_OK \<and> \<not> tftp_app_is_running (Some 0) a' \<and>
      set (fds (ts_os (asys a'))) = E) \<and>
    (\<forall>st a'. tftp_app_deinit (Some 0) a = (st, a') \<longrightarrow> st = TFTP_OK \<and> \<not> a_initialized (g_app a') \<and>
      set (fds (ts_os (asys a'))) = E \<and>
      (\<forall>q<UDP_TRANSPORT_POOL_SIZE. \<not> g_transport_used (ts_udp (asys a')) ! q) \<and>
      (\<forall>q<length (g_file_pool (ts_file (asys a'))). \<not> f_in_use (filo (asys a') q)))"
proof (intro conjI allI impI)
  note inv = orderly_reachable_inv [OF assms(1)]
  have quiet: "set (fds (ts_os (asys b))) = E \<and>
      (\<forall>q<UDP_TRANSPORT_POOL_SIZE. \<not> g_transport_used (ts_udp (asys b)) ! q) \<and>
      (\<forall>q<length (g_file_pool (ts_file (asys b))). \<not> f_in_use (filo (asys b) q))"
    if "orderly_reachable cfg E b" "g_transfer_pool (asys b) = g_transfer_pool (asys a)" "\<not> a_running (g_app b)" for b
  proof -
    note i = orderly_reachable_inv [OF that(1)]
    have si: "srv_inv E (ap_srv b)" and n: "no_transfer (asys b)"
      using i that(2) assms(3) by (simp_all add: app_inv_def no_transfer_def)
    have "\<not> s_running (g_server (ap_srv b))"
    proof (cases "a_initialized (g_app b)")
      case True
      with i that(3) show ?thesis by (simp add: app_inv_def app_ready_def)
    next
      case False
      with i blank_server(4) [OF si] show ?thesis by (simp add: app_inv_def app_blank_def)
    qed
    note idle = server_idle [OF si this]
    have u: "\<not> g_transport_used (ts_udp (asys b)) ! q" "\<not> u_open (sock (asys b) q)"
      if "q < UDP_TRANSPORT_POOL_SIZE" for q
      using idle_sockets [OF si n that] idle(1) by auto
    then have "sock_fds (asys b) = {}" by (auto simp: sock_fds_def)
    then have "set (fds (ts_os (asys b))) = E"
      using tsys_invD(7) [OF srv_invD(1) [OF si]] idle_held(3) [OF si n] by (simp add: fds_owned_def)
    moreover have "\<forall>q<length (g_file_pool (ts_file (asys b))). \<not> f_in_use (filo (asys b) q)"
      using tsys_invD(6) [OF srv_invD(1) [OF si]] idle_held(2) [OF si n] by (auto simp: files_owned_def)
    ultimately show ?thesis using u by blast
  qed
  show "\<exists>a'. tftp_app_init cfg (Some 0) (Some c) a = (TFTP_OK, a') \<and> a_initialized (g_app a')"
    if "\<not> a_initialized (g_app a) \<and> ac_server_port c \<noteq> 0"
  proof -
    obtain st a' where e: "tftp_app_init cfg (Some 0) (Some c) a = (st, a')" by (meson surj_pair)
    with app_init_inv [OF inv assms(2) e] that show ?thesis by simp
  qed
  fix st a'
  { assume e: "tftp_app_start (Some 0) a = (st, a') \<and> \<not> a_running (g_app a)"
    then have s: "tftp_app_start (Some 0) a = (st, a')" by blast
    note i = app_start_inv [OF inv s]
    have "orderly_reachable cfg E a'" by (rule orderly_step [OF assms(1) app_step.start [OF assms(2) s]]) simp
    from quiet [OF this] i e
    show "if st = TFTP_OK then tftp_app_is_running (Some 0) a' else set (fds (ts_os (asys a'))) = E"
      by (simp add: tftp_app_is_running_def) }
  { assume s: "tftp_app_stop (Some 0) a = (st, a')"
    note i = app_stop_inv [OF inv s]
    have r: "orderly_reachable cfg E a'" by (rule orderly_step [OF assms(1) app_step.stop [OF assms(2) s]]) simp
    show "st = TFTP_OK" "\<not> tftp_app_is_running (Some 0) a'" "set (fds (ts_os (asys a'))) = E"
      using i quiet [OF r] by (simp_all add: tftp_app_is_running_def) }
  { assume s: "tftp_app_deinit (Some 0) a = (st, a')"
    note i = app_deinit_inv [OF inv assms(3) s]
    have r: "orderly_reachable cfg E a'"
      by (rule orderly_reachable.step [OF assms(1) _ app_step.deinit [OF assms(2) s]])
        (simp add: orderly_def assms(3))
    have "\<not> a_running (g_app a')" using i app_not_ready by blast
    with i quiet [OF r] show "st = TFTP_OK" "\<not> a_initialized (g_app a')" "set (fds (ts_os (asys a'))) = E"
      "\<And>q. q < UDP_TRANSPORT_POOL_SIZE \<Longrightarrow> \<not> g_transport_used (ts_udp (asys a')) ! q"
      "\<And>q. q < length (g_file_pool (ts_file (asys a'))) \<Longrightarrow> \<not> f_in_use (filo (asys a') q)"
      by simp_all }
qed

theorem application_life_cycle_witness:
  "a_running (g_app demo_app) \<and>
   set (fds (ts_os (asys (snd (tftp_app_deinit (Some 0) demo_app))))) = {0, 1, 2}"
  using application_life_cycle [OF demo_app_reachable demo_app_facts(1) demo_app_idle] demo_app_facts(3)
  by (metis prod.collapse)

end
