(* ===== verification/Protocol_Runs.thy ===== *)
theory Protocol_Runs
  imports Stream_Paths App_Runs
begin

text \<open>
  What clients see of a running server: every datagram's effect on a transfer, the delivery of
  a file block by block, the paths that file names can reach and the requests that are refused.
  The states are those of orderly runs: no shutdown happened while a transfer was in use.
\<close>

section \<open>Transfers of a reachable state\<close>

lemma reachable_sys:
  "orderly_reachable cfg E a \<Longrightarrow>
   tsys_inv E (s_transport (g_server (ap_srv a))) (s_registered (g_server (ap_srv a))) (asys a)"
  using orderly_reachable_inv srv_invD(1) by (auto simp: app_inv_def)

lemma reachable_transfer:
  assumes r: "orderly_reachable cfg E a" and i: "i < length (g_transfer_pool (asys a))" "t_in_use (tr (asys a) i)"
  shows "t_initialized (tr (asys a) i)" "\<exists>p. t_transport (tr (asys a) i) = Some p \<and> u_open (sock (asys a) p)"
proof -
  have inv: "srv_inv E (ap_srv a)" using orderly_reachable_inv [OF r] by (simp add: app_inv_def)
  have act: "active (tr (asys a) i)" by (rule all_activeD [OF srv_invD(2) [OF inv] i])
  then show "t_initialized (tr (asys a) i)" by (simp add: active_def)
  from act obtain p where p: "t_transport (tr (asys a) i) = Some p" "t_registered (tr (asys a) i)"
    by (auto simp: active_def)
  let ?S = "s_transport (g_server (ap_srv a))" let ?R = "s_registered (g_server (ap_srv a))"
  have "(Transfer_udp_handler, i, p) \<in> registrants ?S ?R (asys a)" using p i(1) by (simp add: registrants_def)
  with unused_not_registered [OF reachable_sys [OF r]] p(1)
  show "\<exists>p. t_transport (tr (asys a) i) = Some p \<and> u_open (sock (asys a) p)" by blast
qed

lemma running_server:
  assumes r: "orderly_reachable cfg E a" and run: "a_running (g_app a)"
  shows "srv_inv E (ap_srv a)" "s_running (g_server (ap_srv a))"
proof -
  note inv = orderly_reachable_inv [OF r]
  have "a_initialized (g_app a)" using app_not_ready [OF inv] run by blast
  then show "srv_inv E (ap_srv a)" "s_running (g_server (ap_srv a))"
    using inv run by (simp_all add: app_inv_def app_ready_def)
qed

section \<open>Delivery of a file\<close>

text \<open>
  C2: A read request for a file of any length is served completely.  On a running server (in an
  orderly run) with a
  free transfer, transport, file object and registration, and with no call failing, the
  request is accepted; and when the client acknowledges every block in turn, the datagrams
  sent are exactly the DATA blocks 1, 2, 3, \<dots> (the number taken mod 65536) of 512 bytes each,
  the last one shorter, which joined give the file.  After the last acknowledgement the
  transfer is free again.
\<close>

theorem read_request_delivers_file:
  assumes "orderly_reachable cfg E a" "a_running (g_app a)"
    and "valid_request TFTP_OPCODE_RRQ fname mode" "take n b = request_bytes TFTP_OPCODE_RRQ fname mode"
      "n \<le> length b" "safe_name fname" "length fname \<le> TFTP_MAX_FILENAME_LENGTH cfg"
    and "\<exists>t\<in>set (g_transfer_pool (asys a)). \<not> t_in_use t" "has_room (asys a)" "faults (ts_os (asys a)) = []"
    and "fs (ts_os (asys a)) (cstr ''tftp_root/'' @ fname) = Some d"
    and "rx (ts_os (asys a)) = acks peer [1..<Suc (block_count d)] @ rest"
  shows "\<exists>w i p. tftp_server_process_event (Some 0) (Some b) n (Some peer) (ap_srv a) = (TFTP_OK, w) \<and>
    t_transport (tr (sv_sys w) i) = Some p \<and> t_in_use (tr (sv_sys w) i) \<and>
    (let fd = u_fd (sock (sv_sys w) p);
         s = (transfer_udp_handler fd REACTOR_EVENT_READ (Some i) ^^ block_count d) (sv_sys w)
     in sent (ts_os s) = sent (ts_os (asys a)) @ blocks_from d fd peer [0..<block_count d] \<and>
        \<not> t_in_use (tr s i)) \<and>
    concat (map (file_block d) [0..<block_count d]) = d"
proof -
  note srv = running_server [OF assms(1,2)]
  have sizes: "name_sizes (asys a) = replicate (TFTP_MAX_TRANSFERS cfg) (Suc (TFTP_MAX_FILENAME_LENGTH cfg))"
    using orderly_reachable_sizes [OF assms(1)] by simp
  from request_serves [OF srv sizes assms(3-11)] obtain w i p S R where
    e: "tftp_server_process_event (Some 0) (Some b) n (Some peer) (ap_srv a) = (TFTP_OK, w)"
    and v: "serving d 1 i (sv_sys w)" "t_transport (tr (sv_sys w) i) = Some p"
      "t_peer (tr (sv_sys w) i) = peer" "rx (ts_os (sv_sys w)) = rx (ts_os (asys a))"
      "sent (ts_os (sv_sys w)) = sent (ts_os (asys a)) @ blocks_from d (u_fd (sock (sv_sys w) p)) peer [0]"
    and inv: "tsys_inv E S R (sv_sys w)" "i < length (g_transfer_pool (sv_sys w))" by blast
  define m where "m = length d div TFTP_BLOCK_SIZE"
  have m: "1 + m = block_count d" by (simp add: m_def block_count_def)
  let ?fd = "u_fd (sock (sv_sys w) p)"
  have "rx (ts_os (sv_sys w)) = acks (t_peer (tr (sv_sys w) i)) [1..<Suc (1 + m)] @ rest"
    using v(3,4) assms(12) m by simp
  from acks_delivered [OF inv v(1,2) m this refl] v(3,5)
  have "sent (ts_os ((transfer_udp_handler ?fd REACTOR_EVENT_READ (Some i) ^^ Suc m) (sv_sys w))) =
      sent (ts_os (asys a)) @ blocks_from d ?fd peer ([0] @ [1..<1 + m])"
    "\<not> t_in_use (tr ((transfer_udp_handler ?fd REACTOR_EVENT_READ (Some i) ^^ Suc m) (sv_sys w)) i)"
    by (simp_all add: blocks_from_def)
  moreover have "[0] @ [1..<1 + m] = [0..<block_count d]" using m by (simp add: upt_conv_Cons flip: m)
  moreover have "Suc m = block_count d" using m by simp
  moreover have "t_in_use (tr (sv_sys w) i)"
    using v(1) tsys_inv_tr [OF inv] by (auto simp: serving_def transfer_ok_def)
  ultimately show ?thesis using e v(2) blocks_join [of d] unfolding Let_def by metis
qed

definition demo_client :: app where
  "demo_client = env_change ((ts_os (asys demo_app))\<lparr>rx := acks sockaddr_zero [1..<Suc 1]\<rparr>) demo_app"

lemma demo_client_reachable: "orderly_reachable demo_cfg {0, 1, 2} demo_client"
  unfolding demo_client_def by (rule orderly_environment [OF demo_app_reachable]) simp_all

lemma demo_client_same:
  "asys demo_client = (asys demo_app)\<lparr>ts_os := (ts_os (asys demo_app))\<lparr>rx := acks sockaddr_zero [1..<Suc 1]\<rparr>\<rparr>"
  "g_app demo_client = g_app demo_app"
  by (simp_all add: demo_client_def env_change_def)

lemma demo_app_room: "g_transport_used (ts_udp (asys demo_app)) = [True, False]"
  "map f_in_use (g_file_pool (ts_file (asys demo_app))) = [False, False]"
  "rc_initialized (g_reactor (ts_reactor (asys demo_app)))"
  "length (reg_table (ts_reactor (asys demo_app))) < rc_max_handlers (g_reactor (ts_reactor (asys demo_app)))"
  "map t_in_use (g_transfer_pool (asys demo_app)) = [False, False]"
  "faults (ts_os (asys demo_app)) = []" "sent (ts_os (asys demo_app)) = []"
  by code_simp+

lemma demo_app_file: "fs (ts_os (asys demo_app)) (cstr ''tftp_root/'' @ cstr ''a'') = Some [1, 2, 3]"
  by code_simp

lemma demo_client_room: "has_room (asys demo_client)"
proof -
  have "\<exists>p<UDP_TRANSPORT_POOL_SIZE. \<not> g_transport_used (ts_udp (asys demo_app)) ! p"
    unfolding demo_app_room(1) by (rule exI [of _ 1]) (simp add: UDP_TRANSPORT_POOL_SIZE_def)
  moreover have "\<exists>f\<in>set (g_file_pool (ts_file (asys demo_app))). \<not> f_in_use f"
    using demo_app_room(2) by (cases "g_file_pool (ts_file (asys demo_app))") auto
  ultimately show ?thesis
    unfolding demo_client_same has_room_def using demo_app_room(3,4) by simp
qed

lemma demo_client_free: "\<exists>t\<in>set (g_transfer_pool (asys demo_client)). \<not> t_in_use t"
  using demo_app_room(5) unfolding demo_client_same
  by (cases "g_transfer_pool (asys demo_app)") auto

definition demo_request :: bytes where
  "demo_request = request_bytes TFTP_OPCODE_RRQ (cstr ''a'') (cstr ''octet'')"

lemma demo_request_valid: "valid_request TFTP_OPCODE_RRQ (cstr ''a'') (cstr ''octet'')" "safe_name (cstr ''a'')"
  by code_simp+

theorem read_request_delivers_file_witness:
  "\<exists>w i fd. tftp_server_process_event (Some 0) (Some demo_request) (length demo_request)
      (Some sockaddr_zero) (ap_srv demo_client) = (TFTP_OK, w) \<and>
    sent (ts_os (transfer_udp_handler fd REACTOR_EVENT_READ (Some i) (sv_sys w))) =
      [(fd, sockaddr_zero, encode (Data 1 [1, 2, 3]))] \<and>
    \<not> t_in_use (tr (transfer_udp_handler fd REACTOR_EVENT_READ (Some i) (sv_sys w)) i)"
proof -
  have c: "block_count [1, 2, 3] = 1" by (simp add: block_count_def block_bytes)
  have b: "blocks_from [1, 2, 3] fd sockaddr_zero [0..<1] = [(fd, sockaddr_zero, encode (Data 1 [1, 2, 3]))]" for fd
    by (simp add: blocks_from_def file_block_def block_bytes)
  have run: "a_running (g_app demo_client)" using demo_app_facts(3) by (simp add: demo_client_same)
  have os: "faults (ts_os (asys demo_client)) = []" "sent (ts_os (asys demo_client)) = []"
    "fs (ts_os (asys demo_client)) (cstr ''tftp_root/'' @ cstr ''a'') = Some [1, 2, 3]"
    "rx (ts_os (asys demo_client)) = acks sockaddr_zero [1..<Suc (block_count [1, 2, 3])] @ []"
    using demo_app_room(6,7) demo_app_file unfolding demo_client_same c by simp_all
  have l: "length (cstr ''a'') \<le> TFTP_MAX_FILENAME_LENGTH demo_cfg" by (simp add: cstr_def demo_cfg_def)
  have t: "take (length demo_request) demo_request = request_bytes TFTP_OPCODE_RRQ (cstr ''a'') (cstr ''octet'')"
    by (simp add: demo_request_def)
  from read_request_delivers_file [OF demo_client_reachable run demo_request_valid(1) t le_refl
      demo_request_valid(2) l demo_client_free demo_client_room os(1,3,4)]
  show ?thesis unfolding c b os(2) by (auto simp: Let_def)
qed

section \<open>One datagram\<close>

text \<open>A state with a transfer that has sent its only block, for the witnesses.\<close>

lemma demo_server: "\<exists>w i p. srv_inv {0, 1, 2} w \<and> s_running (g_server w) \<and>
    app_inv {0, 1, 2} (demo_client\<lparr>ap_srv := w\<rparr>) \<and> i < length (g_transfer_pool (sv_sys w)) \<and>
    serving [1, 2, 3] 1 i (sv_sys w) \<and> t_transport (tr (sv_sys w) i) = Some p \<and>
    t_peer (tr (sv_sys w) i) = sockaddr_zero \<and>
    rx (ts_os (sv_sys w)) = [Rx_data sockaddr_zero (encode (Ack 1))]"
proof -
  have run: "a_running (g_app demo_client)" using demo_app_facts(3) by (simp add: demo_client_same)
  have sizes: "name_sizes (asys demo_client) = replicate 2 (Suc 8)"
    using orderly_reachable_sizes [OF demo_client_reachable] by (simp add: demo_cfg_def)
  have os: "faults (ts_os (asys demo_client)) = []"
    "fs (ts_os (asys demo_client)) (cstr ''tftp_root/'' @ cstr ''a'') = Some [1, 2, 3]"
    "rx (ts_os (asys demo_client)) = [Rx_data sockaddr_zero (encode (Ack 1))]"
    using demo_app_room(6) demo_app_file unfolding demo_client_same by (simp_all add: acks_def)
  have l: "length (cstr ''a'') \<le> 8" by (simp add: cstr_def)
  have t: "take (length demo_request) demo_request = request_bytes TFTP_OPCODE_RRQ (cstr ''a'') (cstr ''octet'')"
    by (simp add: demo_request_def)
  have srv: "srv_inv {0, 1, 2} (ap_srv demo_client)" "s_running (g_server (ap_srv demo_client))"
    using running_server [OF demo_client_reachable run] by blast+
  from request_serves [OF srv sizes demo_request_valid(1) t le_refl demo_request_valid(2) l
      demo_client_free demo_client_room os(1,2), of sockaddr_zero] os(3)
  obtain w i p where w: "serving [1, 2, 3] 1 i (sv_sys w)" "t_transport (tr (sv_sys w) i) = Some p"
    "t_peer (tr (sv_sys w) i) = sockaddr_zero" "i < length (g_transfer_pool (sv_sys w))"
    "rx (ts_os (sv_sys w)) = [Rx_data sockaddr_zero (encode (Ack 1))]"
    and e: "tftp_server_process_event (Some 0) (Some demo_request) (length demo_request)
      (Some sockaddr_zero) (ap_srv demo_client) = (TFTP_OK, w)" by auto
  note pe = process_event_inv [OF srv(1) e]
  have run2: "s_running (g_server w)" using pe(3) srv(2) by simp
  have inv: "app_inv {0, 1, 2} demo_client" by (rule orderly_reachable_inv [OF demo_client_reachable])
  have "a_initialized (g_app demo_client)" using demo_app_facts(2) by (simp add: demo_client_same)
  then have "app_inv {0, 1, 2} (demo_client\<lparr>ap_srv := w\<rparr>)"
    by (rule app_round_inv [OF inv]) (rule host_invI [OF pe(1-4) app_host [OF srv(1)]])
  with w run2 pe(1) show ?thesis by blast
qed

lemma demo_served: "\<exists>s i p S R. tsys_inv {0, 1, 2} S R s \<and> i < length (g_transfer_pool s) \<and>
    serving [1, 2, 3] 1 i s \<and> t_transport (tr s i) = Some p \<and> t_peer (tr s i) = sockaddr_zero \<and>
    rx (ts_os s) = [Rx_data sockaddr_zero (encode (Ack 1))]"
  using demo_server srv_invD(1) by blast

lemma demo_busy_app: "\<exists>a i. app_inv {0, 1, 2} a \<and> a_initialized (g_app a) \<and> i < length (g_transfer_pool (asys a)) \<and>
    t_in_use (tr (asys a) i)"
proof -
  obtain w i p where w: "app_inv {0, 1, 2} (demo_client\<lparr>ap_srv := w\<rparr>)" "srv_inv {0, 1, 2} w"
    "i < length (g_transfer_pool (sv_sys w))" "t_transport (tr (sv_sys w) i) = Some p"
    using demo_server by blast
  have "t_in_use (tr (sv_sys w) i)"
    using tsys_inv_tr [OF srv_invD(1) [OF w(2)] w(3)] w(4) by (auto simp: transfer_ok_def)
  moreover have "a_initialized (g_app (demo_client\<lparr>ap_srv := w\<rparr>))"
    using demo_app_facts(2) by (simp add: demo_client_same)
  ultimately show ?thesis using w(1,3) by (intro exI [of _ "demo_client\<lparr>ap_srv := w\<rparr>"] exI [of _ i]) simp
qed

text \<open>
  C4: What one datagram does to a transfer that waits for an acknowledgement.  A datagram of
  another sender only leaves the queue.  From the peer, the exact bytes of the expected
  acknowledgement send the next block, or end the transfer after the last one; every other
  datagram, a duplicate acknowledgement or an ERROR among them, ends the transfer: nothing is
  sent and the slot is free again.  No other transfer is touched.
\<close>

theorem datagram_reaction:
  assumes "tsys_inv E S R s" "i < length (g_transfer_pool s)" "t_initialized (tr s i)"
      "t_state (tr s i) = TFTP_TRANSFER_WAIT_ACK" "t_transport (tr s i) = Some p" "u_open (sock s p)"
    and "rx (ts_os s) = Rx_data from d # rest"
    and "s' = transfer_udp_handler (u_fd (sock s p)) REACTOR_EVENT_READ (Some i) s"
  shows "(\<not> transfer_same_peer (t_peer (tr s i)) from \<longrightarrow> s' = next_rx s) \<and>
    (transfer_same_peer (t_peer (tr s i)) from \<longrightarrow>
      (if d = encode (Ack (t_expected_block (tr s i))) \<and> \<not> t_final_data (tr s i)
       then s' = (case transfer_send_next_data i (next_rx s) of (st, u) \<Rightarrow> settle i st u)
       else tr s' i = retired (length (t_filename (tr s i))) \<and> sent (ts_os s') = sent (ts_os s))) \<and>
    (\<forall>j. j \<noteq> i \<longrightarrow> tr s' j = tr s j)"
  using assms by (rule datagram_reaction_facts)

theorem datagram_reaction_witness:
  "\<exists>s i p. serving [1, 2, 3] 1 i s \<and> rx (ts_os s) = [Rx_data sockaddr_zero (encode (Ack 1))] \<and>
     \<not> t_in_use (tr (transfer_udp_handler (u_fd (sock s p)) REACTOR_EVENT_READ (Some i) s) i)"
proof -
  obtain s i p S R where s: "tsys_inv {0, 1, 2} S R s" "i < length (g_transfer_pool s)"
    "serving [1, 2, 3] 1 i s" "t_transport (tr s i) = Some p" "t_peer (tr s i) = sockaddr_zero"
    "rx (ts_os s) = [Rx_data sockaddr_zero (encode (Ack 1))]" using demo_served by blast
  have t: "t_initialized (tr s i)" "t_state (tr s i) = TFTP_TRANSFER_WAIT_ACK" "u_open (sock s p)"
    "t_final_data (tr s i)" using s(3,4) by (auto simp: serving_def block_count_def block_bytes)
  have "transfer_same_peer (t_peer (tr s i)) sockaddr_zero" using s(5) by simp
  with datagram_reaction [OF s(1,2) t(1,2) s(4) t(3) s(6) refl] t(4)
  have "tr (transfer_udp_handler (u_fd (sock s p)) REACTOR_EVENT_READ (Some i) s) i =
      retired (length (t_filename (tr s i)))" by simp
  then have "\<not> t_in_use (tr (transfer_udp_handler (u_fd (sock s p)) REACTOR_EVENT_READ (Some i) s) i)"
    by simp
  with s(3,6) show ?thesis by blast
qed

text \<open>
  C3: The handler implements the abstract sender.  In a state where transfer \<open>i\<close> has sent the
  first \<open>n\<close> blocks of the file \<open>c\<close>, the acknowledgement of block \<open>n\<close> makes it send what
  \<open>sender_reply\<close> says and moves it to the state with \<open>n + 1\<close> blocks sent, or ends it where the
  sender has no more to say.  The count \<open>n\<close> is unbounded, the number on the wire is \<open>n mod 65536\<close>.
\<close>

theorem handler_refines_sender:
  assumes "tsys_inv E S R s" "i < length (g_transfer_pool s)" "serving c n i s"
    and "t_transport (tr s i) = Some p"
    and "rx (ts_os s) = Rx_data (t_peer (tr s i)) (encode (Ack (of_nat n))) # rest"
    and "s' = transfer_udp_handler (u_fd (sock s p)) REACTOR_EVENT_READ (Some i) s"
  shows "case sender_reply c n of
      None \<Rightarrow> tr s' i = retired (length (t_filename (tr s i))) \<and> sent (ts_os s') = sent (ts_os s)
    | Some m \<Rightarrow> serving c (Suc n) i s' \<and>
        sent (ts_os s') = sent (ts_os s) @ [(u_fd (sock s p), t_peer (tr s i), encode m)]"
proof (cases "n = block_count c")
  case True
  with ack_ends_transfer [OF assms(1,2) _ assms(4), of c rest] assms(3,5,6) show ?thesis
    by (simp add: sender_reply_def)
next
  case False
  with assms(3) have "n < block_count c" by (simp add: serving_def)
  from ack_sends_next [OF assms(1-4) this assms(5)] False assms(6) show ?thesis
    by (simp add: sender_reply_def)
qed

theorem handler_refines_sender_witness:
  "\<exists>s i p. serving [1, 2, 3] 1 i s \<and> sender_reply [1, 2, 3] 1 = None \<and>
     t_state (tr (transfer_udp_handler (u_fd (sock s p)) REACTOR_EVENT_READ (Some i) s) i) = TFTP_TRANSFER_IDLE"
proof -
  obtain s i p S R where s: "tsys_inv {0, 1, 2} S R s" "i < length (g_transfer_pool s)"
    "serving [1, 2, 3] 1 i s" "t_transport (tr s i) = Some p" "t_peer (tr s i) = sockaddr_zero"
    "rx (ts_os s) = [Rx_data sockaddr_zero (encode (Ack 1))]" using demo_served by blast
  have n: "sender_reply [1, 2, 3] 1 = None" by (simp add: sender_reply_def block_count_def block_bytes)
  have "rx (ts_os s) = Rx_data (t_peer (tr s i)) (encode (Ack (of_nat 1))) # []" using s(5,6) by simp
  from handler_refines_sender [OF s(1-4) this refl] n
  have "t_state (tr (transfer_udp_handler (u_fd (sock s p)) REACTOR_EVENT_READ (Some i) s) i) = TFTP_TRANSFER_IDLE"
    by simp
  with s(3) n show ?thesis by blast
qed

section \<open>Names, refusals and capacity\<close>

text \<open>
  C8: No request leaves the directory \<open>tftp_root\<close>.  A fresh transfer accepts a name exactly when it
  is non-empty, neither \<open>.\<close> nor \<open>..\<close>, free of slashes and backslashes, and fits the array of the
  transfer; a refused name changes nothing.  When the accepted transfer is then processed, in
  whatever environment, the only stream that can be opened is one for reading on the path
  \<open>tftp_root/\<close> followed by the whole name, nothing of it cut; every other open stream keeps its
  path and the files on disk do not change; and if the processing succeeds, that stream is open
  and is the one that the transfer's file object reads.
\<close>

theorem names_stay_in_root:
  assumes "tsys_inv E S R s" "i < length (g_transfer_pool s)"
    and "t_in_use (tr s i)" "t_initialized (tr s i)" "\<not> t_registered (tr s i)"
      "t_transport (tr s i) = None" "t_file (tr s i) = None"
    and "xc_opcode c = TFTP_OPCODE_RRQ" "xc_reactor c = Some 0" "xc_filename c = Some f"
  defines "path \<equiv> cstr ''tftp_root/'' @ c_string f"
  defines "opened \<equiv> (stream_paths (ts_os s))(next_stream (ts_os s) \<mapsto> path)"
  shows "if safe_name (c_string f) \<and> length (c_string f) < length (t_filename (tr s i))
    then \<exists>s'. tftp_transfer_start (Some i) (Some c) s = (TFTP_OK, s') \<and> ts_os s' = ts_os s \<and>
      (\<forall>st s''. tftp_transfer_process (Some i) s' = (st, s'') \<longrightarrow>
         fs (ts_os s'') = fs (ts_os s) \<and>
         (stream_paths (ts_os s'') = stream_paths (ts_os s) \<or> stream_paths (ts_os s'') = opened) \<and>
         (st = TFTP_OK \<longrightarrow> stream_paths (ts_os s'') = opened \<and>
            (\<exists>q. t_file (tr s'' i) = Some q \<and> f_mode (filo s'' q) = TFTP_FILE_READ \<and>
                 f_fp (filo s'' q) = Some (next_stream (ts_os s)))))
    else tftp_transfer_start (Some i) (Some c) s = (TFTP_ERR_INVALID_ARGUMENT, s)"
proof -
  have ne: "t_filename (tr s i) \<noteq> []" using tsys_inv_tr [OF assms(1,2)] by (simp add: transfer_ok_def)
  have acc: "name_accepted (Some f) (tr s i) \<longleftrightarrow>
      safe_name (c_string f) \<and> length (c_string f) < length (t_filename (tr s i))"
    using ne by (simp add: name_accepted_def filename_valid_iff strlen_def max_filename_length_def
        less_Suc_eq_le [symmetric])
  show ?thesis
  proof (cases "name_accepted (Some f) (tr s i)")
    case False
    then have n: "\<not> (safe_name (c_string f) \<and> length (c_string f) < length (t_filename (tr s i)))"
      unfolding acc .
    show ?thesis unfolding if_not_P [OF n] using False assms by (simp add: start_effect)
  next
    case True
    let ?s = "upd_tr i (configured c) s"
    have e: "tftp_transfer_start (Some i) (Some c) s = (TFTP_OK, ?s)"
      using True assms by (simp add: start_effect)
    have inv: "tsys_inv E S R ?s" using start_safe [OF assms(1,2,5) e] by blast
    have i: "i < length (g_transfer_pool ?s)" using assms(2) by simp
    have fn: "t_filename (tr ?s i) = snprintf_to (t_filename (tr s i)) (c_string f)"
      using assms(2,10) by (simp add: configured_def)
    then have "c_string (t_filename (tr ?s i)) = c_string f"
      using True acc by (simp add: c_string_snprintf_to c_string_no_nul)
    with transfer_path_string [OF fn ne] have path: "c_string (transfer_path (tr ?s i)) = path"
      by (simp add: path_def)
    have t: "startable (tr ?s i)" "t_state (tr ?s i) = TFTP_TRANSFER_RRQ"
      using assms(2-9) by (simp_all add: startable_def configured_def)
    have "fs (ts_os s'') = fs (ts_os s) \<and>
         (stream_paths (ts_os s'') = stream_paths (ts_os s) \<or> stream_paths (ts_os s'') = opened) \<and>
         (st = TFTP_OK \<longrightarrow> stream_paths (ts_os s'') = opened \<and>
            (\<exists>q. t_file (tr s'' i) = Some q \<and> f_mode (filo s'' q) = TFTP_FILE_READ \<and>
                 f_fp (filo s'' q) = Some (next_stream (ts_os s))))"
      if p: "tftp_transfer_process (Some i) ?s = (st, s'')" for st s''
      using process_paths [OF inv i t p] process_safe [OF inv i t p] path
      by (simp add: opened_def own_step_def)
    then show ?thesis using True acc e by auto
  qed
qed

lemma demo_fresh: "\<exists>s i E S R. tsys_inv E S R s \<and> i < length (g_transfer_pool s) \<and>
    t_in_use (tr s i) \<and> t_initialized (tr s i) \<and> \<not> t_registered (tr s i) \<and>
    t_transport (tr s i) = None \<and> t_file (tr s i) = None \<and> length (t_filename (tr s i)) = 9"
proof -
  let ?s = "asys demo_app"
  note inv = reachable_sys [OF demo_app_reachable]
  obtain st p s1 where a: "tftp_transfer_acquire (Some None) ?s = ((st, p), s1)" by (metis prod.collapse)
  have "\<not> (\<forall>t\<in>set (g_transfer_pool ?s). t_in_use t)"
    using demo_app_room(5) by (cases "g_transfer_pool ?s") auto
  with acquire_safe [OF inv a] obtain i S R where i: "tsys_inv {0, 1, 2} S R s1"
    "i < length (g_transfer_pool ?s)" "own_step i ?s s1"
    "tr s1 i = (retired (length (t_filename (tr ?s i))))\<lparr>t_in_use := True\<rparr>" by blast
  have l: "i < length (g_transfer_pool s1)" using i(2) own_step_len [OF i(3)] by simp
  have u: "t_in_use (tr s1 i)" using i(4) by simp
  have "length (t_filename (tr ?s i)) = name_sizes ?s ! i" using i(2) by (simp add: name_sizes_def)
  moreover have "name_sizes ?s = replicate 2 9"
    using orderly_reachable_sizes [OF demo_app_reachable] by (simp add: demo_cfg_def)
  moreover have "i < 2" using i(2) arg_cong [OF demo_app_room(5), of length] by simp
  ultimately have "length (t_filename (tr ?s i)) = 9" by simp
  with owned_init [OF i(1) l u] i(4) l show ?thesis
    by (intro exI [of _ "upd_tr i (\<lambda>t. t\<lparr>t_initialized := True, t_state := TFTP_TRANSFER_IDLE\<rparr>) s1"]
        exI [of _ i] exI [of _ "{0, 1, 2}"] exI [of _ S] exI [of _ R]) simp
qed

definition read_config :: "bytes \<Rightarrow> tftp_transfer_config_t" where
  "read_config name = \<lparr>xc_opcode = TFTP_OPCODE_RRQ, xc_filename = Some (name @ [0]),
     xc_peer = sockaddr_zero, xc_reactor = Some 0\<rparr>"

theorem names_stay_in_root_witness:
  "\<exists>s i s'. tftp_transfer_start (Some i) (Some (read_config (cstr ''../x''))) s = (TFTP_ERR_INVALID_ARGUMENT, s) \<and>
     tftp_transfer_start (Some i) (Some (read_config (cstr ''a''))) s = (TFTP_OK, s') \<and>
     stream_paths (ts_os (snd (tftp_transfer_process (Some i) s'))) \<in>
       {stream_paths (ts_os s), (stream_paths (ts_os s))(next_stream (ts_os s) \<mapsto> cstr ''tftp_root/a'')}"
proof -
  obtain s i E S R where s: "tsys_inv E S R s" "i < length (g_transfer_pool s)" "t_in_use (tr s i)"
    "t_initialized (tr s i)" "\<not> t_registered (tr s i)" "t_transport (tr s i) = None" "t_file (tr s i) = None"
    and l: "length (t_filename (tr s i)) = 9" using demo_fresh by blast
  have c: "xc_opcode (read_config x) = TFTP_OPCODE_RRQ" "xc_reactor (read_config x) = Some 0"
    "xc_filename (read_config x) = Some (x @ [0])" for x by (simp_all add: read_config_def)
  have n: "\<not> safe_name (c_string (cstr ''../x'' @ [0]))" "safe_name (c_string (cstr ''a'' @ [0]))"
    "length (c_string (cstr ''a'' @ [0])) < 9"
    "cstr ''tftp_root/'' @ c_string (cstr ''a'' @ [0]) = cstr ''tftp_root/a''" by code_simp+
  note r = names_stay_in_root [OF s c]
  from r [of "cstr ''../x''"] n(1) have
    "tftp_transfer_start (Some i) (Some (read_config (cstr ''../x''))) s = (TFTP_ERR_INVALID_ARGUMENT, s)" by simp
  moreover from r [of "cstr ''a''"] n(2,3) l obtain s' where
    "tftp_transfer_start (Some i) (Some (read_config (cstr ''a''))) s = (TFTP_OK, s')"
    "\<And>st s''. tftp_transfer_process (Some i) s' = (st, s'') \<Longrightarrow>
       stream_paths (ts_os s'') = stream_paths (ts_os s) \<or> stream_paths (ts_os s'') =
         (stream_paths (ts_os s))(next_stream (ts_os s) \<mapsto> cstr ''tftp_root/a'')"
    unfolding n(4) by auto
  moreover from this(2) have "stream_paths (ts_os (snd (tftp_transfer_process (Some i) s'))) \<in>
       {stream_paths (ts_os s), (stream_paths (ts_os s))(next_stream (ts_os s) \<mapsto> cstr ''tftp_root/a'')}"
    using prod.collapse [symmetric] by blast
  ultimately show ?thesis by blast
qed

text \<open>
  C11: What the server refuses, and how.  When it does not run, every datagram is refused with
  \<open>TFTP_ERR_INVALID_STATE\<close>.  A running server refuses a datagram that is no request of the grammar
  with the status of the parser, a write request with \<open>TFTP_ERR_PROTOCOL\<close>, and a read request,
  when all transfers are in use, with \<open>TFTP_ERR_NO_RESOURCE\<close>; in all of these cases the state is
  exactly the one before.  A read request whose name is unsafe or longer than
  \<open>TFTP_MAX_FILENAME_LENGTH\<close> is refused with \<open>TFTP_ERR_INVALID_ARGUMENT\<close>; the lowest free slot, which
  was taken for it, is free and zeroed again, and nothing else differs.  So no refused request is
  ever answered: a client that wants to write waits in vain.
\<close>

theorem request_decision:
  assumes "orderly_reachable cfg E a" "n \<le> length b"
    and "tftp_server_process_event (Some 0) (Some b) n (Some peer) (ap_srv a) = (st, w)"
  shows "(\<not> s_running (g_server (ap_srv a)) \<longrightarrow> st = TFTP_ERR_INVALID_STATE \<and> w = ap_srv a) \<and>
    (s_running (g_server (ap_srv a)) \<longrightarrow>
      ((\<nexists>opc fname mode. valid_request opc fname mode \<and> take n b = request_bytes opc fname mode) \<longrightarrow>
         st = fst (request_parse (Some b) n) \<and> st \<noteq> TFTP_OK \<and> w = ap_srv a) \<and>
      (\<forall>fname mode. valid_request TFTP_OPCODE_WRQ fname mode \<and>
         take n b = request_bytes TFTP_OPCODE_WRQ fname mode \<longrightarrow> st = TFTP_ERR_PROTOCOL \<and> w = ap_srv a) \<and>
      (\<forall>fname mode. valid_request TFTP_OPCODE_RRQ fname mode \<and>
         take n b = request_bytes TFTP_OPCODE_RRQ fname mode \<longrightarrow>
         ((\<forall>t\<in>set (g_transfer_pool (asys a)). t_in_use t) \<longrightarrow> st = TFTP_ERR_NO_RESOURCE \<and> w = ap_srv a) \<and>
         (\<forall>i. first_index (\<lambda>t. \<not> t_in_use t) (g_transfer_pool (asys a)) = Some i \<and>
            (\<not> safe_name fname \<or> TFTP_MAX_FILENAME_LENGTH cfg < length fname) \<longrightarrow>
            st = TFTP_ERR_INVALID_ARGUMENT \<and>
            w = (ap_srv a)\<lparr>sv_sys := transfer_reset (Some i) (asys a)\<rparr>)))"
proof -
  have "srv_inv E (ap_srv a)" using orderly_reachable_inv [OF assms(1)] by (simp add: app_inv_def)
  moreover have "name_sizes (asys a) = replicate (TFTP_MAX_TRANSFERS cfg) (Suc (TFTP_MAX_FILENAME_LENGTH cfg))"
    using orderly_reachable_sizes [OF assms(1)] by simp
  ultimately show ?thesis by (rule request_decision_facts [OF _ _ assms(2,3)])
qed

theorem request_decision_witness:
  "tftp_server_process_event (Some 0)
     (Some (request_bytes TFTP_OPCODE_WRQ (cstr ''a'') (cstr ''octet''))) 10 (Some sockaddr_zero)
     (ap_srv demo_app) = (TFTP_ERR_PROTOCOL, ap_srv demo_app)"
proof -
  let ?b = "request_bytes TFTP_OPCODE_WRQ (cstr ''a'') (cstr ''octet'')"
  have l: "length ?b = 10" "valid_request TFTP_OPCODE_WRQ (cstr ''a'') (cstr ''octet'')" by code_simp+
  obtain st w where e: "tftp_server_process_event (Some 0) (Some ?b) 10 (Some sockaddr_zero) (ap_srv demo_app) = (st, w)"
    by (meson surj_pair)
  have n: "10 \<le> length ?b" "take 10 ?b = ?b" using l(1) by simp_all
  note running = mp [OF conjunct2 [OF request_decision [OF demo_app_reachable n(1) e]] demo_app_facts(4)]
  from conjunct1 [OF conjunct2 [OF running]] l(2) n(2) e show ?thesis by blast
qed

text \<open>
  C12: In an orderly run a read request for a file that does not exist is answered by exactly one datagram, the
  ERROR packet with code 1 and the message \<open>File not found\<close>, and fails with \<open>TFTP_ERR_FILE\<close>.
\<close>

theorem missing_file_is_reported:
  assumes "orderly_reachable cfg E a" "a_running (g_app a)"
    and "valid_request TFTP_OPCODE_RRQ fname mode" "take n b = request_bytes TFTP_OPCODE_RRQ fname mode"
      "n \<le> length b" "safe_name fname" "length fname \<le> TFTP_MAX_FILENAME_LENGTH cfg"
    and "\<exists>t\<in>set (g_transfer_pool (asys a)). \<not> t_in_use t" "has_room (asys a)" "faults (ts_os (asys a)) = []"
    and "fs (ts_os (asys a)) (cstr ''tftp_root/'' @ fname) = None"
  shows "\<exists>w fd. tftp_server_process_event (Some 0) (Some b) n (Some peer) (ap_srv a) = (TFTP_ERR_FILE, w) \<and>
    sent (ts_os (sv_sys w)) = sent (ts_os (asys a)) @
      [(fd, peer, encode (Error 1 (cstr ''File not found'')))]"
proof -
  have sizes: "name_sizes (asys a) = replicate (TFTP_MAX_TRANSFERS cfg) (Suc (TFTP_MAX_FILENAME_LENGTH cfg))"
    using orderly_reachable_sizes [OF assms(1)] by simp
  from request_missing_file [OF running_server [OF assms(1,2)] sizes assms(3-11)] show ?thesis
    by (simp add: file_not_found_def)
qed

theorem missing_file_is_reported_witness:
  "\<exists>fd. sent (ts_os (sv_sys (snd (tftp_server_process_event (Some 0)
     (Some (request_bytes TFTP_OPCODE_RRQ (cstr ''b'') (cstr ''octet''))) 10 (Some sockaddr_zero)
     (ap_srv demo_client))))) = [(fd, sockaddr_zero, encode (Error 1 (cstr ''File not found'')))]"
proof -
  let ?b = "request_bytes TFTP_OPCODE_RRQ (cstr ''b'') (cstr ''octet'')"
  have l: "length ?b = 10" "valid_request TFTP_OPCODE_RRQ (cstr ''b'') (cstr ''octet'')" "safe_name (cstr ''b'')"
    "length (cstr ''b'') \<le> TFTP_MAX_FILENAME_LENGTH demo_cfg" by code_simp+
  have n: "10 \<le> length ?b" "take 10 ?b = ?b" using l(1) by simp_all
  have run: "a_running (g_app demo_client)" using demo_app_facts(3) by (simp add: demo_client_same)
  have none: "fs (ts_os (asys demo_app)) (cstr ''tftp_root/'' @ cstr ''b'') = None" by code_simp
  have os: "faults (ts_os (asys demo_client)) = []" "sent (ts_os (asys demo_client)) = []"
    "fs (ts_os (asys demo_client)) (cstr ''tftp_root/'' @ cstr ''b'') = None"
    using demo_app_room(6,7) none unfolding demo_client_same by simp_all
  from missing_file_is_reported [OF demo_client_reachable run l(2) n(2,1) l(3,4) demo_client_free
      demo_client_room os(1,3), of sockaddr_zero] os(2) show ?thesis by auto
qed

text \<open>
  C13: The server serves one client at a time, whatever \<open>TFTP_MAX_TRANSFERS\<close> is.  While it runs, at
  most one transfer is in use, because the listening socket takes one of the two transports;
  and while one is in use, every further request fails.
\<close>

theorem one_transfer_at_a_time:
  assumes "srv_inv E w" "s_running (g_server w)"
    and "i < length (g_transfer_pool (sv_sys w))" "t_in_use (tr (sv_sys w) i)"
  shows "(\<forall>j<length (g_transfer_pool (sv_sys w)). t_in_use (tr (sv_sys w) j) \<longrightarrow> j = i) \<and>
    fst (tftp_server_process_event (Some 0) data n src w) \<noteq> TFTP_OK"
proof -
  have "fst (tftp_server_process_event (Some 0) data n src w) \<noteq> TFTP_OK"
    by (rule second_request_fails [OF assms]) (rule prod.collapse [symmetric])
  then show ?thesis using one_active [OF assms(1,2) _ _ assms(3,4)] by blast
qed

theorem one_transfer_at_a_time_witness:
  "\<exists>w i. t_in_use (tr (sv_sys w) i) \<and> s_running (g_server w) \<and>
     fst (tftp_server_process_event (Some 0) (Some demo_request) (length demo_request)
       (Some sockaddr_zero) w) \<noteq> TFTP_OK"
proof -
  obtain w i p where w: "srv_inv {0, 1, 2} w" "s_running (g_server w)" "i < length (g_transfer_pool (sv_sys w))"
    "t_transport (tr (sv_sys w) i) = Some p" using demo_server by blast
  have u: "t_in_use (tr (sv_sys w) i)"
    using tsys_inv_tr [OF srv_invD(1) [OF w(1)] w(3)] w(4) by (auto simp: transfer_ok_def)
  from one_transfer_at_a_time [OF w(1-3) u] w(2) u show ?thesis by blast
qed

end
