(* ===== verification/App_Findings.thy ===== *)
theory App_Findings
  imports Protocol_Runs
begin

text \<open>
  Behaviour of the composed program that its authors may not expect: a round of the reactor
  that reads an array entry which was never written, an error event that leaves a dead
  transfer behind, and a shutdown that forgets the transfers in use.
\<close>

section \<open>A handler that registers\<close>

text \<open>
  C31: When the only registered handler registers another one while it is dispatched (as the
  server's handler does for every accepted request), the same round goes on to the new entry,
  although \<open>poll\<close> was never asked about it: whether the new handler is called at once, and
  with which events, depends on the uninitialised second entry of the local array \<open>poll_fds\<close>.
\<close>

theorem new_registration_sees_stale_events:
  assumes "rc_initialized (g_reactor (h_reactor H s))" "rc_registration_count (g_reactor (h_reactor H s)) = 1"
    and "rc_registrations (g_reactor (h_reactor H s)) = reg # entries" "r_handler reg = Some h"
    and "polls (h_os H s) = Poll_events [POLLIN] # ps" "reactor_to_poll_events (r_events reg) AND POLLIN = POLLIN"
    and "s0 = h_set_os H ((h_os H s)\<lparr>polls := ps\<rparr>) s" "h_reactor H s0 = h_reactor H s"
    and "s1 = h_call H h (r_fd reg) REACTOR_EVENT_READ (r_context reg) s0"
    and "rc_registration_count (g_reactor (h_reactor H s1)) = 2"
    and "rc_registrations (g_reactor (h_reactor H s1)) ! 1 = new" "r_handler new = Some h'"
    and "s2 = h_call H h' (r_fd new) (poll_to_reactor_events (pf_revents stale)) (r_context new) s1"
    and "rc_registration_count (g_reactor (h_reactor H s2)) \<le> 2"
  shows "reactor_run_once H (first # stale # stack) (Some 0) t s =
    (TFTP_OK, if poll_to_reactor_events (pf_revents stale) = 0 then s1 else s2)"
proof -
  let ?p = "poll_revents [POLLIN] 0 (fill_pollfd reg)"
  have d2: "reactor_dispatch H (?p # stale # stack) 2 s' = s'"
    if "rc_registration_count (g_reactor (h_reactor H s')) \<le> 2" for s'
    using that by (subst reactor_dispatch.simps) (simp add: Let_def)
  have "reactor_dispatch H (?p # stale # stack) 1 s1 =
      (if poll_to_reactor_events (pf_revents stale) = 0 then s1 else s2)"
    using assms(10-14) d2 [of s1] d2 [of s2]
    by (subst reactor_dispatch.simps) (auto simp: Let_def numeral_2_eq_2)
  with run_once_one_ready [OF assms(1-9)] show ?thesis by simp
qed

definition reg_host :: "(nat reactor_state \<times> os \<times> nat list, nat) host" where
  "reg_host =
     \<lparr>h_reactor = fst, h_set_reactor = (\<lambda>r (_, k, l). (r, k, l)), h_os = (\<lambda>s. fst (snd s)),
      h_set_os = (\<lambda>k (r, _, l). (r, k, l)),
      h_call = (\<lambda>h fd ev c (r, k, l).
        (if h = 7 then snd (reactor_register (Some 0)
           (Some \<lparr>r_fd = 9, r_events = 5, r_handler = Some 8, r_context = None\<rparr>) r) else r, k, l @ [h]))\<rparr>"

definition reactor_one :: "nat reactor_state" where
  "reactor_one =
     \<lparr>g_reactor = \<lparr>rc_initialized = True, rc_running = True,
        rc_registrations = \<lparr>r_fd = 3, r_events = 5, r_handler = Some 7, r_context = None\<rparr> #
          replicate 15 \<lparr>r_fd = 0, r_events = 0, r_handler = None, r_context = None\<rparr>,
        rc_registration_count = 1, rc_max_handlers = 16\<rparr>,
      g_reactor_in_use = True\<rparr>"

definition round_log :: "u16 \<Rightarrow> nat list" where
  "round_log stale = snd (snd (snd (reactor_run_once reg_host
     [\<lparr>pf_fd = 0, pf_events = 0, pf_revents = 0\<rparr>, \<lparr>pf_fd = 0, pf_events = 0, pf_revents = stale\<rparr>] (Some 0) 100
     (reactor_one, (os_start Map.empty)\<lparr>polls := [Poll_events [POLLIN]]\<rparr>, []))))"

theorem new_registration_sees_stale_events_witness: "round_log 0 = [7] \<and> round_log 1 = [7, 8]"
proof -
  let ?k = "(os_start Map.empty)\<lparr>polls := [Poll_events [POLLIN]]\<rparr>"
  let ?new = "\<lparr>r_fd = 9, r_events = 5, r_handler = Some 8, r_context = None\<rparr> :: nat reactor_registration"
  let ?r = "snd (reactor_register (Some 0) (Some ?new) reactor_one)"
  have reg: "rc_registration_count (g_reactor ?r) = 2" "rc_registrations (g_reactor ?r) ! 1 = ?new"
    by (simp_all add: reactor_register_def reactor_one_def Let_def)
  have to: "reactor_to_poll_events 5 AND POLLIN = POLLIN"
    by (simp add: reactor_to_poll_events_def reactor_events poll_bits)
  have "round_log v = (if poll_to_reactor_events v = 0 then [7] else [7, 8])" for v
    using new_registration_sees_stale_events [of reg_host "(reactor_one, ?k, [])"
        "\<lparr>r_fd = 3, r_events = 5, r_handler = Some 7, r_context = None\<rparr>"
        "replicate 15 \<lparr>r_fd = 0, r_events = 0, r_handler = None, r_context = None\<rparr>" 7 "[]"
        "(reactor_one, ?k\<lparr>polls := []\<rparr>, [])" "(?r, ?k\<lparr>polls := []\<rparr>, [7])" ?new 8
        "(?r, ?k\<lparr>polls := []\<rparr>, [7, 8])" "\<lparr>pf_fd = 0, pf_events = 0, pf_revents = v\<rparr>"
        "\<lparr>pf_fd = 0, pf_events = 0, pf_revents = 0\<rparr>" "[]" 100] reg to
    by (simp add: reg_host_def round_log_def) (simp add: reactor_one_def)
  moreover have "poll_to_reactor_events 1 \<noteq> 0"
    by (simp add: poll_to_reactor_events_def reactor_events poll_bits)
  ultimately show ?thesis by simp
qed

section \<open>An error event\<close>

text \<open>
  C32: When \<open>poll\<close> reports an error condition on the socket of a transfer, the handler marks the
  transfer as failed and returns: unlike every other failure, this one releases nothing.  The
  transfer stays in use and keeps its socket, its file and its registration, and the next
  round reports the same condition again, with the same effect.
\<close>

theorem error_event_keeps_resources:
  assumes "tsys_inv E S R s" "i < length (g_transfer_pool s)" "t_in_use (tr s i)"
    and "t_transport (tr s i) = Some p" "u_open (sock s p)"
    and "revents AND (POLLERR OR POLLHUP OR POLLNVAL) \<noteq> 0"
    and "s' = transfer_udp_handler (u_fd (sock s p)) (poll_to_reactor_events revents) (Some i) s"
  shows "t_in_use (tr s' i) \<and> t_state (tr s' i) = TFTP_TRANSFER_ERROR \<and> t_transport (tr s' i) = Some p \<and>
    t_file (tr s' i) = t_file (tr s i) \<and> registrants S R s' = registrants S R s \<and>
    g_transport_used (ts_udp s') = g_transport_used (ts_udp s) \<and> ts_os s' = ts_os s \<and>
    transfer_udp_handler (u_fd (sock s p)) (poll_to_reactor_events revents) (Some i) s' = s'"
proof -
  have e: "poll_to_reactor_events revents AND REACTOR_EVENT_ERROR \<noteq> 0"
    using assms(6) by (simp add: poll_to_reactor_events_def reactor_events Let_def)
  have p: "p < UDP_TRANSPORT_POOL_SIZE" by (rule owner_transport(1) [OF assms(1,2,4)])
  have g: "get_fd (Some p) u = u_fd (sock s p)" if "ts_udp u = ts_udp s" for u
  proof -
    have "get_fd (Some p) u = get_fd (Some p) s"
      using that by (simp add: get_fd_def udp_transport_get_fd_def)
    then show ?thesis using get_fd_open(1) [OF assms(1) p] assms(5) by simp
  qed
  let ?u = "upd_tr i (\<lambda>t. t\<lparr>t_state := TFTP_TRANSFER_ERROR\<rparr>) s"
  have s': "s' = ?u"
    using assms(4,7) e g [of s] by (simp add: handler_cases tftp_transfer_abort_def)
  have u: "tr ?u i = (tr s i)\<lparr>t_state := TFTP_TRANSFER_ERROR\<rparr>" using assms(2) by simp
  have "transfer_udp_handler (u_fd (sock s p)) (poll_to_reactor_events revents) (Some i) ?u =
      upd_tr i (\<lambda>t. t\<lparr>t_state := TFTP_TRANSFER_ERROR\<rparr>) ?u"
    using assms(2,4) u e g [of ?u] by (simp add: handler_cases tftp_transfer_abort_def)
  also have "\<dots> = ?u" using assms(2) by simp
  finally have again: "transfer_udp_handler (u_fd (sock s p)) (poll_to_reactor_events revents) (Some i) ?u = ?u" .
  have "registrants S R ?u = registrants S R s" by (rule registrants_upd [OF assms(2)]) simp_all
  then show ?thesis using s' u again assms(3,4) by simp
qed

theorem error_event_keeps_resources_witness:
  "\<exists>s i p. t_in_use (tr (transfer_udp_handler (u_fd (sock s p)) (poll_to_reactor_events POLLERR) (Some i) s) i) \<and>
     t_state (tr (transfer_udp_handler (u_fd (sock s p)) (poll_to_reactor_events POLLERR) (Some i) s) i) =
       TFTP_TRANSFER_ERROR"
proof -
  obtain s i p S R where s: "tsys_inv {0, 1, 2} S R s" "i < length (g_transfer_pool s)"
    "serving [1, 2, 3] 1 i s" "t_transport (tr s i) = Some p" using demo_served by blast
  have "t_in_use (tr s i)" using tsys_inv_tr [OF s(1,2)] s(4) by (auto simp: transfer_ok_def)
  moreover have "u_open (sock s p)" using s(3,4) by (auto simp: serving_def)
  moreover have "POLLERR AND (POLLERR OR POLLHUP OR POLLNVAL) \<noteq> 0" by (simp add: poll_bits)
  ultimately show ?thesis using error_event_keeps_resources [OF s(1,2) _ s(4) _ _ refl] by blast
qed

section \<open>Shutdown\<close>

text \<open>
  C33: Shutting the application down does not end the transfers in use.  \<open>tftp_app_deinit\<close> reports
  success and the reactor's table is empty, but every transfer keeps its slot, its transport
  and its open descriptor, and nothing can reach it any more.
\<close>

theorem shutdown_forgets_transfers:
  assumes "app_inv E a" "a_initialized (g_app a)"
    and "i < length (g_transfer_pool (asys a))" "t_in_use (tr (asys a) i)"
    and "tftp_app_deinit (Some 0) a = (st, a')"
  shows "st = TFTP_OK \<and> \<not> a_initialized (g_app a') \<and> reg_table (ts_reactor (asys a')) = [] \<and>
    t_in_use (tr (asys a') i) \<and>
    (\<exists>p. t_transport (tr (asys a') i) = Some p \<and> g_transport_used (ts_udp (asys a')) ! p \<and>
       u_open (sock (asys a') p) \<and> u_fd (sock (asys a') p) \<in> set (fds (ts_os (asys a'))))"
proof -
  from app_deinit_effect [OF assms(1,2,5)] obtain w where w: "srv_inv E w"
    "g_transfer_pool (sv_sys w) = g_transfer_pool (asys a)" and st: "st = TFTP_OK"
    and a': "a' = a\<lparr>g_app := (g_app a)\<lparr>a_server := None, a_reactor := None, a_running := False, a_initialized := False\<rparr>,
      ap_srv := w\<lparr>sv_sys := (sv_sys w)\<lparr>ts_reactor := ended_reactor (ts_reactor (sv_sys w))\<rparr>\<rparr>\<rparr>" by blast
  note t = srv_invD(1) [OF w(1)]
  have i: "i < length (g_transfer_pool (sv_sys w))" "t_in_use (tr (sv_sys w) i)"
    using assms(3,4) w(2) by simp_all
  from all_activeD [OF srv_invD(2) [OF w(1)] i] obtain p where p: "t_transport (tr (sv_sys w) i) = Some p"
    "t_registered (tr (sv_sys w) i)" by (auto simp: active_def)
  have "(Transfer_udp_handler, i, p) \<in> registrants (s_transport (g_server w)) (s_registered (g_server w)) (sv_sys w)"
    using p i(1) by (simp add: registrants_def)
  from unused_not_registered [OF t this] have q: "p < UDP_TRANSPORT_POOL_SIZE"
    "g_transport_used (ts_udp (sv_sys w)) ! p" "u_open (sock (sv_sys w) p)" by blast+
  have "u_fd (sock (sv_sys w) p) \<in> set (fds (ts_os (sv_sys w)))"
    using tsys_invD(7) [OF t] q(1,3) by (auto simp: fds_owned_def sock_fds_def)
  moreover have "reg_table (ended_reactor (ts_reactor (sv_sys w))) = []"
    using ended_reactor_inv [OF tsys_invD(3) [OF t]] by blast
  ultimately show ?thesis using st a' q i(2) p(1) by simp
qed

theorem shutdown_forgets_transfers_witness:
  "\<exists>a i. t_in_use (tr (asys (snd (tftp_app_deinit (Some 0) a))) i) \<and> a_initialized (g_app a) \<and>
     fst (tftp_app_deinit (Some 0) a) = TFTP_OK"
proof -
  obtain a i where a: "app_inv {0, 1, 2} a" "a_initialized (g_app a)" "i < length (g_transfer_pool (asys a))"
    "t_in_use (tr (asys a) i)" using demo_busy_app by blast
  from shutdown_forgets_transfers [OF a] a(2) show ?thesis by (metis prod.collapse)
qed

end
