(* ===== verification/Root_Runs.thy ===== *)
theory Root_Runs
  imports Protocol_Runs
begin

text \<open>
  No run leads out of the root directory: the property of \<open>Stream_Paths\<close> is carried through
  every step of the program, the rounds of the reactor by a third interpretation of its
  interface (\<open>root\<close>).
\<close>

section \<open>The reactor\<close>

lemma handler_rooted:
  assumes inv: "host_inv E v f w" and r: "reg \<in> set (reg_table (ts_reactor (sv_sys w)))"
    and h: "r_handler reg = Some h" and k: "rooted (ts_os (sv_sys w))"
  shows "rooted (ts_os (sv_sys (call_handler h fd ev (r_context reg) w)))"
  using table_entry [OF host_invD [OF inv] r] h server_handler_rooted [OF host_invD [OF inv] k]
    transfer_handler_rooted [OF srv_invD(1) [OF host_invD [OF inv]] _ k]
  by auto

definition root_inv :: "int set \<Rightarrow> tftp_server \<times> bool \<Rightarrow> bool \<times> nat \<times> bool \<Rightarrow> srv \<Rightarrow> bool" where
  "root_inv E v f w \<longleftrightarrow> host_inv E v f w \<and> rooted (ts_os (sv_sys w))"

interpretation root: reactor_host srv_host "root_inv E v f" for E v f
proof
  fix w
  assume inv: "root_inv E v f w"
  then have h: "host_inv E v f w" by (simp add: root_inv_def)
  show "reactor_inv (h_reactor srv_host w)" by (rule loop.inv_reactor [OF h])
  fix reg h ev
  assume r: "reg \<in> set (reg_table (h_reactor srv_host w))" "r_handler reg = Some h"
  note l = \<open>host_inv E v f w\<close> r
  have "rooted (ts_os (sv_sys (h_call srv_host h (r_fd reg) ev (r_context reg) w)))"
    using handler_rooted [OF l(1) _ r(2)] r(1) inv by (simp add: srv_host_def root_inv_def)
  then show "root_inv E v f (h_call srv_host h (r_fd reg) ev (r_context reg) w)"
    using loop.call_inv [OF l] by (simp add: root_inv_def)
  show "rc_running (g_reactor (h_reactor srv_host (h_call srv_host h (r_fd reg) ev (r_context reg) w))) =
      rc_running (g_reactor (h_reactor srv_host w))" by (rule loop.call_running [OF l])
  show "rc_initialized (g_reactor (h_reactor srv_host (h_call srv_host h (r_fd reg) ev (r_context reg) w))) =
      rc_initialized (g_reactor (h_reactor srv_host w))" by (rule loop.call_initialized [OF l])
  show "polls (h_os srv_host (h_call srv_host h (r_fd reg) ev (r_context reg) w)) = polls (h_os srv_host w)"
    by (rule loop.call_polls [OF l])
next
  fix w ps
  assume "root_inv E v f w"
  then show "root_inv E v f (h_set_os srv_host ((h_os srv_host w)\<lparr>polls := ps\<rparr>) w)"
    using loop.os_inv [of E v f w ps] by (simp add: root_inv_def rooted_def srv_host_def)
next
  fix w b
  assume "root_inv E v f w"
  then show "root_inv E v f (set_running srv_host b w)"
    using loop.running_inv [of E v f w b]
    by (simp add: root_inv_def srv_host_def set_running_def Let_def)
qed (simp_all add: srv_host_def set_running_def Let_def)

section \<open>In every run\<close>

lemma app_root_inv:
  assumes "app_inv E a" "rooted (ts_os (asys a))"
  shows "root_inv E (g_server (ap_srv a), g_server_in_use (ap_srv a))
     (rc_initialized (g_reactor (ts_reactor (asys a))), rc_max_handlers (g_reactor (ts_reactor (asys a))),
      g_reactor_in_use (ts_reactor (asys a))) (ap_srv a)"
  using assms app_host by (simp add: root_inv_def app_inv_def)

lemma app_step_rooted:
  assumes inv: "app_inv E a" and use: "\<not> g_app_in_use a \<longrightarrow> \<not> a_initialized (g_app a)"
    and o: "orderly c a" and s: "app_step cfg c a a'" and k: "rooted (ts_os (asys a))"
  shows "rooted (ts_os (asys a'))"
proof -
  have same: "rooted (ts_os (asys b))" if "disk_of (ts_os (asys b)) = disk_of (ts_os (asys a))" for b
    using that rooted_streams [OF _ k] by simp
  show ?thesis
    using s
  proof cases
    case (acquire x r)
    with app_acquire_inv [OF inv use] k show ?thesis by simp
  next
    case (init d st)
    with app_init_inv [OF inv] same show ?thesis by blast
  next
    case (start st)
    with app_start_inv [OF inv] same show ?thesis by blast
  next
    case (round stack t st w)
    from root.run_once_inv [OF app_root_inv [OF inv k] round(4)] round(2) show ?thesis
      by (simp add: root_inv_def)
  next
    case (run stacks st)
    show ?thesis
    proof (cases "a_initialized (g_app a) \<and> a_running (g_app a)")
      case False
      with app_run_inv [OF inv run(2)] k show ?thesis by (auto split: if_splits)
    next
      case True
      then have "app_ready a" using inv by (simp add: app_inv_def)
      then have rr: "a_reactor (g_app a) = Some 0" "rc_initialized (g_reactor (h_reactor srv_host (ap_srv a)))"
        by (simp_all add: app_ready_def srv_host_def)
      obtain w where w: "reactor_run srv_host stacks (Some 0) (ap_srv a) = Some (st, w)" "a' = a\<lparr>ap_srv := w\<rparr>"
        using run(2) True rr by (auto simp: tftp_app_run_def split: option.splits)
      from root.run_result [OF w(1) app_root_inv [OF inv k] rr(2)] w(2) show ?thesis
        by (simp add: root_inv_def)
    qed
  next
    case (stop st)
    with app_stop_inv [OF inv] same show ?thesis by blast
  next
    case (deinit st)
    then have "no_transfer (asys a)" using o by (simp add: orderly_def)
    with deinit app_deinit_inv [OF inv] same show ?thesis by blast
  next
    case (release p)
    then have n: "no_transfer (asys a)" using o by (simp add: orderly_def)
    obtain st a1 where d: "tftp_app_deinit (Some 0) a = (st, a1)" by (meson surj_pair)
    with release have "asys a' = asys a1" by (auto simp: tftp_app_release_def)
    with app_deinit_inv [OF inv n d] same show ?thesis by metis
  next
    case (environment k')
    then have "streams (ts_os (asys a')) = streams (ts_os (asys a))" by (simp add: env_change_def)
    then show ?thesis by (rule rooted_streams) (rule k)
  qed
qed

lemma orderly_reachable_rooted:
  assumes "orderly_reachable cfg E a"
  shows "rooted (ts_os (asys a))"
  using assms
proof induction
  case (start k)
  then show ?case
    by (simp add: rooted_def app_init_state_def srv_init_def tsys_init_def)
next
  case (step a c a')
  note inv = orderly_reachable_inv [OF step.hyps(1)]
  have "\<not> g_app_in_use a \<longrightarrow> \<not> a_initialized (g_app a)"
    using inv by (auto simp: app_inv_def app_ready_def split: if_splits)
  from app_step_rooted [OF inv this step.hyps(2,3) step.IH] show ?case .
qed

text \<open>
  C36: Every stream that the program has open in any state of an orderly run, whatever clients
  sent before, is a stream on a file directly in \<open>tftp_root\<close>: its path is \<open>tftp_root/\<close> and a
  non-empty name without slash and backslash that is neither \<open>.\<close> nor \<open>..\<close>.
\<close>

theorem open_files_lie_in_root:
  assumes "orderly_reachable cfg E a" "streams (ts_os (asys a)) sid = Some st"
  shows "\<exists>name. st_path st = cstr ''tftp_root/'' @ name \<and> name \<noteq> [] \<and> name \<noteq> cstr ''.'' \<and>
    name \<noteq> cstr ''..'' \<and> of_char (CHR ''/'') \<notin> set name \<and> of_char (CHR 0x5C) \<notin> set name"
  using orderly_reachable_rooted [OF assms(1)] assms(2)
  by (auto simp: rooted_def in_root_def safe_name_def)

text \<open>A request arrives, and one round of the reactor answers it: the file of the request is open.\<close>

definition demo_incoming :: app where
  "demo_incoming = env_change ((ts_os (asys demo_app))
     \<lparr>rx := [Rx_data sockaddr_zero demo_request],
      polls := [Poll_events [POLLIN]]\<rparr>) demo_app"

definition demo_round :: "tftp_status_t \<times> srv" where
  "demo_round = reactor_run_once srv_host
     (replicate 16 \<lparr>pf_fd = 0, pf_events = 0, pf_revents = 0\<rparr>) (a_reactor (g_app demo_incoming)) 100
     (ap_srv demo_incoming)"

definition demo_answering :: app where
  "demo_answering = demo_incoming\<lparr>ap_srv := snd demo_round\<rparr>"

lemma demo_answering_reachable: "orderly_reachable demo_cfg {0, 1, 2} demo_answering"
proof -
  have r: "orderly_reachable demo_cfg {0, 1, 2} demo_incoming"
    unfolding demo_incoming_def by (rule orderly_environment [OF demo_app_reachable]) simp_all
  have i: "a_initialized (g_app demo_incoming)"
    using demo_app_facts(2) by (simp add: demo_incoming_def env_change_def)
  show ?thesis unfolding demo_answering_def
    by (rule orderly_step [OF r app_step.round [OF i]])
      (simp_all add: demo_round_def prod_eq_iff)
qed

lemma server_handler_receives:
  assumes inv: "srv_inv E w" and p: "s_transport (g_server w) = Some p" "u_open (sock (sv_sys w) p)"
      "p < UDP_TRANSPORT_POOL_SIZE"
    and r: "rx (ts_os (sv_sys w)) = Rx_data peer d # rest" "length d \<le> TFTP_SERVER_RX_BUFFER_SIZE"
  shows "\<exists>b. length d \<le> length b \<and> take (length d) b = d \<and>
    tftp_server_udp_handler (u_fd (sock (sv_sys w) p)) REACTOR_EVENT_READ (Some me) w =
      snd (tftp_server_process_event (Some 0) (Some b) (length d) (Some peer) (w\<lparr>sv_sys := next_rx (sv_sys w)\<rparr>))"
proof -
  note t = srv_invD(1) [OF inv]
  have g: "get_fd (s_transport (g_server w)) (sv_sys w) = u_fd (sock (sv_sys w) p)"
    using get_fd_open(1) [OF t p(3)] p by simp
  have ev: "REACTOR_EVENT_READ AND REACTOR_EVENT_ERROR = 0" "REACTOR_EVENT_READ AND REACTOR_EVENT_READ \<noteq> 0"
    by (simp_all add: REACTOR_EVENT_READ_def REACTOR_EVENT_ERROR_def)
  have "\<exists>b. length b = TFTP_SERVER_RX_BUFFER_SIZE \<and> take (length d) b = d \<and>
      udp_call (udp_transport_receive (s_transport (g_server w)) (Some (replicate TFTP_SERVER_RX_BUFFER_SIZE 0))
        TFTP_SERVER_RX_BUFFER_SIZE (Some 0) (Some sockaddr_zero)) (sv_sys w) =
        ((TFTP_OK, Some b, Some (length d), Some peer), next_rx (sv_sys w))"
    using udp_inv_openD [OF tsys_invD(1) [OF t] p(3)] p r
    by (auto simp: udp_call_def udp_transport_receive_def sys_recvfrom_def Let_def memcpy_at_def
        TFTP_SERVER_RX_BUFFER_SIZE_def min_def)
  then obtain b where b: "length b = TFTP_SERVER_RX_BUFFER_SIZE" "take (length d) b = d"
      "udp_call (udp_transport_receive (s_transport (g_server w)) (Some (replicate TFTP_SERVER_RX_BUFFER_SIZE 0))
        TFTP_SERVER_RX_BUFFER_SIZE (Some 0) (Some sockaddr_zero)) (sv_sys w) =
        ((TFTP_OK, Some b, Some (length d), Some peer), next_rx (sv_sys w))" by blast
  show ?thesis
    by (rule exI [of _ b])
      (use b g ev p(1) r(2) in \<open>simp add: tftp_server_udp_handler_def sys_call_def\<close>)
qed

lemma serving_stream: "serving c n i s \<Longrightarrow> \<exists>sid st. streams (ts_os s) sid = Some st"
  by (auto simp: serving_def file_at_def open_on_def)

lemma demo_app_table:
  "rc_registration_count (g_reactor (ts_reactor (asys demo_app))) = 1"
  "map r_handler (take 1 (rc_registrations (g_reactor (ts_reactor (asys demo_app))))) = [Some Server_udp_handler]"
  "map r_events (take 1 (rc_registrations (g_reactor (ts_reactor (asys demo_app))))) =
     [REACTOR_EVENT_READ OR REACTOR_EVENT_ERROR]"
  "map r_context (take 1 (rc_registrations (g_reactor (ts_reactor (asys demo_app))))) = [Some 0]"
  "s_transport (g_server (ap_srv demo_app)) = Some 0" "a_reactor (g_app demo_app) = Some 0"
  "map r_fd (take 1 (rc_registrations (g_reactor (ts_reactor (asys demo_app))))) = [u_fd (sock (asys demo_app) 0)]"
  "rx (ts_os (asys demo_app)) = []"
  by code_simp+

lemma demo_incoming_same:
  "asys demo_incoming = (asys demo_app)\<lparr>ts_os := (ts_os (asys demo_app))
     \<lparr>rx := [Rx_data sockaddr_zero demo_request], polls := [Poll_events [POLLIN]]\<rparr>\<rparr>"
  "g_app demo_incoming = g_app demo_app" "g_server (ap_srv demo_incoming) = g_server (ap_srv demo_app)"
  by (simp_all add: demo_incoming_def env_change_def)

lemma demo_round_effect:
  "snd demo_round = tftp_server_udp_handler (u_fd (sock (asys demo_app) 0)) REACTOR_EVENT_READ (Some 0)
     (h_set_os srv_host ((ts_os (asys demo_incoming))\<lparr>polls := []\<rparr>) (ap_srv demo_incoming))"
proof -
  let ?w = "ap_srv demo_incoming" let ?r = "ts_reactor (asys demo_app)"
  let ?s0 = "h_set_os srv_host ((h_os srv_host ?w)\<lparr>polls := []\<rparr>) ?w"
  let ?z = "\<lparr>pf_fd = 0, pf_events = 0, pf_revents = 0\<rparr> :: pollfd"
  obtain reg entries where r: "rc_registrations (g_reactor ?r) = reg # entries"
    using demo_app_table(2) by (cases "rc_registrations (g_reactor ?r)") simp_all
  with demo_app_table(2-4,7) have reg: "r_handler reg = Some Server_udp_handler"
    "r_events reg = REACTOR_EVENT_READ OR REACTOR_EVENT_ERROR" "r_context reg = Some 0"
    "r_fd reg = u_fd (sock (asys demo_app) 0)" by simp_all
  have h: "h_reactor srv_host ?w = ?r" "h_os srv_host ?w = ts_os (asys demo_incoming)"
    by (simp_all add: srv_host_def demo_incoming_same)
  have to: "reactor_to_poll_events (r_events reg) AND POLLIN = POLLIN"
    unfolding reg by (simp add: reactor_to_poll_events_def reactor_events poll_bits)
  have p: "polls (h_os srv_host ?w) = Poll_events [POLLIN] # []"
    unfolding h by (simp add: demo_incoming_same)
  have q: "reactor_dispatch srv_host (poll_revents [POLLIN] 0 (fill_pollfd reg) # replicate 15 ?z) 1 s = s" for s
    by (rule dispatch_quiet) (simp add: nth_Cons split: nat.split)
  have "demo_round = reactor_run_once srv_host (?z # replicate 15 ?z) (Some 0) 100 ?w"
    using demo_app_table(6) by (simp add: demo_round_def demo_incoming_same numeral_eq_Suc)
  also have "\<dots> = (TFTP_OK, h_call srv_host Server_udp_handler (r_fd reg) REACTOR_EVENT_READ (r_context reg) ?s0)"
    using run_once_one_ready [of srv_host ?w reg entries Server_udp_handler "[]" ?s0 _ ?z "replicate 15 ?z" 100,
        unfolded h, OF demo_app_room(3) demo_app_table(1) r reg(1) p [unfolded h] to refl _ refl] q
    by (simp add: srv_host_def demo_incoming_same)
  finally have e: "demo_round =
    (TFTP_OK, h_call srv_host Server_udp_handler (r_fd reg) REACTOR_EVENT_READ (r_context reg) ?s0)" .
  show ?thesis unfolding e reg h by (simp add: srv_host_def)
qed

lemma demo_answering_serves: "\<exists>i. serving [1, 2, 3] 1 i (asys demo_answering)"
proof -
  let ?w = "ap_srv demo_app"
  let ?v = "h_set_os srv_host ((ts_os (asys demo_incoming))\<lparr>polls := []\<rparr>) (ap_srv demo_incoming)"
  have inv: "srv_inv {0, 1, 2} ?w" "s_running (g_server ?w)"
    using running_server [OF demo_app_reachable demo_app_facts(3)] by blast+
  have len: "length demo_request \<le> TFTP_SERVER_RX_BUFFER_SIZE" by code_simp
  have os0: "asys demo_incoming = sv_sys ?w\<lparr>ts_os := ts_os (asys demo_incoming)\<rparr>"
    by (simp add: demo_incoming_same)
  have w0: "?v = ?w\<lparr>sv_sys := (asys demo_app)\<lparr>ts_os := (ts_os (asys demo_app))
      \<lparr>rx := [Rx_data sockaddr_zero demo_request], polls := []\<rparr>\<rparr>\<rparr>"
    by (simp add: srv_host_def demo_incoming_def env_change_def)
  have "(ts_os (asys demo_app))\<lparr>polls := [], rx := []\<rparr> = ts_os (asys demo_app)"
    using demo_app_table(8) demo_app_facts(5) by (intro os.equality) simp_all
  then have w1: "?v\<lparr>sv_sys := next_rx (sv_sys ?v)\<rparr> = ?w" unfolding w0 by simp
  have "host_inv {0, 1, 2} (g_server ?w, g_server_in_use ?w)
     (rc_initialized (g_reactor (ts_reactor (sv_sys ?w))), rc_max_handlers (g_reactor (ts_reactor (sv_sys ?w))),
      g_reactor_in_use (ts_reactor (sv_sys ?w))) ?v"
    unfolding w0 by (rule os_host_inv [OF app_host [OF inv(1)]]) simp_all
  then have inv0: "srv_inv {0, 1, 2} ?v" by (rule host_invD)
  have t: "tsys_inv {0, 1, 2} (Some 0) True (sv_sys ?w)"
    using srv_invD(1) [OF inv(1)] server_running(2) [OF inv] demo_app_table(5) by simp
  have p: "s_transport (g_server ?v) = Some 0" "u_open (sock (sv_sys ?v) 0)" "0 < UDP_TRANSPORT_POOL_SIZE"
    "rx (ts_os (sv_sys ?v)) = Rx_data sockaddr_zero demo_request # []"
    unfolding w0 using demo_app_table(5) server_open(1) [OF t] owner_server(1) [OF t] by simp_all
  from server_handler_receives [OF inv0 p len, of 0] obtain b where
    b: "length demo_request \<le> length b" "take (length demo_request) b = demo_request"
    and e: "tftp_server_udp_handler (u_fd (sock (sv_sys ?v) 0)) REACTOR_EVENT_READ (Some 0) ?v =
      snd (tftp_server_process_event (Some 0) (Some b) (length demo_request) (Some sockaddr_zero) ?w)"
    unfolding w1 by blast
  have sizes: "name_sizes (sv_sys ?w) = replicate 2 (Suc 8)"
    using orderly_reachable_sizes [OF demo_app_reachable] by (simp add: demo_cfg_def)
  have req: "take (length demo_request) b = request_bytes TFTP_OPCODE_RRQ (cstr ''a'') (cstr ''octet'')"
    using b(2) by (simp add: demo_request_def)
  have l: "length (cstr ''a'') \<le> 8" by (simp add: cstr_def)
  have free: "\<exists>t\<in>set (g_transfer_pool (sv_sys ?w)). \<not> t_in_use t" and room: "has_room (sv_sys ?w)"
    using demo_client_free demo_client_room by (simp_all add: demo_client_same has_room_def)
  from request_serves [OF inv sizes demo_request_valid(1) req b(1) demo_request_valid(2) l free room
      demo_app_room(6) demo_app_file, of sockaddr_zero] obtain w' i where
    "tftp_server_process_event (Some 0) (Some b) (length demo_request) (Some sockaddr_zero) ?w = (TFTP_OK, w')"
    "serving [1, 2, 3] 1 i (sv_sys w')" by blast
  moreover have "sock (sv_sys ?v) 0 = sock (asys demo_app) 0" unfolding w0 by simp
  ultimately show ?thesis using e demo_round_effect by (auto simp: demo_answering_def)
qed

theorem open_files_lie_in_root_witness:
  "\<exists>sid st name. streams (ts_os (asys demo_answering)) sid = Some st \<and>
     st_path st = cstr ''tftp_root/'' @ name \<and> name \<noteq> [] \<and> of_char (CHR ''/'') \<notin> set name"
proof -
  obtain sid st where st: "streams (ts_os (asys demo_answering)) sid = Some st"
    using demo_answering_serves serving_stream by blast
  from open_files_lie_in_root [OF demo_answering_reachable st] st show ?thesis by blast
qed

end
