(* ===== verification/Tftp_Timer.thy ===== *)
theory Tftp_Timer
  imports Object_Pool Posix
begin

text \<open>
  \<open>src/tftp/timer\<close>: deadline timers with a bounded number of retries, from a static pool of
  \<open>TFTP_MAX_TRANSFERS\<close> objects.  The counters keep their C width, so the sum that forms the
  deadline and the retry counter wrap as in C where they can.
\<close>

section \<open>State\<close>

record tftp_timer_config_t =
  cfg_timeout_ms :: u32
  cfg_max_retries :: u32

record tftp_timer =
  tm_in_use :: bool
  tm_running :: bool
  tm_expired :: bool
  tm_timeout_ms :: u32
  tm_retry_count :: u32
  tm_max_retries :: u32
  tm_deadline_ms :: u64

definition tftp_timer_zero :: tftp_timer where
  "tftp_timer_zero =
     \<lparr>tm_in_use = False, tm_running = False, tm_expired = False, tm_timeout_ms = 0,
      tm_retry_count = 0, tm_max_retries = 0, tm_deadline_ms = 0\<rparr>"

record timer_state =
  g_timer_pool :: "tftp_timer list"

type_synonym timer_os = "timer_state \<times> os"

definition timer_state_init :: "nat \<Rightarrow> timer_state" where
  "timer_state_init n = \<lparr>g_timer_pool = replicate n tftp_timer_zero\<rparr>"

abbreviation tmr :: "timer_os \<Rightarrow> nat \<Rightarrow> tftp_timer" where
  "tmr s i \<equiv> g_timer_pool (fst s) ! i"

definition set_tmr :: "nat \<Rightarrow> tftp_timer \<Rightarrow> timer_os \<Rightarrow> timer_os" where
  "set_tmr i t s = ((fst s)\<lparr>g_timer_pool := (g_timer_pool (fst s))[i := t]\<rparr>, snd s)"

section \<open>Operations\<close>

text \<open>The monotonic clock in milliseconds; 0 when it cannot be read.\<close>

definition timer_now_ms :: "os \<Rightarrow> u64 \<times> os" where
  "timer_now_ms k =
     (case sys_clock_gettime k of ((r, sec, nsec), k) \<Rightarrow>
        (if r \<noteq> 0 then 0 else sec * 1000 + nsec div 1000000, k))"

definition tftp_timer_acquire ::
  "ptr option \<Rightarrow> timer_os \<Rightarrow> (tftp_status_t \<times> ptr option) \<times> timer_os" where
  "tftp_timer_acquire out s =
     (case out of
        None \<Rightarrow> ((TFTP_ERR_INVALID_ARGUMENT, None), s)
      | Some _ \<Rightarrow>
          (case first_index (\<lambda>t. \<not> tm_in_use t) (g_timer_pool (fst s)) of
             Some i \<Rightarrow>
               ((TFTP_OK, Some (Some i)),
                set_tmr i ((tmr s i)\<lparr>tm_in_use := True, tm_running := False,
                                     tm_expired := False, tm_retry_count := 0\<rparr>) s)
           | None \<Rightarrow> ((TFTP_ERR_NO_RESOURCE, Some None), s)))"

definition tftp_timer_init ::
  "ptr \<Rightarrow> tftp_timer_config_t option \<Rightarrow> timer_os \<Rightarrow> tftp_status_t \<times> timer_os" where
  "tftp_timer_init self config s =
     (case (self, config) of
        (Some i, Some c) \<Rightarrow>
          (TFTP_OK,
           set_tmr i ((tmr s i)\<lparr>tm_timeout_ms := cfg_timeout_ms c,
                                tm_max_retries := cfg_max_retries c, tm_retry_count := 0,
                                tm_running := False, tm_expired := False,
                                tm_deadline_ms := 0\<rparr>) s)
      | _ \<Rightarrow> (TFTP_ERR_INVALID_ARGUMENT, s))"

definition tftp_timer_start :: "ptr \<Rightarrow> timer_os \<Rightarrow> tftp_status_t \<times> timer_os" where
  "tftp_timer_start self s =
     (case self of
        None \<Rightarrow> (TFTP_ERR_INVALID_ARGUMENT, s)
      | Some i \<Rightarrow>
          (case timer_now_ms (snd s) of (now, k) \<Rightarrow>
             (TFTP_OK,
              set_tmr i ((tmr s i)\<lparr>tm_expired := False, tm_running := True,
                  tm_deadline_ms := now + ucast (tm_timeout_ms (tmr s i))\<rparr>) (fst s, k))))"

definition tftp_timer_stop :: "ptr \<Rightarrow> timer_os \<Rightarrow> tftp_status_t \<times> timer_os" where
  "tftp_timer_stop self s =
     (case self of
        None \<Rightarrow> (TFTP_ERR_INVALID_ARGUMENT, s)
      | Some i \<Rightarrow> (TFTP_OK, set_tmr i ((tmr s i)\<lparr>tm_running := False, tm_expired := False\<rparr>) s))"

definition tftp_timer_expire :: "ptr \<Rightarrow> timer_os \<Rightarrow> tftp_status_t \<times> timer_os" where
  "tftp_timer_expire self s =
     (case self of
        None \<Rightarrow> (TFTP_ERR_INVALID_ARGUMENT, s)
      | Some i \<Rightarrow>
          if \<not> tm_running (tmr s i) then (TFTP_ERR_INVALID_STATE, s)
          else
            (case timer_now_ms (snd s) of (now, k) \<Rightarrow>
               let s = (fst s, k) in
               if now < tm_deadline_ms (tmr s i) then (TFTP_ERR_INVALID_STATE, s)
               else (TFTP_OK,
                 set_tmr i ((tmr s i)\<lparr>tm_expired := True, tm_running := False\<rparr>) s)))"

definition tftp_timer_retry :: "ptr \<Rightarrow> timer_os \<Rightarrow> tftp_status_t \<times> timer_os" where
  "tftp_timer_retry self s =
     (case self of
        None \<Rightarrow> (TFTP_ERR_INVALID_ARGUMENT, s)
      | Some i \<Rightarrow>
          if tm_retry_count (tmr s i) \<ge> tm_max_retries (tmr s i)
          then (TFTP_ERR_RETRY_EXHAUSTED, s)
          else
            let s = set_tmr i ((tmr s i)\<lparr>tm_retry_count := tm_retry_count (tmr s i) + 1\<rparr>) s in
            tftp_timer_start self s)"

definition tftp_timer_is_running :: "ptr \<Rightarrow> timer_os \<Rightarrow> bool" where
  "tftp_timer_is_running self s = (case self of None \<Rightarrow> False | Some i \<Rightarrow> tm_running (tmr s i))"

definition tftp_timer_is_expired :: "ptr \<Rightarrow> timer_os \<Rightarrow> bool" where
  "tftp_timer_is_expired self s = (case self of None \<Rightarrow> False | Some i \<Rightarrow> tm_expired (tmr s i))"

definition tftp_timer_retry_available :: "ptr \<Rightarrow> timer_os \<Rightarrow> bool" where
  "tftp_timer_retry_available self s =
     (case self of
        None \<Rightarrow> False
      | Some i \<Rightarrow> tm_retry_count (tmr s i) < tm_max_retries (tmr s i))"

definition tftp_timer_retry_count :: "ptr \<Rightarrow> timer_os \<Rightarrow> u32" where
  "tftp_timer_retry_count self s =
     (case self of None \<Rightarrow> 0 | Some i \<Rightarrow> tm_retry_count (tmr s i))"

definition tftp_timer_deinit :: "ptr \<Rightarrow> timer_os \<Rightarrow> tftp_status_t \<times> timer_os" where
  "tftp_timer_deinit self s =
     (case self of
        None \<Rightarrow> (TFTP_ERR_INVALID_ARGUMENT, s)
      | Some i \<Rightarrow>
          (TFTP_OK, set_tmr i ((tmr s i)\<lparr>tm_running := False, tm_expired := False,
                                         tm_retry_count := 0\<rparr>) s))"

definition tftp_timer_release :: "ptr option \<Rightarrow> timer_os \<Rightarrow> ptr option \<times> timer_os" where
  "tftp_timer_release self s =
     (case self of
        Some (Some i) \<Rightarrow> (Some None, set_tmr i ((tmr s i)\<lparr>tm_in_use := False\<rparr>) s)
      | _ \<Rightarrow> (self, s))"


section \<open>Invariant\<close>

text \<open>No timer is both running and expired, and none has used more retries than it may.\<close>

definition timer_ok :: "tftp_timer \<Rightarrow> bool" where
  "timer_ok t \<longleftrightarrow> \<not> (tm_running t \<and> tm_expired t) \<and> tm_retry_count t \<le> tm_max_retries t"

definition timer_inv :: "timer_os \<Rightarrow> bool" where
  "timer_inv s \<longleftrightarrow> (\<forall>t\<in>set (g_timer_pool (fst s)). timer_ok t)"

lemma timer_inv_start: "timer_inv (timer_state_init n, k)"
  by (simp add: timer_inv_def timer_state_init_def timer_ok_def tftp_timer_zero_def)

lemma timer_inv_nth: "timer_inv s \<Longrightarrow> i < length (g_timer_pool (fst s)) \<Longrightarrow> timer_ok (tmr s i)"
  by (simp add: timer_inv_def)

lemma timer_inv_set: "timer_inv s \<Longrightarrow> timer_ok t \<Longrightarrow> timer_inv (set_tmr i t s)"
  by (auto simp: timer_inv_def set_tmr_def dest!: set_update_subset_insert [THEN subsetD])

lemma timer_inv_os: "timer_inv (u, k) \<Longrightarrow> timer_inv (u, k')"
  by (simp add: timer_inv_def)

lemma timer_inv_acquire: "timer_inv s \<Longrightarrow> timer_inv (snd (tftp_timer_acquire out s))"
  by (auto simp: tftp_timer_acquire_def timer_ok_def intro!: timer_inv_set split: option.split)

lemma timer_inv_init_op: "timer_inv s \<Longrightarrow> timer_inv (snd (tftp_timer_init self c s))"
  by (auto simp: tftp_timer_init_def timer_ok_def intro!: timer_inv_set split: option.split)

lemma timer_inv_start_op:
  assumes "timer_inv s" "\<And>i. self = Some i \<Longrightarrow> i < length (g_timer_pool (fst s))"
  shows "timer_inv (snd (tftp_timer_start self s))"
proof (cases self)
  case None
  with assms show ?thesis by (simp add: tftp_timer_start_def)
next
  case (Some i)
  obtain now k where n: "timer_now_ms (snd s) = (now, k)" by (meson surj_pair)
  have "timer_ok (tmr s i)" using assms Some timer_inv_nth by blast
  moreover have "timer_inv (fst s, k)" using assms(1) timer_inv_os by (metis prod.collapse)
  ultimately show ?thesis
    by (auto simp: tftp_timer_start_def Some n timer_ok_def intro!: timer_inv_set)
qed

lemma timer_inv_stop:
  assumes "timer_inv s" "\<And>i. self = Some i \<Longrightarrow> i < length (g_timer_pool (fst s))"
  shows "timer_inv (snd (tftp_timer_stop self s))"
proof (cases self)
  case (Some i)
  then have "timer_ok (tmr s i)" using assms timer_inv_nth by blast
  with assms(1) Some show ?thesis
    by (auto simp: tftp_timer_stop_def timer_ok_def intro!: timer_inv_set)
qed (simp add: assms tftp_timer_stop_def)

lemma timer_inv_expire:
  assumes "timer_inv s" "\<And>i. self = Some i \<Longrightarrow> i < length (g_timer_pool (fst s))"
  shows "timer_inv (snd (tftp_timer_expire self s))"
proof (cases self)
  case (Some i)
  obtain now k where n: "timer_now_ms (snd s) = (now, k)" by (meson surj_pair)
  have "timer_ok (tmr s i)" using assms Some timer_inv_nth by blast
  moreover have "timer_inv (fst s, k)" using assms(1) timer_inv_os by (metis prod.collapse)
  ultimately show ?thesis using assms(1)
    by (auto simp: tftp_timer_expire_def Some n timer_ok_def Let_def intro!: timer_inv_set)
qed (simp add: assms tftp_timer_expire_def)

lemma retry_increment:
  fixes c m :: u32
  assumes "c < m"
  shows "unat (c + 1) = Suc (unat c)" "c + 1 \<le> m"
proof -
  have "unat c < unat m" using assms by (simp add: word_less_nat_alt)
  moreover have "unat m < 2 ^ LENGTH(32)" by (rule unsigned_less)
  ultimately show s: "unat (c + 1) = Suc (unat c)" by (simp add: unat_word_ariths)
  with \<open>unat c < unat m\<close> show "c + 1 \<le> m" by (simp add: word_le_nat_alt)
qed

lemma timer_inv_retry:
  assumes "timer_inv s" "\<And>i. self = Some i \<Longrightarrow> i < length (g_timer_pool (fst s))"
  shows "timer_inv (snd (tftp_timer_retry self s))"
proof (cases self)
  case (Some i)
  then have i: "i < length (g_timer_pool (fst s))" and ok: "timer_ok (tmr s i)"
    using assms timer_inv_nth by blast+
  show ?thesis
  proof (cases "tm_retry_count (tmr s i) \<ge> tm_max_retries (tmr s i)")
    case True
    with assms(1) Some show ?thesis by (simp add: tftp_timer_retry_def)
  next
    case False
    let ?s = "set_tmr i ((tmr s i)\<lparr>tm_retry_count := tm_retry_count (tmr s i) + 1\<rparr>) s"
    have "timer_inv ?s"
      using assms(1) ok False retry_increment(2) [of "tm_retry_count (tmr s i)" "tm_max_retries (tmr s i)"]
      by (intro timer_inv_set) (auto simp: timer_ok_def)
    then show ?thesis
      using Some False i timer_inv_start_op [of ?s self]
      by (simp add: tftp_timer_retry_def Let_def set_tmr_def)
  qed
qed (simp add: assms tftp_timer_retry_def)

lemma timer_inv_deinit:
  assumes "timer_inv s"
  shows "timer_inv (snd (tftp_timer_deinit self s))"
  using assms by (auto simp: tftp_timer_deinit_def timer_ok_def intro!: timer_inv_set split: option.split)

lemma timer_inv_release:
  assumes "timer_inv s" "\<And>i. self = Some (Some i) \<Longrightarrow> i < length (g_timer_pool (fst s))"
  shows "timer_inv (snd (tftp_timer_release self s))"
proof (cases "\<exists>i. self = Some (Some i)")
  case True
  then obtain i where i: "self = Some (Some i)" by blast
  then have "timer_ok (tmr s i)" using assms timer_inv_nth by blast
  with assms(1) i show ?thesis
    by (auto simp: tftp_timer_release_def timer_ok_def intro!: timer_inv_set)
qed (use assms in \<open>auto simp: tftp_timer_release_def split: option.split\<close>)

section \<open>The pool as an object pool\<close>

definition timer_take :: "timer_os \<Rightarrow> (tftp_status_t \<times> ptr) \<times> timer_os" where
  "timer_take s = (case tftp_timer_acquire (Some None) s of ((st, p), s') \<Rightarrow> ((st, deref None p), s'))"

definition timer_give :: "nat \<Rightarrow> timer_os \<Rightarrow> timer_os" where
  "timer_give i s = snd (tftp_timer_release (Some (Some i)) s)"

interpretation timer_pool: object_pool "\<lambda>s. map tm_in_use (g_timer_pool (fst s))" timer_take timer_give
  timer_inv
proof
  fix s i
  assume inv: "timer_inv s"
  let ?used = "\<lambda>s :: timer_os. map tm_in_use (g_timer_pool (fst s))"
  show "first_index Not (?used s) = Some i \<Longrightarrow>
      \<exists>s'. timer_take s = ((TFTP_OK, Some i), s') \<and> ?used s' = (?used s)[i := True]"
    by (simp add: timer_take_def tftp_timer_acquire_def first_index_map comp_def set_tmr_def map_update)
  show "first_index Not (?used s) = None \<Longrightarrow> timer_take s = ((TFTP_ERR_NO_RESOURCE, None), s)"
    by (simp add: timer_take_def tftp_timer_acquire_def first_index_map comp_def)
  show "timer_inv (snd (timer_take s))"
    using timer_inv_acquire [OF inv] by (simp add: timer_take_def case_prod_beta)
  assume i: "i < length (?used s)"
  then show "timer_inv (timer_give i s)"
    unfolding timer_give_def by (intro timer_inv_release [OF inv]) simp
  show "?used (timer_give i s) = (?used s)[i := False]"
    by (simp add: timer_give_def tftp_timer_release_def set_tmr_def map_update)
qed

section \<open>Properties\<close>

inductive timer_step :: "timer_os \<Rightarrow> timer_os \<Rightarrow> bool" where
  acquire: "timer_step s (snd (tftp_timer_acquire out s))"
| init: "timer_step s (snd (tftp_timer_init self c s))"
| start: "i < length (g_timer_pool (fst s)) \<Longrightarrow> timer_step s (snd (tftp_timer_start (Some i) s))"
| stop: "i < length (g_timer_pool (fst s)) \<Longrightarrow> timer_step s (snd (tftp_timer_stop (Some i) s))"
| expire: "i < length (g_timer_pool (fst s)) \<Longrightarrow> timer_step s (snd (tftp_timer_expire (Some i) s))"
| retry: "i < length (g_timer_pool (fst s)) \<Longrightarrow> timer_step s (snd (tftp_timer_retry (Some i) s))"
| deinit: "timer_step s (snd (tftp_timer_deinit self s))"
| release: "i < length (g_timer_pool (fst s)) \<Longrightarrow>
    timer_step s (snd (tftp_timer_release (Some (Some i)) s))"
| environment: "timer_step (u, k) (u, k')"

inductive timer_reachable :: "nat \<Rightarrow> timer_os \<Rightarrow> bool" for n where
  start: "timer_reachable n (timer_state_init n, k)"
| step: "timer_reachable n s \<Longrightarrow> timer_step s s' \<Longrightarrow> timer_reachable n s'"

lemma timer_inv_step: "timer_step s s' \<Longrightarrow> timer_inv s \<Longrightarrow> timer_inv s'"
  by (induction rule: timer_step.induct)
    (auto intro: timer_inv_acquire timer_inv_init_op timer_inv_start_op timer_inv_stop
      timer_inv_expire timer_inv_retry timer_inv_deinit timer_inv_release timer_inv_os)

lemma timer_reachable_inv: "timer_reachable n s \<Longrightarrow> timer_inv s"
  by (induction rule: timer_reachable.induct) (auto intro: timer_inv_start timer_inv_step)


text \<open>
  C40: After any calls of the timer module, in any order and whatever the clock does, no timer is running and
  expired at the same time and none has made more retries than its budget.
\<close>

theorem timers_stay_consistent:
  assumes "timer_reachable n s" "i < length (g_timer_pool (fst s))"
  shows "\<not> (tftp_timer_is_running (Some i) s \<and> tftp_timer_is_expired (Some i) s) \<and>
    tftp_timer_retry_count (Some i) s \<le> tm_max_retries (tmr s i)"
  using timer_inv_nth [OF timer_reachable_inv [OF assms(1)] assms(2)]
  by (simp add: timer_ok_def tftp_timer_is_running_def tftp_timer_is_expired_def
      tftp_timer_retry_count_def)

definition timer_example :: timer_os where
  "timer_example =
     snd (tftp_timer_start (Some 0)
       (snd (tftp_timer_init (Some 0) (Some \<lparr>cfg_timeout_ms = 500, cfg_max_retries = 3\<rparr>)
         (snd (tftp_timer_acquire (Some None) (timer_state_init 2, os_start Map.empty))))))"

lemma two_timers: "timer_state_init 2 = \<lparr>g_timer_pool = [tftp_timer_zero, tftp_timer_zero]\<rparr>"
  by (simp add: timer_state_init_def numeral_2_eq_2)

lemma timer_example_state:
  "timer_example =
     (\<lparr>g_timer_pool = [\<lparr>tm_in_use = True, tm_running = True, tm_expired = False, tm_timeout_ms = 500,
        tm_retry_count = 0, tm_max_retries = 3, tm_deadline_ms = 500\<rparr>, tftp_timer_zero]\<rparr>,
      os_start Map.empty)"
  by (simp add: timer_example_def tftp_timer_start_def tftp_timer_init_def tftp_timer_acquire_def
      two_timers timer_now_ms_def sys_clock_gettime_def os_start_def set_tmr_def
      tftp_timer_zero_def)

lemma timer_example_reachable: "timer_reachable 2 timer_example"
  unfolding timer_example_def
  by (intro timer_reachable.step [OF _ timer_step.start] timer_reachable.step [OF _ timer_step.init]
      timer_reachable.step [OF _ timer_step.acquire] timer_reachable.start)
    (simp add: tftp_timer_acquire_def tftp_timer_init_def two_timers set_tmr_def
      tftp_timer_zero_def)

theorem timers_stay_consistent_witness:
  "tftp_timer_is_running (Some 0) timer_example \<and> \<not> tftp_timer_is_expired (Some 0) timer_example"
  using timers_stay_consistent [OF timer_example_reachable, of 0]
  by (simp add: timer_example_state tftp_timer_is_running_def)

text \<open>\<open>n\<close> retries in a row, with their statuses; in between the environment may do anything.\<close>

fun retries :: "nat \<Rightarrow> (os \<Rightarrow> os) list \<Rightarrow> timer_os \<Rightarrow> tftp_status_t list \<times> timer_os" where
  "retries i [] s = ([], s)"
| "retries i (e # env) s =
     (case tftp_timer_retry (Some i) (fst s, e (snd s)) of
        (st, s') \<Rightarrow> (case retries i env s' of (sts, t) \<Rightarrow> (st # sts, t)))"

definition retries_left :: "nat \<Rightarrow> timer_os \<Rightarrow> nat" where
  "retries_left i s = unat (tm_max_retries (tmr s i)) - unat (tm_retry_count (tmr s i))"

lemma retry_step:
  assumes "i < length (g_timer_pool (fst s))" "tftp_timer_retry (Some i) s = (st, s')"
  shows "st = (if 0 < retries_left i s then TFTP_OK else TFTP_ERR_RETRY_EXHAUSTED) \<and>
    retries_left i s' = retries_left i s - 1 \<and>
    tm_max_retries (tmr s' i) = tm_max_retries (tmr s i) \<and>
    length (g_timer_pool (fst s')) = length (g_timer_pool (fst s)) \<and>
    (st = TFTP_OK \<longrightarrow> tm_running (tmr s' i) \<and> \<not> tm_expired (tmr s' i))"
proof -
  obtain now k where n: "timer_now_ms (snd s) = (now, k)" by (meson surj_pair)
  show ?thesis
  proof (cases "tm_retry_count (tmr s i) < tm_max_retries (tmr s i)")
    case True
    then show ?thesis
      using assms n retry_increment(1) [OF True]
      by (auto simp: tftp_timer_retry_def tftp_timer_start_def set_tmr_def retries_left_def
          Let_def not_le [THEN iffD2, OF True]) (auto simp: word_less_nat_alt)
  next
    case False
    then show ?thesis
      using assms by (auto simp: tftp_timer_retry_def retries_left_def word_less_nat_alt not_less word_le_nat_alt)
  qed
qed

lemma retries_result:
  "i < length (g_timer_pool (fst s)) \<Longrightarrow> retries i env s = (sts, t) \<Longrightarrow>
   sts = replicate (min (length env) (retries_left i s)) TFTP_OK @
     replicate (length env - retries_left i s) TFTP_ERR_RETRY_EXHAUSTED \<and>
   retries_left i t = retries_left i s - length env"
proof (induction env arbitrary: s sts)
  case Nil
  then show ?case by simp
next
  case (Cons e env)
  let ?s = "(fst s, e (snd s))"
  obtain st s' where r: "tftp_timer_retry (Some i) ?s = (st, s')" by (meson surj_pair)
  obtain sts' where m: "retries i env s' = (sts', t)" "sts = st # sts'"
    using Cons.prems(2) r by (auto split: prod.splits)
  have left: "retries_left i ?s = retries_left i s" by (simp add: retries_left_def)
  note q = retry_step [OF _ r, unfolded left]
  have "i < length (g_timer_pool (fst s'))" using q Cons.prems(1) by simp
  from Cons.IH [OF this m(1)] q Cons.prems(1) m(2) show ?case
    by (cases "retries_left i s") auto
qed

text \<open>
  C38: Exactly as many retries are granted as the budget leaves: in a row of \<open>n\<close> calls of
  \<open>tftp_timer_retry\<close> the first \<open>max_retries - retry_count\<close> return \<open>TFTP_OK\<close> and all later ones
  \<open>TFTP_ERR_RETRY_EXHAUSTED\<close>, whatever the clock reads; the 32-bit counter does not wrap.
\<close>

theorem retry_budget_exact:
  assumes "i < length (g_timer_pool (fst s))" "retries i env s = (sts, t)"
  shows "sts = replicate (min (length env) (retries_left i s)) TFTP_OK @
      replicate (length env - retries_left i s) TFTP_ERR_RETRY_EXHAUSTED \<and>
    retries_left i t = retries_left i s - length env \<and>
    (tftp_timer_retry_available (Some i) t \<longleftrightarrow> length env < retries_left i s)"
  using retries_result [OF assms]
  by (auto simp: tftp_timer_retry_available_def retries_left_def word_less_nat_alt)

theorem retry_budget_exact_witness:
  "fst (retries 0 (replicate 5 id) timer_example) =
     [TFTP_OK, TFTP_OK, TFTP_OK, TFTP_ERR_RETRY_EXHAUSTED, TFTP_ERR_RETRY_EXHAUSTED]"
proof -
  obtain sts t where r: "retries 0 (replicate 5 id) timer_example = (sts, t)" by (meson surj_pair)
  have "0 < length (g_timer_pool (fst timer_example))" by (simp add: timer_example_state)
  have left: "retries_left 0 timer_example = 3"
    by (simp add: retries_left_def timer_example_state)
  from retry_budget_exact [OF \<open>0 < _\<close> r] have "sts = replicate 3 TFTP_OK @ replicate 2 TFTP_ERR_RETRY_EXHAUSTED"
    by (simp add: left)
  then show ?thesis unfolding r by (simp add: numeral_3_eq_3 numeral_2_eq_2)
qed

text \<open>The time a clock reading denotes, in milliseconds.\<close>

definition clock_ms :: "u64 \<times> u64 \<Rightarrow> nat" where
  "clock_ms c = unat (fst c) * 1000 + unat (snd c) div 1000000"

lemma timer_now_ok:
  assumes "faults k = []" "clock_ms (clock k) < 2 ^ 64"
  shows "snd (timer_now_ms k) = k \<and> unat (fst (timer_now_ms k)) = clock_ms (clock k)"
proof -
  obtain sec nsec where c: "clock k = (sec, nsec)" by fastforce
  have "unat sec * 1000 + unat nsec div 1000000 < 2 ^ 64"
    using assms(2) by (simp add: c clock_ms_def)
  then have "unat (sec * 1000 + nsec div 1000000) = unat sec * 1000 + unat nsec div 1000000"
    by (simp add: unat_word_ariths unat_div)
  with assms(1) c show ?thesis by (simp add: timer_now_ms_def sys_clock_gettime_def clock_ms_def)
qed

text \<open>
  C37: A timer that was started when the monotonic clock showed \<open>c0\<close> expires at a later reading
  \<open>c1\<close> exactly when at least its timeout has passed; before that, \<open>tftp_timer_expire\<close> reports
  \<open>TFTP_ERR_INVALID_STATE\<close> and the timer keeps running.
\<close>

theorem timer_expires_after_timeout:
  assumes "i < length (g_timer_pool (fst s))" "faults (snd s) = []" "faults k1 = []"
    and "clock_ms (clock (snd s)) + unat (tm_timeout_ms (tmr s i)) < 2 ^ 64"
    and "clock_ms (clock k1) < 2 ^ 64"
    and "tftp_timer_start (Some i) s = (st, s1)"
    and "tftp_timer_expire (Some i) (fst s1, k1) = (st2, s2)"
  shows "st = TFTP_OK \<and>
    (if clock_ms (clock (snd s)) + unat (tm_timeout_ms (tmr s i)) \<le> clock_ms (clock k1)
     then st2 = TFTP_OK \<and> tm_expired (tmr s2 i) \<and> \<not> tm_running (tmr s2 i)
     else st2 = TFTP_ERR_INVALID_STATE \<and> tm_running (tmr s2 i) \<and> \<not> tm_expired (tmr s2 i))"
proof -
  let ?t = "tm_timeout_ms (tmr s i)"
  have b: "clock_ms (clock (snd s)) < 2 ^ 64" using assms(4) by simp
  obtain n0 where n0: "timer_now_ms (snd s) = (n0, snd s)" "unat n0 = clock_ms (clock (snd s))"
    using timer_now_ok [OF assms(2) b] by (metis prod.collapse)
  obtain n1 where n1: "timer_now_ms k1 = (n1, k1)" "unat n1 = clock_ms (clock k1)"
    using timer_now_ok [OF assms(3,5)] by (metis prod.collapse)
  have "unat ?t < 2 ^ LENGTH(32)" by (rule unsigned_less)
  then have "unat (ucast ?t :: u64) = unat ?t"
    by (simp add: unsigned_ucast_eq take_bit_nat_eq_self)
  then have "unat (n0 + ucast ?t) = clock_ms (clock (snd s)) + unat ?t"
    using n0(2) assms(4) by (simp add: unat_word_ariths)
  then have le: "n0 + ucast ?t \<le> n1 \<longleftrightarrow> clock_ms (clock (snd s)) + unat ?t \<le> clock_ms (clock k1)"
    by (simp add: word_le_nat_alt n1(2))
  show ?thesis
    using assms(1,6,7) n0(1) n1(1) le
    by (auto simp: tftp_timer_start_def tftp_timer_expire_def set_tmr_def Let_def not_less [symmetric]
        split: if_splits)
qed

theorem timer_expires_after_timeout_witness:
  "\<exists>s1. tftp_timer_start (Some 0) timer_example = (TFTP_OK, s1) \<and>
    fst (tftp_timer_expire (Some 0) (fst s1, (os_start Map.empty)\<lparr>clock := (0, 499999999)\<rparr>)) =
      TFTP_ERR_INVALID_STATE \<and>
    fst (tftp_timer_expire (Some 0) (fst s1, (os_start Map.empty)\<lparr>clock := (0, 500000000)\<rparr>)) = TFTP_OK"
proof -
  obtain st s1 where s: "tftp_timer_start (Some 0) timer_example = (st, s1)" by (meson surj_pair)
  let ?k = "\<lambda>n. (os_start Map.empty)\<lparr>clock := (0, n)\<rparr>"
  have "0 < length (g_timer_pool (fst timer_example))" "faults (snd timer_example) = []"
    "faults (?k n) = []" "clock (snd timer_example) = (0, 0)" for n
    by (simp_all add: timer_example_state os_start_def)
  with timer_expires_after_timeout [OF _ _ _ _ _ s prod.collapse [symmetric], of "?k 499999999"]
    timer_expires_after_timeout [OF _ _ _ _ _ s prod.collapse [symmetric], of "?k 500000000"] s
  show ?thesis by (simp add: timer_example_state clock_ms_def)
qed

end
