(* ===== verification/Tftp_Client.thy ===== *)
theory Tftp_Client
  imports Tftp_Transfer
begin

text \<open>
  \<open>src/tftp/client\<close>: the life cycle of the single client object (the operations that the
  header declares for requests have no implementation in the repository).
\<close>

section \<open>State\<close>

record tftp_client_config_t =
  cc_server :: udp_endpoint_t
  cc_reactor :: ptr
  cc_transport :: ptr

record tftp_client =
  c_initialized :: bool
  c_running :: bool
  c_reactor :: ptr
  c_transport :: ptr
  c_transfer :: ptr

record client_state =
  g_client :: tftp_client
  g_client_in_use :: bool

definition client_state_init :: client_state where
  "client_state_init =
     \<lparr>g_client = \<lparr>c_initialized = False, c_running = False, c_reactor = None,
                  c_transport = None, c_transfer = None\<rparr>,
      g_client_in_use = False\<rparr>"

section \<open>Operations\<close>

definition tftp_client_acquire ::
  "ptr option \<Rightarrow> client_state \<Rightarrow> (tftp_status_t \<times> ptr option) \<times> client_state" where
  "tftp_client_acquire out s =
     (case out of
        None \<Rightarrow> ((TFTP_ERR_INVALID_ARGUMENT, None), s)
      | Some _ \<Rightarrow>
          if g_client_in_use s then ((TFTP_ERR_NO_RESOURCE, Some None), s)
          else ((TFTP_OK, Some (Some 0)), s\<lparr>g_client_in_use := True\<rparr>))"

definition tftp_client_init ::
  "ptr \<Rightarrow> tftp_client_config_t option \<Rightarrow> client_state \<Rightarrow> tftp_status_t \<times> client_state" where
  "tftp_client_init self config s =
     (case (self, config) of
        (Some _, Some c) \<Rightarrow>
          (TFTP_OK,
           s\<lparr>g_client := (g_client s)\<lparr>c_reactor := cc_reactor c, c_transport := cc_transport c,
               c_transfer := None, c_initialized := True, c_running := False\<rparr>\<rparr>)
      | _ \<Rightarrow> (TFTP_ERR_INVALID_ARGUMENT, s))"

definition tftp_client_start :: "ptr \<Rightarrow> client_state \<Rightarrow> tftp_status_t \<times> client_state" where
  "tftp_client_start self s =
     (case self of
        None \<Rightarrow> (TFTP_ERR_INVALID_ARGUMENT, s)
      | Some _ \<Rightarrow>
          if \<not> c_initialized (g_client s) then (TFTP_ERR_NOT_INITIALIZED, s)
          else (TFTP_OK, s\<lparr>g_client := (g_client s)\<lparr>c_running := True\<rparr>\<rparr>))"

definition tftp_client_stop :: "ptr \<Rightarrow> client_state \<Rightarrow> tftp_status_t \<times> client_state" where
  "tftp_client_stop self s =
     (case self of
        None \<Rightarrow> (TFTP_ERR_INVALID_ARGUMENT, s)
      | Some _ \<Rightarrow> (TFTP_OK, s\<lparr>g_client := (g_client s)\<lparr>c_running := False\<rparr>\<rparr>))"

definition tftp_client_deinit :: "ptr \<Rightarrow> client_state \<Rightarrow> tftp_status_t \<times> client_state" where
  "tftp_client_deinit self s =
     (case self of
        None \<Rightarrow> (TFTP_ERR_INVALID_ARGUMENT, s)
      | Some _ \<Rightarrow>
          (TFTP_OK, s\<lparr>g_client := (g_client s)\<lparr>c_running := False, c_transfer := None,
                        c_initialized := False\<rparr>\<rparr>))"

definition tftp_client_release ::
  "ptr option \<Rightarrow> client_state \<Rightarrow> ptr option \<times> client_state" where
  "tftp_client_release self s =
     (case self of
        Some (Some p) \<Rightarrow>
          if p = 0 then (Some None, s\<lparr>g_client_in_use := False\<rparr>) else (self, s)
      | _ \<Rightarrow> (self, s))"

section \<open>A pool of one\<close>

definition client_take :: "client_state \<Rightarrow> (tftp_status_t \<times> ptr) \<times> client_state" where
  "client_take s = (case tftp_client_acquire (Some None) s of ((st, p), s') \<Rightarrow> ((st, deref None p), s'))"

definition client_give :: "nat \<Rightarrow> client_state \<Rightarrow> client_state" where
  "client_give i s = snd (tftp_client_release (Some (Some i)) s)"

interpretation client_pool: object_pool "\<lambda>s. [g_client_in_use s]" client_take client_give "\<lambda>s. True"
  by unfold_locales
    (auto simp: client_take_def client_give_def tftp_client_acquire_def tftp_client_release_def split: if_splits)

section \<open>Every run of a client\<close>

inductive client_step :: "client_state \<Rightarrow> client_state \<Rightarrow> bool" where
  acquire: "tftp_client_acquire out s = (r, s') \<Longrightarrow> client_step s s'"
| init: "tftp_client_init p c s = (st, s') \<Longrightarrow> client_step s s'"
| start: "tftp_client_start p s = (st, s') \<Longrightarrow> client_step s s'"
| stop: "tftp_client_stop p s = (st, s') \<Longrightarrow> client_step s s'"
| deinit: "tftp_client_deinit p s = (st, s') \<Longrightarrow> client_step s s'"
| release: "tftp_client_release out s = (q, s') \<Longrightarrow> client_step s s'"

inductive client_reachable :: "client_state \<Rightarrow> bool" where
  start: "client_reachable client_state_init"
| step: "client_reachable s \<Longrightarrow> client_step s s' \<Longrightarrow> client_reachable s'"

lemma client_step_inv:
  "client_step s s' \<Longrightarrow> c_running (g_client s) \<longrightarrow> c_initialized (g_client s) \<Longrightarrow>
   c_running (g_client s') \<longrightarrow> c_initialized (g_client s')"
  by (induction rule: client_step.induct)
    (auto simp: tftp_client_acquire_def tftp_client_init_def tftp_client_start_def tftp_client_stop_def
      tftp_client_deinit_def tftp_client_release_def split: option.splits if_splits)

lemma client_reachable_inv: "client_reachable s \<Longrightarrow> c_running (g_client s) \<longrightarrow> c_initialized (g_client s)"
proof (induction rule: client_reachable.induct)
  case start
  then show ?case by (simp add: client_state_init_def)
next
  case (step s s')
  then show ?case using client_step_inv by blast
qed

text \<open>
  C39: In every run of the client module a client that runs is initialised, and it can be started
  exactly when it is initialised.  Giving the client back does not end it, though: whoever
  acquires it next gets a client that is still running, without having initialised it.
\<close>

theorem client_life_cycle:
  assumes "client_reachable s"
  shows "(c_running (g_client s) \<longrightarrow> c_initialized (g_client s)) \<and>
    (fst (tftp_client_start (Some 0) s) = TFTP_OK \<longleftrightarrow> c_initialized (g_client s)) \<and>
    (case tftp_client_acquire (Some None) (snd (tftp_client_release (Some (Some 0)) s)) of
       ((st, p), s') \<Rightarrow> st = TFTP_OK \<and> p = Some (Some 0) \<and> c_running (g_client s') = c_running (g_client s))"
  using client_reachable_inv [OF assms]
  by (simp add: tftp_client_start_def tftp_client_acquire_def tftp_client_release_def)

theorem client_life_cycle_witness:
  "c_running (g_client (snd (tftp_client_release (Some (Some 0))
     (snd (tftp_client_start (Some 0) (snd (tftp_client_init (Some 0)
        (Some \<lparr>cc_server = sockaddr_zero, cc_reactor = Some 0, cc_transport = Some 0\<rparr>)
        client_state_init)))))))" (is "c_running (g_client (snd (tftp_client_release _ ?s)))")
proof -
  have "client_reachable ?s"
    by (rule client_reachable.step [OF client_reachable.step [OF client_reachable.start]],
        rule client_step.init, rule prod.collapse [symmetric], rule client_step.start, rule prod.collapse [symmetric])
  from client_life_cycle [OF this]
  show ?thesis by (simp add: tftp_client_release_def tftp_client_acquire_def tftp_client_start_def tftp_client_init_def)
qed

end
