(* ===== verification/Legacy_Common.thy ===== *)
theory Legacy_Common
  imports Tftp_Blocks
begin

text \<open>
  What the stand-alone programs under \<open>src/legacy\<close> share: their constants, the way they read
  16-bit numbers through plain \<open>char\<close>, and the packets that they send.

  The parameter \<open>sc\<close> says whether plain \<open>char\<close> is signed, which C leaves to the
  implementation (it is on x86, it is not on ARM).  A void function returns \<open>Ended ()\<close>, a
  call that waits for ever is \<open>Blocked\<close>, and \<open>Undefined\<close> is an access outside an object,
  for which C defines nothing.
\<close>

section \<open>Constants and outcomes\<close>

definition PORT :: u16 where "PORT = 69"
definition BUFFER_SIZE :: nat where "BUFFER_SIZE = 516"
definition BLOCK_SIZE :: nat where "BLOCK_SIZE = 512"

definition RRQ :: int where "RRQ = 1"
definition WRQ :: int where "WRQ = 2"
definition DATA :: int where "DATA = 3"
definition ACK :: int where "ACK = 4"
definition ERROR :: int where "ERROR = 5"

definition MAX_RETRIES :: nat where "MAX_RETRIES = 5"

datatype 'a ending = Ended 'a | Blocked | Undefined

lemmas legacy_opcodes = RRQ_def WRQ_def DATA_def ACK_def ERROR_def

lemma legacy_sizes: "BUFFER_SIZE = 516" "BLOCK_SIZE = 512" "MAX_RETRIES = 5"
  by (simp_all add: BUFFER_SIZE_def BLOCK_SIZE_def MAX_RETRIES_def)

lemma BLOCK_SIZE_TFTP: "BLOCK_SIZE = TFTP_BLOCK_SIZE"
  by (simp add: BLOCK_SIZE_def block_bytes)

section \<open>Numbers in a char buffer\<close>

definition char_value :: "bool \<Rightarrow> u8 \<Rightarrow> int" where
  "char_value sc c = (if sc then sint c else uint c)"

text \<open>The expression \<open>(buffer[i] << 8) | buffer[i + 1]\<close>.\<close>

definition int_be :: "bool \<Rightarrow> bytes \<Rightarrow> nat \<Rightarrow> int" where
  "int_be sc b i = push_bit 8 (char_value sc (b ! i)) OR char_value sc (b ! (i + 1))"

text \<open>The two bytes \<open>(n >> 8) & 0xFF\<close> and \<open>n & 0xFF\<close>.\<close>

definition low_bytes :: "int \<Rightarrow> bytes" where
  "low_bytes n = [of_int (drop_bit 8 n AND 0xFF), of_int (n AND 0xFF)]"

lemma length_low_bytes [simp]: "length (low_bytes n) = 2"
  by (simp add: low_bytes_def)

lemma char_value_small:
  "b < 128 \<Longrightarrow> char_value sc b = uint b" for b :: u8
  by (cases sc) (auto simp: char_value_def sint_uint signed_take_bit_int_eq_self_iff word_less_def
      intro!: signed_take_bit_int_eq_self order_trans [OF _ uint_ge_0])

lemma char_value_eq_small:
  assumes "0 \<le> n" "n < 128"
  shows "char_value sc b = n \<longleftrightarrow> b = of_int n"
proof -
  have "of_int (char_value sc b) = b" by (simp add: char_value_def)
  moreover have "char_value sc (of_int n) = n"
    using assms by (subst char_value_small) (simp_all add: word_less_def uint_word_of_int_eq take_bit_int_eq_self)
  ultimately show ?thesis by metis
qed

lemma char_value_of_int:
  "0 \<le> n \<Longrightarrow> n < 256 \<Longrightarrow> char_value sc (of_int n) = (if sc \<and> 128 \<le> n then n - 256 else n)"
proof -
  assume n: "0 \<le> n" "n < 256"
  then have "128 \<le> n \<Longrightarrow> (n + 128) mod 256 = n - 128" "\<not> 128 \<le> n \<Longrightarrow> (n + 128) mod 256 = n + 128"
    by (simp_all add: mod_pos_pos_trivial mod_pos_geq)
  then show ?thesis using n
    by (simp add: char_value_def sint_uint signed_take_bit_eq_take_bit_shift uint_word_of_int_eq
        take_bit_int_eq_self take_bit_eq_mod)
qed

lemma low_bytes_eq: "low_bytes n = [of_int (n div 256 mod 256), of_int (n mod 256)]"
proof -
  have m: "(255 :: int) = mask 8" by (simp add: mask_eq_exp_minus_1)
  show ?thesis by (simp add: low_bytes_def m drop_bit_eq_div flip: take_bit_eq_mask) (simp add: take_bit_eq_mod)
qed

text \<open>
  The block numbers that survive the way over the wire into the receiver's \<open>int\<close>: with a signed
  \<open>char\<close> those whose low byte is below 128, and with an unsigned one all of 16 bits.
\<close>

definition recognised :: "bool \<Rightarrow> int \<Rightarrow> bool" where
  "recognised sc n \<longleftrightarrow> (if sc then n < 32768 \<and> n mod 256 < 128 else n < 65536)"

lemma or_low_byte:
  assumes "0 \<le> l" "l < 256"
  shows "push_bit 8 a OR l = 256 * a + (l :: int)"
proof -
  have l: "take_bit 8 l = l" using assms by (simp add: take_bit_int_eq_self)
  have "push_bit 8 a OR take_bit 8 l = push_bit 8 a + take_bit 8 l"
    by (rule disjunctive_add [symmetric]) (auto simp: bit_simps)
  then show ?thesis by (simp add: l push_bit_eq_mult)
qed

lemma int_be_low_bytes:
  assumes n: "0 \<le> n"
  shows "int_be sc (x # y # low_bytes n @ r) 2 = n \<longleftrightarrow> recognised sc n"
proof -
  define h l where "h = n div 256 mod 256" and "l = n mod 256"
  have b: "0 \<le> h" "h < 256" "0 \<le> l" "l < 256" by (simp_all add: h_def l_def)
  have e: "int_be sc (x # y # low_bytes n @ r) 2 =
      push_bit 8 (if sc \<and> 128 \<le> h then h - 256 else h) OR (if sc \<and> 128 \<le> l then l - 256 else l)"
    using b by (simp add: int_be_def low_bytes_eq char_value_of_int flip: h_def l_def)
  show ?thesis
  proof (cases "sc \<and> 128 \<le> l")
    case True
    have "int_be sc (x # y # low_bytes n @ r) 2 < 0" unfolding e using True b by simp
    with n have "int_be sc (x # y # low_bytes n @ r) 2 \<noteq> n" by linarith
    with True show ?thesis by (simp add: recognised_def flip: l_def)
  next
    case False
    have m: "256 * h + l = n mod 65536"
      using zmod_zmult2_eq [of 256 n 256] by (simp add: h_def l_def)
    have "int_be sc (x # y # low_bytes n @ r) 2 = 256 * (if sc \<and> 128 \<le> h then h - 256 else h) + l"
      unfolding e using False b or_low_byte by simp
    moreover have "n mod 65536 = n \<longleftrightarrow> n < 65536" 
      using n mod_pos_pos_trivial [of n 65536] pos_mod_bound [of 65536 n] by linarith
    ultimately have "int_be sc (x # y # low_bytes n @ r) 2 = n \<longleftrightarrow> n < 65536 \<and> \<not> (sc \<and> 128 \<le> h)"
      using m b n by auto
    moreover have "n < 65536 \<Longrightarrow> h < 128 \<longleftrightarrow> n < 32768"
      using m b n mod_pos_pos_trivial [of n 65536] by linarith
    ultimately show ?thesis using False by (auto simp: recognised_def simp flip: l_def)
  qed
qed

lemma low_bytes_of_nat: "low_bytes (int n) = u16_be (of_nat n)"
proof -
  have m: "(255 :: int) = mask 8" "(255 :: u16) = mask 8" by (simp_all add: mask_eq_exp_minus_1)
  show ?thesis unfolding low_bytes_def u16_be_def m
    by (auto intro!: bit_word_eqI simp: bit_simps)
qed

section \<open>Packets\<close>

definition data_packet :: "int \<Rightarrow> bytes \<Rightarrow> bytes" where
  "data_packet block data = [0, of_int DATA] @ low_bytes block @ data"

definition send_ack :: "int \<Rightarrow> sockaddr_in \<Rightarrow> int \<Rightarrow> os \<Rightarrow> os" where
  "send_ack sockfd addr block_num k =
     snd (sys_sendto sockfd ([0, of_int ACK] @ low_bytes block_num) addr k)"

definition send_error :: "int \<Rightarrow> sockaddr_in \<Rightarrow> int \<Rightarrow> bytes \<Rightarrow> os \<Rightarrow> os" where
  "send_error sockfd addr err message k =
     snd (sys_sendto sockfd ([0, of_int ERROR, 0, of_int err] @ message @ [0]) addr k)"

text \<open>They are packets of the format that the modular server parses and builds.\<close>

lemma data_packet_encode: "data_packet (int n) data = encode (Data (of_nat n) data)"
  by (simp add: data_packet_def low_bytes_of_nat legacy_opcodes) (simp add: u16_be_def)

lemma ack_packet_encode: "[0, of_int ACK] @ low_bytes (int n) = encode (Ack (of_nat n))"
  by (simp add: low_bytes_of_nat legacy_opcodes) (simp add: u16_be_def)

lemma length_data_packet [simp]: "length (data_packet n d) = 4 + length d"
  by (simp add: data_packet_def)

lemma data_packet_reads:
  "0 \<le> n \<Longrightarrow> int_be sc (data_packet n d @ r) 2 = n \<longleftrightarrow> recognised sc n"
  "int_be sc (data_packet n d @ r) 0 = DATA" "drop 4 (data_packet n d) = d"
  using int_be_low_bytes [of n sc 0 3 "d @ r"]
  by (simp_all add: data_packet_def legacy_opcodes low_bytes_def int_be_def char_value_of_int [of 3, simplified]
      char_value_of_int [of 0, simplified])

lemma ack_packet_reads:
  "0 \<le> n \<Longrightarrow> int_be sc ([0, of_int ACK] @ low_bytes n) 2 = n \<longleftrightarrow> recognised sc n"
  using int_be_low_bytes [of n sc 0 4 "[]"] by (simp add: legacy_opcodes)

section \<open>Receiving\<close>

text \<open>
  \<open>recvfrom(sockfd, buf, BUFFER_SIZE, 0, &addr, &addr_len)\<close> stores the datagram at the start of
  the buffer and the sender's address in \<open>addr\<close>; when it fails it stores nothing.
\<close>

datatype received = Got bytes sockaddr_in | Timeout | Failed | Waits

definition recv :: "int \<Rightarrow> os \<Rightarrow> received \<times> os" where
  "recv sockfd k =
     (case sys_recvfrom_wait sockfd BUFFER_SIZE k of
        (None, k) \<Rightarrow> (Waits, k)
      | (Some (IO_ok _, data, from), k) \<Rightarrow> (Got data from, k)
      | (Some (IO_again, _, _), k) \<Rightarrow> (Timeout, k)
      | (Some (IO_fail, _, _), k) \<Rightarrow> (Failed, k))"

text \<open>A receive either takes an answer off the script, or it fails or waits in the same state.\<close>

lemma recv_cases:
  assumes e: "recv fd k = (a, k')"
  obtains (taken) "rx k \<noteq> []" "k' = k\<lparr>rx := tl (rx k)\<rparr>" "a \<noteq> Waits" "fd \<in> set (fds k)"
  | (bad) "k' = k" "a = Failed" "fd \<notin> set (fds k)"
  | (timeout) "k' = k" "rx k = []" "a = Timeout" "fd \<in> set (rcvtimeo k)" "fd \<in> set (fds k)"
  | (waits) "k' = k" "rx k = []" "a = Waits" "fd \<notin> set (rcvtimeo k)" "fd \<in> set (fds k)"
  using e
  by (auto simp: recv_def sys_recvfrom_wait_def sys_recvfrom_def
      split: if_splits list.splits rx_answer.splits)

lemma recv_keeps:
  assumes "recv fd k = (a, k')"
  shows "streams k' = streams k" "fs k' = fs k" "fds k' = fds k" "sent k' = sent k"
    "faults k' = faults k" "next_stream k' = next_stream k" "rcvtimeo k' = rcvtimeo k"
  using assms by (rule recv_cases; simp)+

lemma recv_next:
  "fd \<in> set (fds k) \<Longrightarrow> rx k = Rx_data from d # r \<Longrightarrow> recv fd k = (Got (take BUFFER_SIZE d) from, k\<lparr>rx := r\<rparr>)"
  by (simp add: recv_def sys_recvfrom_wait_def sys_recvfrom_def)

lemma recv_next_short:
  "fd \<in> set (fds k) \<Longrightarrow> rx k = Rx_data from d # r \<Longrightarrow> length d \<le> BUFFER_SIZE \<Longrightarrow>
   recv fd k = (Got d from, k\<lparr>rx := r\<rparr>)"
  by (simp add: recv_next)

lemma recv_none:
  "fd \<in> set (fds k) \<Longrightarrow> rx k = [] \<Longrightarrow>
   recv fd k = (if fd \<in> set (rcvtimeo k) then Timeout else Waits, k)"
  by (simp add: recv_def sys_recvfrom_wait_def sys_recvfrom_def)

lemma recv_length: "recv fd k = (Got d from, k') \<Longrightarrow> length d \<le> BUFFER_SIZE"
  by (auto simp: recv_def sys_recvfrom_wait_def sys_recvfrom_def
      split: if_splits list.splits rx_answer.splits)

section \<open>Handlers between two receives\<close>

text \<open>
  A handler is a state machine: it runs from one \<open>recvfrom\<close> to the next.  \<open>Running d\<close> is a
  handler about to receive with the local variables \<open>d\<close>.
\<close>

datatype 'a progress = Running 'a | Stopped "unit ending"

text \<open>\<open>fclose(fp)\<close> at the end of a handler; its result is ignored.\<close>

definition close_and_stop :: "nat \<Rightarrow> os \<Rightarrow> 'a progress \<times> os" where
  "close_and_stop fp k = (Stopped (Ended ()), snd (sys_fclose fp k))"

end
