(* ===== verification/Legacy_Loop.thy ===== *)
theory Legacy_Loop
  imports Legacy_Common
begin

text \<open>
  The contract of a request handler: what one step between two receives may do to the streams
  and descriptors of the process, and what follows for the loop that runs it to its end.
\<close>

section \<open>Streams and descriptors\<close>

text \<open>The open streams with the descriptor of each.\<close>

definition open_streams :: "os \<Rightarrow> nat \<rightharpoonup> int" where
  "open_streams k = (\<lambda>s. map_option st_fd (streams k s))"

text \<open>\<open>E\<close> are the other descriptors of the process.\<close>

definition balanced :: "int set \<Rightarrow> os \<Rightarrow> bool" where
  "balanced E k \<longleftrightarrow> (\<forall>s\<in>dom (open_streams k). s < next_stream k) \<and>
     inj_on (open_streams k) (dom (open_streams k)) \<and>
     set (fds k) = E \<union> ran (open_streams k) \<and> E \<inter> ran (open_streams k) = {}"

text \<open>A call that opens and closes nothing; one that opens a stream, and one that closes it.\<close>

definition keeps_open :: "os \<Rightarrow> os \<Rightarrow> bool" where
  "keeps_open k k' \<longleftrightarrow> fds k' = fds k \<and> rcvtimeo k' = rcvtimeo k \<and> next_stream k' = next_stream k \<and>
     open_streams k' = open_streams k"

definition opens :: "nat \<Rightarrow> os \<Rightarrow> os \<Rightarrow> bool" where
  "opens s k k' \<longleftrightarrow> s = next_stream k \<and> next_stream k' = Suc s \<and> rcvtimeo k' = rcvtimeo k \<and>
     (\<exists>fd. fd \<notin> set (fds k) \<and> fds k' = fd # fds k \<and> open_streams k' = (open_streams k)(s \<mapsto> fd))"

definition closes :: "nat \<Rightarrow> os \<Rightarrow> os \<Rightarrow> bool" where
  "closes s k k' \<longleftrightarrow> next_stream k' = next_stream k \<and> rcvtimeo k' = rcvtimeo k \<and>
     open_streams k' = (open_streams k)(s := None) \<and>
     fds k' = (case open_streams k s of None \<Rightarrow> fds k | Some fd \<Rightarrow> removeAll fd (fds k))"

lemma keeps_open_refl [simp]: "keeps_open k k"
  by (simp add: keeps_open_def)

lemma keeps_open_trans: "keeps_open a b \<Longrightarrow> keeps_open b c \<Longrightarrow> keeps_open a c"
  by (simp add: keeps_open_def)

lemma keeps_then_closes: "keeps_open a b \<Longrightarrow> closes s b c \<Longrightarrow> closes s a c"
  by (simp add: keeps_open_def closes_def split: option.splits)

lemma closes_then_keeps: "closes s a b \<Longrightarrow> keeps_open b c \<Longrightarrow> closes s a c"
  by (simp add: keeps_open_def closes_def)

lemma opens_then_keeps: "opens s a b \<Longrightarrow> keeps_open b c \<Longrightarrow> opens s a c"
  by (auto simp: keeps_open_def opens_def)

lemma balanced_keeps: "balanced E k \<Longrightarrow> keeps_open k k' \<Longrightarrow> balanced E k'"
  by (simp add: balanced_def keeps_open_def)

lemma balanced_opens:
  assumes b: "balanced E k" and o: "opens s k k'"
  shows "balanced E k' \<and> open_streams k s = None"
proof -
  from o obtain fd where fd: "s = next_stream k" "next_stream k' = Suc s" "fd \<notin> set (fds k)"
    "fds k' = fd # fds k" "open_streams k' = (open_streams k)(s \<mapsto> fd)" by (auto simp: opens_def)
  have new: "s \<notin> dom (open_streams k)" using b fd(1) by (auto simp: balanced_def)
  then have r: "ran ((open_streams k)(s \<mapsto> fd)) = insert fd (ran (open_streams k))" by (auto simp: dom_def)
  have "inj_on ((open_streams k)(s \<mapsto> fd)) (insert s (dom (open_streams k)))"
    using b fd(3) new unfolding balanced_def inj_on_def by (auto simp: ran_def)
  with b fd new r show ?thesis by (auto simp: balanced_def less_Suc_eq)
qed

lemma balanced_closes:
  assumes b: "balanced E k" and c: "closes s k k'"
  shows "balanced E k'"
proof (cases "open_streams k s")
  case None
  then have "(open_streams k)(s := None) = open_streams k" by (simp add: fun_upd_idem)
  with c None have "keeps_open k k'" by (simp add: closes_def keeps_open_def)
  with b show ?thesis by (rule balanced_keeps)
next
  case (Some fd)
  have i: "a = s" if "open_streams k a = Some fd" for a
    using b Some that unfolding balanced_def by (metis domI inj_onD)
  have "ran ((open_streams k)(s := None)) = ran (open_streams k) - {fd}"
  proof (intro set_eqI iffI)
    fix x assume "x \<in> ran ((open_streams k)(s := None))"
    then obtain a where a: "a \<noteq> s" "open_streams k a = Some x" by (auto simp: ran_def split: if_splits)
    then have "x \<noteq> fd" using i by blast
    with a show "x \<in> ran (open_streams k) - {fd}" by (auto intro: ranI)
  next
    fix x assume "x \<in> ran (open_streams k) - {fd}"
    then obtain a where "open_streams k a = Some x" "x \<noteq> fd" by (auto simp: ran_def)
    then have "((open_streams k)(s := None)) a = Some x" using Some by auto
    then show "x \<in> ran ((open_streams k)(s := None))" by (rule ranI)
  qed
  moreover have "inj_on ((open_streams k)(s := None)) (dom (open_streams k) - {s})"
    using b unfolding balanced_def inj_on_def by auto
  ultimately show ?thesis using b c Some by (auto simp: balanced_def closes_def ranI)
qed

section \<open>The calls of a handler\<close>

lemma open_streams_upd: "streams k s = Some st \<Longrightarrow> st_fd st' = st_fd st \<Longrightarrow>
   streams k' = (streams k)(s \<mapsto> st') \<Longrightarrow> open_streams k' = open_streams k"
  by (auto simp: open_streams_def)

lemma next_fault_keeps: "keeps_open k (k\<lparr>faults := f\<rparr>)"
  by (simp add: keeps_open_def open_streams_def)

lemma recv_keeps_open: "recv fd k = (a, k') \<Longrightarrow> keeps_open k k'"
  using recv_keeps [of fd k a k'] by (simp add: keeps_open_def open_streams_def)

lemma sendto_keeps_open: "keeps_open k (snd (sys_sendto fd b a k))"
  by (auto simp: sys_sendto_def next_fault_def keeps_open_def open_streams_def
      split: list.splits if_splits fault.splits)

lemma fread_keeps_open: "keeps_open k (snd (sys_fread s n k))"
  by (auto simp: sys_fread_def next_fault_def keeps_open_def open_streams_def Let_def
      split: list.splits option.splits)

lemma fwrite_keeps_open: "keeps_open k (snd (sys_fwrite s b k))"
  by (auto simp: sys_fwrite_def next_fault_def keeps_open_def open_streams_def Let_def
      split: list.splits option.splits)

lemma fclose_closes: "closes s k (snd (sys_fclose s k))"
  by (auto simp: sys_fclose_def next_fault_def closes_def open_streams_def split: list.splits option.splits)

lemma fopen_opens:
  assumes "sys_fopen path wr k = (r, k')"
  shows "case r of None \<Rightarrow> keeps_open k k' | Some s \<Rightarrow> opens s k k'"
  using assms
  by (auto simp: sys_fopen_def next_fault_def keeps_open_def opens_def open_streams_def Let_def fun_eq_iff
      split: list.splits if_splits)

lemmas keeps_open_calls = recv_keeps_open sendto_keeps_open fread_keeps_open fwrite_keeps_open

lemma opens_closes:
  assumes "balanced E a" "opens s a b" "closes s b c"
  shows "fds c = fds a \<and> open_streams c = open_streams a \<and> rcvtimeo c = rcvtimeo a"
proof -
  have "open_streams a s = None" using balanced_opens [OF assms(1,2)] by simp
  then have "(open_streams a)(s := None) = open_streams a" by (simp add: fun_upd_idem)
  with assms(2,3) show ?thesis by (auto simp: opens_def closes_def)
qed

section \<open>The contract\<close>

text \<open>
  What every handler promises: a step that keeps running uses up some of its work, leaves all
  streams open and sends at most one datagram; a step that ends closes the handler's stream and
  sends at most \<open>last_sends\<close> datagrams; only a socket without a timeout makes it wait.
\<close>

locale handler =
  fixes sockfd :: int
    and answer :: "'d \<Rightarrow> os \<Rightarrow> 'd progress \<times> os"
    and loop :: "'d \<Rightarrow> os \<Rightarrow> unit ending \<times> os"
    and fp :: "'d \<Rightarrow> nat"
    and work :: "'d \<Rightarrow> os \<Rightarrow> nat"
    and last_sends :: nat
  assumes loop_step: "loop d k =
      (case answer d k of (Running d', k') \<Rightarrow> loop d' k' | (Stopped e, k') \<Rightarrow> (e, k'))"
    and works: "answer d k = (Running d', k') \<Longrightarrow> work d' k' < work d k"
    and runs: "answer d k = (Running d', k') \<Longrightarrow> fp d' = fp d \<and> keeps_open k k'"
    and stops: "answer d k = (Stopped e, k') \<Longrightarrow>
      if e = Ended () then closes (fp d) k k' else keeps_open k k'"
    and waits: "answer d k = (Stopped Blocked, k') \<Longrightarrow> sockfd \<notin> set (rcvtimeo k) \<and> rx k' = []"
    and sends: "answer d k = (r, k') \<Longrightarrow>
      length (sent k') \<le> length (sent k) + (case r of Running _ \<Rightarrow> 1 | Stopped _ \<Rightarrow> last_sends)"
begin

lemma loop_induct [consumes 1, case_names stop run]:
  assumes l: "loop d k = (e, k')"
    and stop: "\<And>d k e k'. answer d k = (Stopped e, k') \<Longrightarrow> P d k e k'"
    and run: "\<And>d k d' k' e k''. answer d k = (Running d', k') \<Longrightarrow> P d' k' e k'' \<Longrightarrow> P d k e k''"
  shows "P d k e k'"
  using l
proof (induction "work d k" arbitrary: d k rule: less_induct)
  case less
  obtain r k1 where a: "answer d k = (r, k1)" by fastforce
  show ?case
  proof (cases r)
    case (Running d1)
    with a less.prems have "loop d1 k1 = (e, k')" by (simp add: loop_step [of d k])
    with less.hyps works a Running have "P d1 k1 e k'" by simp
    with run a Running show ?thesis by blast
  next
    case (Stopped e1)
    with a less.prems have "e1 = e" "k1 = k'" by (simp_all add: loop_step [of d k])
    with stop a Stopped show ?thesis by blast
  qed
qed

lemma loop_effect:
  "loop d k = (e, k') \<Longrightarrow> if e = Ended () then closes (fp d) k k' else keeps_open k k'"
proof (induction rule: loop_induct)
  case (run d k d' k' e k'')
  with runs [OF run(1)] show ?case
    using keeps_then_closes [of k k' "fp d" k''] keeps_open_trans [of k k' k''] by (auto split: if_splits)
qed (rule stops)

text \<open>With a receive timeout the handler ends: no peer and no network can hold it for ever.\<close>

lemma loop_never_waits: "loop d k = (e, k') \<Longrightarrow> sockfd \<in> set (rcvtimeo k) \<Longrightarrow> e \<noteq> Blocked"
proof (induction rule: loop_induct)
  case (run d k d' k' e k'')
  with runs [OF run(1)] show ?case by (auto simp: keeps_open_def)
qed (use waits in blast)

lemma loop_sends: "loop d k = (e, k') \<Longrightarrow> length (sent k') \<le> length (sent k) + work d k + last_sends"
proof (induction rule: loop_induct)
  case (stop d k e k')
  from sends [OF stop] show ?case by simp
next
  case (run d k d' k' e k'')
  from sends [OF run(1)] works [OF run(1)] run(2) show ?case by simp
qed

text \<open>A handler that opened its stream leaves the process as it found it.\<close>

lemma loop_balanced:
  assumes b: "balanced E k0" and o: "opens (fp d) k0 k" and l: "loop d k = (e, k')"
  shows "balanced E k' \<and> (e = Ended () \<longrightarrow> open_streams k' = open_streams k0 \<and> fds k' = fds k0)"
proof (cases "e = Ended ()")
  case True
  with loop_effect [OF l] have c: "closes (fp d) k k'" by simp
  with opens_closes [OF b o c] balanced_closes [OF _ c] balanced_opens [OF b o] show ?thesis by simp
next
  case False
  with loop_effect [OF l] balanced_keeps balanced_opens [OF b o] show ?thesis by auto
qed

text \<open>A whole handler, from its start: it opens a stream and loops, or it ends at once.\<close>

lemma run_restores:
  assumes b: "balanced E k" and t: "sockfd \<in> set (rcvtimeo k)"
    and s: "(\<exists>d. r = Running d \<and> opens (fp d) k k1) \<or> r = Stopped (Ended ()) \<and> keeps_open k k1"
    and l: "(case r of Running d \<Rightarrow> loop d k1 | Stopped e \<Rightarrow> (e, k1)) = (e, k')"
  shows "e = Undefined \<or>
    e = Ended () \<and> fds k' = fds k \<and> open_streams k' = open_streams k \<and> rcvtimeo k' = rcvtimeo k"
  using s
proof
  assume "\<exists>d. r = Running d \<and> opens (fp d) k k1"
  then obtain d where d: "r = Running d" "opens (fp d) k k1" by blast
  with l have r: "loop d k1 = (e, k')" by simp
  have "sockfd \<in> set (rcvtimeo k1)" using t d(2) by (simp add: opens_def)
  with loop_never_waits [OF r] have "e \<noteq> Blocked" by blast
  moreover have "rcvtimeo k' = rcvtimeo k"
    using loop_effect [OF r] d(2) by (auto simp: opens_def closes_def keeps_open_def split: if_splits)
  ultimately show ?thesis using loop_balanced [OF b d(2) r] by (cases e) auto
next
  assume "r = Stopped (Ended ()) \<and> keeps_open k k1"
  with l show ?thesis by (auto simp: keeps_open_def)
qed

end

section \<open>Datagrams sent\<close>

lemma sent_calls [simp]:
  "sent (snd (sys_fread s n k)) = sent k" "sent (snd (sys_fwrite s b k)) = sent k"
  "sent (snd (sys_fclose s k)) = sent k"
  by (auto simp: sys_fread_def sys_fwrite_def sys_fclose_def next_fault_def Let_def
      split: list.splits option.splits)

lemma sendto_sent_le: "length (sent (snd (sys_sendto fd b a k))) \<le> Suc (length (sent k))"
  using sys_sendto_effect [of fd b a k] by (auto simp: prod_eq_iff)

lemma send_ack_keeps: "keeps_open k (send_ack fd a n k)" "length (sent (send_ack fd a n k)) \<le> Suc (length (sent k))"
  by (simp_all add: send_ack_def sendto_keeps_open sendto_sent_le)

lemma send_error_keeps: "keeps_open k (send_error fd a n m k)" "length (sent (send_error fd a n m k)) \<le> Suc (length (sent k))"
  by (simp_all add: send_error_def sendto_keeps_open sendto_sent_le)

lemma close_and_stop_effect:
  assumes "close_and_stop s k = (r, k')"
  shows "r = Stopped (Ended ()) \<and> closes s k k' \<and> sent k' = sent k"
  using assms fclose_closes [of s k] by (auto simp: close_and_stop_def)

end
