(* ===== verification/Legacy_Handlers.thy ===== *)
theory Legacy_Handlers
  imports Legacy_Loop
begin

text \<open>
  The request handlers of \<open>src/legacy/TFTP_Server.c\<close> and of the servers it grew out of
  (\<open>TFTP_RRQ_WRQ_Server.c\<close>, \<open>TFTP_Server_WRQ.c\<close>).  Each handler is given as its start and its
  reaction to one receive, so that the multi-threaded server can interleave them, and as the
  loop that the single-threaded servers run to its end.
\<close>

section \<open>handle_rrq\<close>

text \<open>
  The local variables: the client's address (which every received datagram overwrites), the
  open file, the packet in the buffer, \<open>block\<close>, \<open>bytesRead\<close> and \<open>retries\<close>.
\<close>

record outgoing =
  d_addr :: sockaddr_in
  d_fp :: nat
  d_packet :: bytes
  d_block :: int
  d_bytes :: nat
  d_retries :: nat

definition rrq_resend :: "int \<Rightarrow> outgoing \<Rightarrow> os \<Rightarrow> outgoing progress \<times> os" where
  "rrq_resend sockfd d k = (Running d, snd (sys_sendto sockfd (d_packet d) (d_addr d) k))"

definition rrq_block :: "int \<Rightarrow> outgoing \<Rightarrow> os \<Rightarrow> outgoing progress \<times> os" where
  "rrq_block sockfd d k =
     (case sys_fread (d_fp d) BLOCK_SIZE k of (data, k) \<Rightarrow>
        rrq_resend sockfd
          (d\<lparr>d_bytes := length data, d_packet := data_packet (d_block d) data, d_retries := 0\<rparr>) k)"

text \<open>The condition at the end of the loop.\<close>

definition rrq_continue :: "int \<Rightarrow> outgoing \<Rightarrow> os \<Rightarrow> outgoing progress \<times> os" where
  "rrq_continue sockfd d k =
     (if d_bytes d = BLOCK_SIZE then rrq_block sockfd d k else close_and_stop (d_fp d) k)"

definition rrq_answer :: "bool \<Rightarrow> int \<Rightarrow> outgoing \<Rightarrow> os \<Rightarrow> outgoing progress \<times> os" where
  "rrq_answer sc sockfd d k =
     (case recv sockfd k of
        (Waits, k) \<Rightarrow> (Stopped Blocked, k)
      | (Got ack_buf from, k) \<Rightarrow>
          let d = d\<lparr>d_addr := from\<rparr> in
          if 4 \<le> length ack_buf \<and> char_value sc (ack_buf ! 1) = ACK \<and> int_be sc ack_buf 2 = d_block d
          then rrq_continue sockfd (d\<lparr>d_block := d_block d + 1\<rparr>) k
          else rrq_continue sockfd d k
      | (Timeout, k) \<Rightarrow>
          let d = d\<lparr>d_retries := d_retries d + 1\<rparr> in
          if d_retries d \<le> MAX_RETRIES then rrq_resend sockfd d k else close_and_stop (d_fp d) k
      | (Failed, k) \<Rightarrow> rrq_continue sockfd d k)"

definition rrq_begin :: "int \<Rightarrow> sockaddr_in \<Rightarrow> bytes \<Rightarrow> os \<Rightarrow> outgoing progress \<times> os" where
  "rrq_begin sockfd addr filename k =
     (case sys_fopen filename False k of
        (None, k) \<Rightarrow> (Stopped (Ended ()), send_error sockfd addr 1 (cstr ''File not found'') k)
      | (Some fp, k) \<Rightarrow>
          rrq_block sockfd \<lparr>d_addr = addr, d_fp = fp, d_packet = [], d_block = 1, d_bytes = 0,
            d_retries = 0\<rparr> k)"

subsection \<open>Termination\<close>

text \<open>
  Whatever the network does, every step uses up a retry or a full block of the file: after a
  short block the loop ends at the next answer.
\<close>

definition unread :: "nat \<Rightarrow> os \<Rightarrow> nat" where
  "unread fp k = (case streams k fp of None \<Rightarrow> 0 | Some st \<Rightarrow> length (stream_content k st) - st_pos st)"

definition rrq_work :: "outgoing \<Rightarrow> os \<Rightarrow> nat" where
  "rrq_work d k = (if d_bytes d = BLOCK_SIZE then 6 * (unread (d_fp d) k div BLOCK_SIZE + 1) else 0) +
     (MAX_RETRIES - d_retries d)"

lemma unread_same: "streams k' = streams k \<Longrightarrow> fs k' = fs k \<Longrightarrow> unread fp k' = unread fp k"
  by (simp add: unread_def stream_content_def split: option.splits)

lemma sys_fread_unread:
  assumes "sys_fread fp n k = (data, k')"
  shows "unread fp k = length data + unread fp k' \<and> length data \<le> n"
proof (cases "streams k fp")
  case None
  with assms show ?thesis by (simp add: sys_fread_def)
next
  case (Some st)
  with assms show ?thesis
    by (auto simp: sys_fread_def unread_def stream_content_def read_amount_def Let_def next_fault_def
        split: list.splits fault.splits option.splits)
qed

lemma sys_sendto_streams:
  "streams (snd (sys_sendto fd b a k)) = streams k" "fs (snd (sys_sendto fd b a k)) = fs k"
  using sys_sendto_effect [of fd b a k] by (simp_all add: disk_same_def prod_eq_iff)

lemma rrq_block_work:
  assumes e: "rrq_block fd d k = (Running d', k')" and full: "d_bytes d = BLOCK_SIZE"
  shows "rrq_work d' k' < rrq_work d k"
proof -
  obtain data k1 where r: "sys_fread (d_fp d) BLOCK_SIZE k = (data, k1)" by fastforce
  have k': "unread fp k' = unread fp k1" for fp
    using e r unread_same [of k' k1] by (auto simp: rrq_block_def rrq_resend_def sys_sendto_streams)
  have "d_fp d' = d_fp d" "d_retries d' = 0" "d_bytes d' = length data"
    using e r by (auto simp: rrq_block_def rrq_resend_def)
  moreover have "(512 + u) div 512 = Suc (u div 512)" for u :: nat by (simp add: div_add_self1)
  ultimately show ?thesis
    using sys_fread_unread [OF r] full k' by (auto simp: rrq_work_def legacy_sizes)
qed

lemma rrq_answer_work:
  assumes e: "rrq_answer sc fd d k = (Running d', k')"
  shows "rrq_work d' k' < rrq_work d k"
proof -
  obtain a k1 where r: "recv fd k = (a, k1)" by fastforce
  have k1: "unread fp k1 = unread fp k" for fp
    by (rule unread_same [OF recv_keeps(1,2) [OF r]])
  have cont: "rrq_work d' k' < rrq_work d k"
    if "rrq_continue fd d1 k1 = (Running d', k')" "d_fp d1 = d_fp d" "d_bytes d1 = d_bytes d"
      "d_retries d1 = d_retries d" for d1
    using that rrq_block_work [of fd d1 k1 d' k']
    by (auto simp: rrq_continue_def close_and_stop_def rrq_work_def k1 split: if_splits)
  show ?thesis
  proof (cases a)
    case Timeout
    with e r show ?thesis
      by (auto simp: rrq_answer_def Let_def rrq_resend_def close_and_stop_def rrq_work_def
          unread_same [OF sys_sendto_streams] k1 split: if_splits)
  qed (use e r in \<open>auto simp: rrq_answer_def Let_def intro!: cont split: if_splits\<close>)
qed

function rrq_loop :: "bool \<Rightarrow> int \<Rightarrow> outgoing \<Rightarrow> os \<Rightarrow> unit ending \<times> os" where
  "rrq_loop sc sockfd d k =
     (case rrq_answer sc sockfd d k of
        (Running d, k) \<Rightarrow> rrq_loop sc sockfd d k
      | (Stopped e, k) \<Rightarrow> (e, k))"
  by pat_completeness auto
termination
  by (relation "measure (\<lambda>(sc, fd, d, k). rrq_work d k)") (auto dest: rrq_answer_work [OF sym])

declare rrq_loop.simps [simp del]

definition handle_rrq :: "bool \<Rightarrow> int \<Rightarrow> sockaddr_in \<Rightarrow> bytes \<Rightarrow> os \<Rightarrow> unit ending \<times> os" where
  "handle_rrq sc sockfd client_addr filename k =
     (case rrq_begin sockfd client_addr filename k of
        (Running d, k) \<Rightarrow> rrq_loop sc sockfd d k
      | (Stopped e, k) \<Rightarrow> (e, k))"

subsection \<open>The handler of TFTP_RRQ_WRQ_Server.c\<close>

text \<open>
  It tests for a timeout after the test for an acknowledgement and not in its else branch.  No
  answer passes both tests, so it does the same.
\<close>

definition rw_rrq_answer :: "bool \<Rightarrow> int \<Rightarrow> outgoing \<Rightarrow> os \<Rightarrow> outgoing progress \<times> os" where
  "rw_rrq_answer sc sockfd d k =
     (case recv sockfd k of
        (Waits, k) \<Rightarrow> (Stopped Blocked, k)
      | (answer, k) \<Rightarrow>
          let d = (case answer of Got _ from \<Rightarrow> d\<lparr>d_addr := from\<rparr> | _ \<Rightarrow> d);
              acked = (case answer of
                  Got ack_buf _ \<Rightarrow> 4 \<le> length ack_buf \<and> char_value sc (ack_buf ! 1) = ACK \<and>
                    int_be sc ack_buf 2 = d_block d
                | _ \<Rightarrow> False) in
          if acked then rrq_continue sockfd (d\<lparr>d_block := d_block d + 1\<rparr>) k
          else if answer = Timeout then
            let d = d\<lparr>d_retries := d_retries d + 1\<rparr> in
            if d_retries d \<le> MAX_RETRIES then rrq_resend sockfd d k else close_and_stop (d_fp d) k
          else rrq_continue sockfd d k)"

lemma rw_rrq_answer_same: "rw_rrq_answer = rrq_answer"
  by (auto simp: fun_eq_iff rw_rrq_answer_def rrq_answer_def Let_def split: prod.splits received.splits)

function rw_rrq_loop :: "bool \<Rightarrow> int \<Rightarrow> outgoing \<Rightarrow> os \<Rightarrow> unit ending \<times> os" where
  "rw_rrq_loop sc sockfd d k =
     (case rw_rrq_answer sc sockfd d k of
        (Running d, k) \<Rightarrow> rw_rrq_loop sc sockfd d k
      | (Stopped e, k) \<Rightarrow> (e, k))"
  by pat_completeness auto
termination
  by (relation "measure (\<lambda>(sc, fd, d, k). rrq_work d k)")
    (auto simp: rw_rrq_answer_same dest: rrq_answer_work [OF sym])

declare rw_rrq_loop.simps [simp del]

lemma rw_rrq_loop_same: "rw_rrq_loop sc fd d k = rrq_loop sc fd d k"
proof (induction sc fd d k rule: rw_rrq_loop.induct)
  case (1 sc fd d k)
  then show ?case
    unfolding rw_rrq_loop.simps [of sc fd d k] rrq_loop.simps [of sc fd d k] rw_rrq_answer_same
    by (auto split: prod.splits progress.splits)
qed

definition rw_handle_rrq :: "bool \<Rightarrow> int \<Rightarrow> sockaddr_in \<Rightarrow> bytes \<Rightarrow> os \<Rightarrow> unit ending \<times> os" where
  "rw_handle_rrq sc sockfd client_addr filename k =
     (case rrq_begin sockfd client_addr filename k of
        (Running d, k) \<Rightarrow> rw_rrq_loop sc sockfd d k
      | (Stopped e, k) \<Rightarrow> (e, k))"

lemma rw_handle_rrq_same [simp]: "rw_handle_rrq = handle_rrq"
  by (simp add: fun_eq_iff rw_handle_rrq_def handle_rrq_def rw_rrq_loop_same split: prod.splits progress.splits)

section \<open>handle_wrq\<close>

text \<open>
  The local variables: the open file, \<open>expected_block\<close>, \<open>retries\<close> and the whole buffer, since
  a short datagram leaves the rest of the one before in it.  The buffer starts with what the
  stack holds (\<open>stack\<close>, 516 bytes).
\<close>

record incoming =
  w_addr :: sockaddr_in
  w_fp :: nat
  w_buffer :: bytes
  w_expected :: int
  w_retries :: nat

definition wrq_begin :: "int \<Rightarrow> bytes \<Rightarrow> sockaddr_in \<Rightarrow> bytes \<Rightarrow> os \<Rightarrow> incoming progress \<times> os" where
  "wrq_begin sockfd stack addr filename k =
     (case sys_fopen filename True k of
        (None, k) \<Rightarrow> (Stopped (Ended ()), send_error sockfd addr 2 (cstr ''Cannot create file'') k)
      | (Some fp, k) \<Rightarrow>
          (Running \<lparr>w_addr = addr, w_fp = fp, w_buffer = stack, w_expected = 1, w_retries = 0\<rparr>,
           send_ack sockfd addr 0 k))"

text \<open>
  A received packet of \<open>n\<close> bytes, from the computation of \<open>opcode\<close> and \<open>block\<close> on.  For \<open>n < 4\<close>
  the count \<open>n - 4\<close> is negative and becomes a huge \<open>size_t\<close>: \<open>fwrite\<close> reads beyond the buffer.
\<close>

definition wrq_packet :: "bool \<Rightarrow> int \<Rightarrow> sockaddr_in \<Rightarrow> nat \<Rightarrow> incoming \<Rightarrow> os \<Rightarrow> incoming progress \<times> os" where
  "wrq_packet sc sockfd from n w k =
     (let opcode = int_be sc (w_buffer w) 0; block = int_be sc (w_buffer w) 2 in
      if opcode = DATA \<and> block = w_expected w then
        if n < 4 then (Stopped Undefined, k)
        else
          let k = snd (sys_fwrite (w_fp w) (take (n - 4) (drop 4 (w_buffer w))) k);
              k = send_ack sockfd from block k in
          if n < BUFFER_SIZE then close_and_stop (w_fp w) k
          else (Running (w\<lparr>w_expected := w_expected w + 1\<rparr>), k)
      else (Running w, k))"

text \<open>The loop of \<open>TFTP_Server.c\<close>, which bounds the timeouts in a row.\<close>

definition wrq_answer :: "bool \<Rightarrow> int \<Rightarrow> incoming \<Rightarrow> os \<Rightarrow> incoming progress \<times> os" where
  "wrq_answer sc sockfd w k =
     (case recv sockfd k of
        (Waits, k) \<Rightarrow> (Stopped Blocked, k)
      | (Got data from, k) \<Rightarrow>
          wrq_packet sc sockfd from (length data)
            (w\<lparr>w_buffer := memcpy_at 0 data (w_buffer w), w_retries := 0\<rparr>) k
      | (Timeout, k) \<Rightarrow>
          let w = w\<lparr>w_retries := w_retries w + 1\<rparr> in
          if w_retries w \<le> MAX_RETRIES then (Running w, k) else close_and_stop (w_fp w) k
      | (Failed, k) \<Rightarrow> close_and_stop (w_fp w) k)"

text \<open>
  The loop of \<open>TFTP_RRQ_WRQ_Server.c\<close>, which gives up at the first failure and keeps the
  sender's address in the variable \<open>client_addr\<close>.
\<close>

definition wrq_answer_once :: "bool \<Rightarrow> int \<Rightarrow> incoming \<Rightarrow> os \<Rightarrow> incoming progress \<times> os" where
  "wrq_answer_once sc sockfd w k =
     (case recv sockfd k of
        (Waits, k) \<Rightarrow> (Stopped Blocked, k)
      | (Got data from, k) \<Rightarrow>
          wrq_packet sc sockfd from (length data)
            (w\<lparr>w_addr := from, w_buffer := memcpy_at 0 data (w_buffer w)\<rparr>) k
      | (Timeout, k) \<Rightarrow> close_and_stop (w_fp w) k
      | (Failed, k) \<Rightarrow> close_and_stop (w_fp w) k)"

text \<open>
  Either loop runs on while answers arrive; a timeout leaves one retry less.
\<close>

definition wrq_work :: "incoming \<Rightarrow> os \<Rightarrow> nat" where
  "wrq_work w k = length (rx k) * 6 + (MAX_RETRIES - w_retries w)"

lemma sys_fwrite_rx: "rx (snd (sys_fwrite fp b k)) = rx k"
  by (auto simp: sys_fwrite_def Let_def next_fault_def split: option.splits list.splits)

lemma sys_sendto_rx: "rx (snd (sys_sendto fd b a k)) = rx k"
  using sys_sendto_effect [of fd b a k] by (simp add: prod_eq_iff)

lemma wrq_packet_running:
  assumes "wrq_packet sc fd from n w k = (Running w', k')"
  shows "rx k' = rx k \<and> w_retries w' = w_retries w"
  using assms
  by (auto simp: wrq_packet_def Let_def close_and_stop_def send_ack_def sys_fwrite_rx sys_sendto_rx
      split: if_splits)

lemma length_tl_less: "xs \<noteq> [] \<Longrightarrow> length (tl xs) < length xs"
  by (cases xs) simp_all

lemma wrq_answer_work:
  assumes e: "wrq_answer sc fd w k = (Running w', k')"
  shows "wrq_work w' k' < wrq_work w k"
proof -
  obtain a k1 where r: "recv fd k = (a, k1)" by fastforce
  from r show ?thesis
  proof (cases rule: recv_cases)
    case taken
    have "rx k' = rx k1" using e r taken(3)
      by (auto simp: wrq_answer_def Let_def close_and_stop_def dest: wrq_packet_running
          split: received.splits if_splits)
    then have "rx k' = tl (rx k)" using taken(2) by simp
    with length_tl_less [OF taken(1)] show ?thesis by (simp add: wrq_work_def legacy_sizes)
  next
    case timeout
    with e r show ?thesis
      by (auto simp: wrq_answer_def Let_def close_and_stop_def wrq_work_def split: if_splits)
  qed (use e r in \<open>auto simp: wrq_answer_def close_and_stop_def\<close>)
qed

lemma wrq_answer_once_work:
  assumes e: "wrq_answer_once sc fd w k = (Running w', k')"
  shows "length (rx k') < length (rx k)"
proof -
  obtain a k1 where r: "recv fd k = (a, k1)" by fastforce
  from r show ?thesis
  proof (cases rule: recv_cases)
    case taken
    have "rx k' = rx k1" using e r taken(3)
      by (auto simp: wrq_answer_once_def Let_def close_and_stop_def dest: wrq_packet_running
          split: received.splits if_splits)
    then have "rx k' = tl (rx k)" using taken(2) by simp
    with length_tl_less [OF taken(1)] show ?thesis by simp
  qed (use e r in \<open>auto simp: wrq_answer_once_def close_and_stop_def\<close>)
qed

function wrq_loop :: "bool \<Rightarrow> int \<Rightarrow> incoming \<Rightarrow> os \<Rightarrow> unit ending \<times> os" where
  "wrq_loop sc sockfd w k =
     (case wrq_answer sc sockfd w k of
        (Running w, k) \<Rightarrow> wrq_loop sc sockfd w k
      | (Stopped e, k) \<Rightarrow> (e, k))"
  by pat_completeness auto
termination
  by (relation "measure (\<lambda>(sc, fd, w, k). wrq_work w k)") (auto dest: wrq_answer_work [OF sym])

function wrq_loop_once :: "bool \<Rightarrow> int \<Rightarrow> incoming \<Rightarrow> os \<Rightarrow> unit ending \<times> os" where
  "wrq_loop_once sc sockfd w k =
     (case wrq_answer_once sc sockfd w k of
        (Running w, k) \<Rightarrow> wrq_loop_once sc sockfd w k
      | (Stopped e, k) \<Rightarrow> (e, k))"
  by pat_completeness auto
termination
  by (relation "measure (\<lambda>(sc, fd, w, k). length (rx k))") (auto dest: wrq_answer_once_work [OF sym])

declare wrq_loop.simps [simp del] wrq_loop_once.simps [simp del]

definition handle_wrq :: "bool \<Rightarrow> int \<Rightarrow> bytes \<Rightarrow> sockaddr_in \<Rightarrow> bytes \<Rightarrow> os \<Rightarrow> unit ending \<times> os" where
  "handle_wrq sc sockfd stack client_addr filename k =
     (case wrq_begin sockfd stack client_addr filename k of
        (Running w, k) \<Rightarrow> wrq_loop sc sockfd w k
      | (Stopped e, k) \<Rightarrow> (e, k))"

definition handle_wrq_once :: "bool \<Rightarrow> int \<Rightarrow> bytes \<Rightarrow> sockaddr_in \<Rightarrow> bytes \<Rightarrow> os \<Rightarrow> unit ending \<times> os" where
  "handle_wrq_once sc sockfd stack client_addr filename k =
     (case wrq_begin sockfd stack client_addr filename k of
        (Running w, k) \<Rightarrow> wrq_loop_once sc sockfd w k
      | (Stopped e, k) \<Rightarrow> (e, k))"

section \<open>The handlers keep the contract\<close>

lemma rrq_block_effect:
  assumes "rrq_block fd d k = (r, k')"
  shows "\<exists>d'. r = Running d' \<and> d_fp d' = d_fp d \<and> keeps_open k k' \<and> length (sent k') \<le> Suc (length (sent k))"
proof -
  obtain data k1 where f: "sys_fread (d_fp d) BLOCK_SIZE k = (data, k1)" by fastforce
  have "keeps_open k k1" "sent k1 = sent k"
    using fread_keeps_open [of k "d_fp d" BLOCK_SIZE] sent_calls(1) [of "d_fp d" BLOCK_SIZE k] f by simp_all
  with assms f keeps_open_trans [OF _ sendto_keeps_open] sendto_sent_le [of _ _ _ k1] show ?thesis
    by (auto simp: rrq_block_def rrq_resend_def)
qed

lemma rrq_continue_effect:
  assumes "rrq_continue fd d k = (r, k')"
  shows "case r of
      Running d' \<Rightarrow> d_fp d' = d_fp d \<and> keeps_open k k' \<and> length (sent k') \<le> Suc (length (sent k))
    | Stopped e \<Rightarrow> e = Ended () \<and> closes (d_fp d) k k' \<and> sent k' = sent k"
  using assms rrq_block_effect [of fd d k r k'] close_and_stop_effect [of "d_fp d" k r k']
  by (auto simp: rrq_continue_def split: if_splits)

lemma rrq_answer_effect:
  assumes e: "rrq_answer sc fd d k = (r, k')"
  shows "case r of
      Running d' \<Rightarrow> d_fp d' = d_fp d \<and> keeps_open k k' \<and> length (sent k') \<le> Suc (length (sent k))
    | Stopped e \<Rightarrow> sent k' = sent k \<and> (e = Ended () \<and> closes (d_fp d) k k' \<or>
        e = Blocked \<and> keeps_open k k' \<and> fd \<notin> set (rcvtimeo k) \<and> rx k' = [])"
proof -
  obtain a k1 where v: "recv fd k = (a, k1)" by fastforce
  have k1: "keeps_open k k1" "sent k1 = sent k" using recv_keeps_open [OF v] recv_keeps(4) [OF v] by simp_all
  have w: "a = Waits \<Longrightarrow> fd \<notin> set (rcvtimeo k) \<and> rx k1 = []" using v by (rule recv_cases) auto
  have c: ?thesis if "rrq_continue fd d1 k1 = (r, k')" "d_fp d1 = d_fp d" for d1
    using rrq_continue_effect [OF that(1)] k1 that(2) keeps_open_trans [OF k1(1)] keeps_then_closes [OF k1(1)]
    by (auto split: progress.splits)
  have s: ?thesis if "close_and_stop (d_fp d) k1 = (r, k')"
    using close_and_stop_effect [OF that] k1 keeps_then_closes [OF k1(1)] by auto
  have t: ?thesis if "rrq_resend fd d1 k1 = (r, k')" "d_fp d1 = d_fp d" for d1
    using that k1 keeps_open_trans [OF k1(1) sendto_keeps_open] sendto_sent_le [of _ _ _ k1]
    by (auto simp: rrq_resend_def)
  show ?thesis
  proof (cases a)
    case (Got b p)
    with e v c [of "d\<lparr>d_addr := p, d_block := d_block d + 1\<rparr>"] c [of "d\<lparr>d_addr := p\<rparr>"] show ?thesis
      by (simp add: rrq_answer_def Let_def split: if_splits)
  next
    case Timeout
    with e v t [of "d\<lparr>d_retries := d_retries d + 1\<rparr>"] s show ?thesis
      by (simp add: rrq_answer_def Let_def split: if_splits)
  next
    case Failed
    with e v c [of d] show ?thesis by (simp add: rrq_answer_def)
  next
    case Waits
    with e v w k1 show ?thesis by (auto simp: rrq_answer_def)
  qed
qed

interpretation rrq: handler fd "rrq_answer sc fd" "rrq_loop sc fd" d_fp rrq_work 0 for sc fd
proof
  show "rrq_loop sc fd d k = (case rrq_answer sc fd d k of
      (Running d', k') \<Rightarrow> rrq_loop sc fd d' k' | (Stopped e, k') \<Rightarrow> (e, k'))" for d k
    by (rule rrq_loop.simps)
qed (auto dest: rrq_answer_work rrq_answer_effect split: progress.splits)

lemma wrq_packet_effect:
  assumes "wrq_packet sc fd from n w k = (r, k')"
  shows "case r of
      Running w' \<Rightarrow> w_fp w' = w_fp w \<and> keeps_open k k' \<and> length (sent k') \<le> Suc (length (sent k))
    | Stopped e \<Rightarrow> e = Ended () \<and> closes (w_fp w) k k' \<and> length (sent k') \<le> Suc (length (sent k)) \<or>
        e = Undefined \<and> k' = k"
proof -
  define k1 where "k1 = send_ack fd from (w_expected w)
      (snd (sys_fwrite (w_fp w) (take (n - 4) (drop 4 (w_buffer w))) k))"
  have k1: "keeps_open k k1" "length (sent k1) \<le> Suc (length (sent k))"
    unfolding k1_def using keeps_open_trans [OF fwrite_keeps_open send_ack_keeps(1)] send_ack_keeps(2)
      sent_calls(2) by metis+
  have c: ?thesis if "close_and_stop (w_fp w) k1 = (r, k')"
    using close_and_stop_effect [OF that] k1 keeps_then_closes [OF k1(1)] by auto
  show ?thesis
  proof (cases "int_be sc (w_buffer w) 0 = DATA \<and> int_be sc (w_buffer w) 2 = w_expected w \<and> \<not> n < 4")
    case True
    then have "wrq_packet sc fd from n w k = (if n < BUFFER_SIZE then close_and_stop (w_fp w) k1
        else (Running (w\<lparr>w_expected := w_expected w + 1\<rparr>), k1))"
      by (simp add: wrq_packet_def Let_def k1_def)
    with assms c k1 show ?thesis by (auto split: if_splits)
  next
    case False
    with assms show ?thesis by (auto simp: wrq_packet_def Let_def split: if_splits)
  qed
qed

text \<open>Both receive loops differ only in what they do without a packet.\<close>

definition in_effect :: "int \<Rightarrow> incoming \<Rightarrow> os \<Rightarrow> incoming progress \<Rightarrow> os \<Rightarrow> bool" where
  "in_effect fd w k r k' \<longleftrightarrow> length (sent k') \<le> Suc (length (sent k)) \<and>
     (case r of
        Running w' \<Rightarrow> w_fp w' = w_fp w \<and> keeps_open k k'
      | Stopped e \<Rightarrow> e = Ended () \<and> closes (w_fp w) k k' \<or> e = Undefined \<and> keeps_open k k' \<or>
          e = Blocked \<and> keeps_open k k' \<and> fd \<notin> set (rcvtimeo k) \<and> rx k' = [])"

lemma in_effect_packet:
  assumes v: "recv fd k = (a, k1)" and e: "wrq_packet sc fd from n w1 k1 = (r, k')" and w: "w_fp w1 = w_fp w"
  shows "in_effect fd w k r k'"
proof -
  have k1: "keeps_open k k1" "sent k1 = sent k" using recv_keeps_open [OF v] recv_keeps(4) [OF v] by simp_all
  show ?thesis
    using wrq_packet_effect [OF e] k1 w keeps_open_trans [OF k1(1)] keeps_then_closes [OF k1(1)]
    by (auto simp: in_effect_def split: progress.splits)
qed

lemma in_effect_close:
  assumes v: "recv fd k = (a, k1)" and e: "close_and_stop (w_fp w) k1 = (r, k')"
  shows "in_effect fd w k r k'"
  using close_and_stop_effect [OF e] recv_keeps(4) [OF v] keeps_then_closes [OF recv_keeps_open [OF v]]
  by (auto simp: in_effect_def)

lemma in_effect_wait:
  assumes v: "recv fd k = (Waits, k1)"
  shows "in_effect fd w k (Stopped Blocked) k1"
proof -
  have "fd \<notin> set (rcvtimeo k) \<and> rx k1 = []" using v by (rule recv_cases) auto
  with recv_keeps_open [OF v] recv_keeps(4) [OF v] show ?thesis by (simp add: in_effect_def)
qed

lemmas in_effects = in_effect_packet in_effect_close in_effect_wait

lemma wrq_answer_effect:
  assumes e: "wrq_answer sc fd w k = (r, k')"
  shows "in_effect fd w k r k'"
proof -
  obtain a k1 where v: "recv fd k = (a, k1)" by fastforce
  show ?thesis
  proof (cases a)
    case Timeout
    with e v in_effect_close [OF v] recv_keeps_open [OF v] recv_keeps(4) [OF v] show ?thesis
      by (auto simp: wrq_answer_def Let_def in_effect_def [of _ _ _ "Running _"] split: if_splits)
  qed (use e v in \<open>auto simp: wrq_answer_def intro: in_effects\<close>)
qed

lemma wrq_answer_once_effect:
  assumes e: "wrq_answer_once sc fd w k = (r, k')"
  shows "in_effect fd w k r k'"
proof -
  obtain a k1 where v: "recv fd k = (a, k1)" by fastforce
  show ?thesis by (cases a) (use e v in \<open>auto simp: wrq_answer_once_def intro: in_effects\<close>)
qed

interpretation wrq: handler fd "wrq_answer sc fd" "wrq_loop sc fd" w_fp wrq_work 1 for sc fd
proof
  show "wrq_loop sc fd d k = (case wrq_answer sc fd d k of
      (Running d', k') \<Rightarrow> wrq_loop sc fd d' k' | (Stopped e, k') \<Rightarrow> (e, k'))" for d k
    by (rule wrq_loop.simps)
qed (auto simp: in_effect_def dest: wrq_answer_work wrq_answer_effect split: progress.splits)

interpretation wrq_once: handler fd "wrq_answer_once sc fd" "wrq_loop_once sc fd" w_fp "\<lambda>_ k. length (rx k)" 1
  for sc fd
proof
  show "wrq_loop_once sc fd d k = (case wrq_answer_once sc fd d k of
      (Running d', k') \<Rightarrow> wrq_loop_once sc fd d' k' | (Stopped e, k') \<Rightarrow> (e, k'))" for d k
    by (rule wrq_loop_once.simps)
qed (auto simp: in_effect_def dest: wrq_answer_once_work wrq_answer_once_effect split: progress.splits)

end
