(* ===== verification/Legacy_Servers.thy ===== *)
theory Legacy_Servers
  imports Legacy_Handlers
begin

text \<open>
  The three server programs under \<open>src/legacy\<close>: their start, one round of each main loop, and
  for the multi-threaded one the interleaving of the main loop with the client threads, which
  all receive on the one socket.

  A main loop never returns, so it is given as its round; the buffer of a round holds whatever
  was left in it, and the theorems hold for every content.
\<close>

section \<open>Start\<close>

text \<open>
  \<open>main\<close> up to the loop.  \<open>None\<close> is \<open>exit(EXIT_FAILURE)\<close>.  The result of \<open>setsockopt\<close> is not
  looked at: when it fails, the socket has no timeout.
\<close>

definition server_address :: sockaddr_in where
  "server_address = \<lparr>sin_family = AF_INET, sin_port = PORT, s_addr = INADDR_ANY\<rparr>"

definition server_bind :: "int \<Rightarrow> os \<Rightarrow> int option \<times> os" where
  "server_bind sockfd k =
     (case sys_bind sockfd server_address k of (r, k) \<Rightarrow>
        if r < 0 then (None, snd (sys_close sockfd k)) else (Some sockfd, k))"

definition server_start :: "os \<Rightarrow> int option \<times> os" where
  "server_start k =
     (case sys_socket k of (sockfd, k) \<Rightarrow>
        if sockfd < 0 then (None, k)
        else server_bind sockfd (snd (sys_setsockopt_rcvtimeo sockfd k)))"

definition wrq_server_start :: "os \<Rightarrow> int option \<times> os" where
  "wrq_server_start k =
     (case sys_socket k of (sockfd, k) \<Rightarrow>
        if sockfd < 0 then (None, k) else server_bind sockfd k)"

section \<open>TFTP_RRQ_WRQ_Server.c\<close>

text \<open>Its start is that of \<open>TFTP_Server.c\<close>.\<close>

definition rw_server_start :: "os \<Rightarrow> int option \<times> os" where
  "rw_server_start k =
     (case sys_socket k of (sockfd, k) \<Rightarrow>
        if sockfd < 0 then (None, k)
        else server_bind sockfd (snd (sys_setsockopt_rcvtimeo sockfd k)))"

text \<open>
  One round.  \<open>strlen(filename)\<close> and \<open>fopen\<close> read up to a NUL, which the buffer need not hold.
  \<open>stack\<close> is the content of the buffer of \<open>handle_wrq\<close> when it starts.
\<close>

definition rw_request :: "bool \<Rightarrow> int \<Rightarrow> bytes \<Rightarrow> bytes \<Rightarrow> sockaddr_in \<Rightarrow> os \<Rightarrow> unit ending \<times> os" where
  "rw_request sc sockfd stack buffer cliaddr k =
     (if char_value sc (buffer ! 0) = 0 then
        if 0 \<notin> set (drop 2 buffer) then (Undefined, k)
        else
          let filename = c_string (drop 2 buffer); opcode = char_value sc (buffer ! 1) in
          if opcode = RRQ then rw_handle_rrq sc sockfd cliaddr filename k
          else if opcode = WRQ then handle_wrq_once sc sockfd stack cliaddr filename k
          else (Ended (), send_error sockfd cliaddr 4 (cstr ''Illegal TFTP Operation'') k)
      else (Ended (), k))"

definition rw_round :: "bool \<Rightarrow> int \<Rightarrow> bytes \<Rightarrow> bytes \<Rightarrow> os \<Rightarrow> unit ending \<times> os" where
  "rw_round sc sockfd stack buffer k =
     (case recv sockfd k of
        (Waits, k) \<Rightarrow> (Blocked, k)
      | (Got data cliaddr, k) \<Rightarrow> rw_request sc sockfd stack (memcpy_at 0 data buffer) cliaddr k
      | (_, k) \<Rightarrow> (Ended (), k))"

section \<open>TFTP_Server_WRQ.c\<close>

text \<open>
  One round; the handler is part of \<open>main\<close> and receives into the same buffer.  \<open>mode\<close> is the
  string behind the file name, printed without a check that there is one.
\<close>

definition wrq_server_round :: "bool \<Rightarrow> int \<Rightarrow> bytes \<Rightarrow> os \<Rightarrow> unit ending \<times> os" where
  "wrq_server_round sc sockfd buffer k =
     (case recv sockfd k of
        (Waits, k) \<Rightarrow> (Blocked, k)
      | (Got data cliaddr, k) \<Rightarrow>
          let buffer = memcpy_at 0 data buffer in
          if char_value sc (buffer ! 0) = 0 \<and> char_value sc (buffer ! 1) = WRQ then
            let filename = c_string (drop 2 buffer); mode = drop (3 + length filename) buffer in
            if 0 \<notin> set (drop 2 buffer) \<or> 0 \<notin> set mode then (Undefined, k)
            else
              (case sys_fopen filename True k of
                 (None, k) \<Rightarrow> (Ended (), send_error sockfd cliaddr 1 (cstr ''Cannot create file'') k)
               | (Some fp, k) \<Rightarrow>
                   wrq_loop_once sc sockfd
                     \<lparr>w_addr = cliaddr, w_fp = fp, w_buffer = buffer, w_expected = 1, w_retries = 0\<rparr>
                     (send_ack sockfd cliaddr 0 k))
          else (Ended (), k)
      | (_, k) \<Rightarrow> (Ended (), k))"

section \<open>TFTP_Server.c\<close>

text \<open>
  The arguments of a client thread.  \<open>strncpy\<close> and the NUL after it leave at most 255 bytes of
  the name.
\<close>

record client_args =
  ca_addr :: sockaddr_in
  ca_filename :: bytes
  ca_opcode :: int

text \<open>A thread that has not run yet, or one that waits in a handler's \<open>recvfrom\<close>.\<close>

datatype client_thread = Created client_args | Reading outgoing | Writing incoming

record mt_server =
  mt_sock :: int
  mt_threads :: "client_thread list"
  mt_crashed :: bool
  mt_os :: os

text \<open>
  One round of the main loop.  \<open>malloc\<close> is not checked: when it fails, the next line writes
  through NULL.  When no thread can be created the arguments are freed.
\<close>

definition mt_request :: "bool \<Rightarrow> bytes \<Rightarrow> sockaddr_in \<Rightarrow> mt_server \<Rightarrow> mt_server" where
  "mt_request sc buffer cliaddr m =
     (let opcode = char_value sc (buffer ! 1) in
      if char_value sc (buffer ! 0) = 0 \<and> (opcode = RRQ \<or> opcode = WRQ) then
        (case next_fault (mt_os m) of (malloc_fault, k) \<Rightarrow>
           if malloc_fault \<noteq> F_none then m\<lparr>mt_crashed := True, mt_os := k\<rparr>
           else
             let args = \<lparr>ca_addr = cliaddr, ca_filename = c_string (take 255 (drop 2 buffer)),
                         ca_opcode = opcode\<rparr> in
             (case next_fault k of (create_fault, k) \<Rightarrow>
                if create_fault \<noteq> F_none then m\<lparr>mt_os := k\<rparr>
                else m\<lparr>mt_threads := mt_threads m @ [Created args], mt_os := k\<rparr>))
      else m)"

definition mt_round :: "bool \<Rightarrow> bytes \<Rightarrow> mt_server \<Rightarrow> mt_server" where
  "mt_round sc buffer m =
     (case recv (mt_sock m) (mt_os m) of
        (Got data cliaddr, k) \<Rightarrow> mt_request sc (memcpy_at 0 data buffer) cliaddr (m\<lparr>mt_os := k\<rparr>)
      | (_, k) \<Rightarrow> m\<lparr>mt_os := k\<rparr>)"

text \<open>
  \<open>client_handler\<close>: thread \<open>i\<close> runs to its next receive or to its end, where it frees its
  arguments and is gone.
\<close>

definition thread_step :: "bool \<Rightarrow> int \<Rightarrow> bytes \<Rightarrow> client_thread \<Rightarrow> os \<Rightarrow> client_thread progress \<times> os" where
  "thread_step sc sockfd stack t k =
     (case t of
        Created args \<Rightarrow>
          if ca_opcode args = RRQ
          then map_prod (map_progress Reading) id (rrq_begin sockfd (ca_addr args) (ca_filename args) k)
          else if ca_opcode args = WRQ
          then map_prod (map_progress Writing) id (wrq_begin sockfd stack (ca_addr args) (ca_filename args) k)
          else (Stopped (Ended ()), k)
      | Reading d \<Rightarrow> map_prod (map_progress Reading) id (rrq_answer sc sockfd d k)
      | Writing w \<Rightarrow> map_prod (map_progress Writing) id (wrq_answer sc sockfd w k))"

definition mt_thread :: "bool \<Rightarrow> bytes \<Rightarrow> nat \<Rightarrow> mt_server \<Rightarrow> mt_server" where
  "mt_thread sc stack i m =
     (let ts = mt_threads m in
      case thread_step sc (mt_sock m) stack (ts ! i) (mt_os m) of
        (Running t, k) \<Rightarrow> m\<lparr>mt_threads := ts[i := t], mt_os := k\<rparr>
      | (Stopped (Ended _), k) \<Rightarrow> m\<lparr>mt_threads := take i ts @ drop (Suc i) ts, mt_os := k\<rparr>
      | (Stopped Blocked, k) \<Rightarrow> m\<lparr>mt_os := k\<rparr>
      | (Stopped Undefined, k) \<Rightarrow> m\<lparr>mt_crashed := True, mt_os := k\<rparr>)"

text \<open>
  The scheduler picks the main loop or any thread; between two steps the environment may
  rewrite the files and decide what is received and which calls fail.
\<close>

inductive mt_step :: "bool \<Rightarrow> mt_server \<Rightarrow> mt_server \<Rightarrow> bool" for sc where
  main: "\<not> mt_crashed m \<Longrightarrow> length buffer = BUFFER_SIZE \<Longrightarrow> mt_step sc m (mt_round sc buffer m)"
| thread: "\<not> mt_crashed m \<Longrightarrow> i < length (mt_threads m) \<Longrightarrow> length stack = BUFFER_SIZE \<Longrightarrow>
    mt_step sc m (mt_thread sc stack i m)"
| environment: "\<not> mt_crashed m \<Longrightarrow>
    mt_step sc m (m\<lparr>mt_os := (mt_os m)\<lparr>fs := files, rx := answers, faults := script\<rparr>\<rparr>)"

inductive mt_reachable :: "bool \<Rightarrow> int set \<Rightarrow> mt_server \<Rightarrow> bool" for sc E where
  start: "set (fds k) = E \<Longrightarrow> streams k = Map.empty \<Longrightarrow> server_start k = (Some sockfd, k') \<Longrightarrow>
    mt_reachable sc E \<lparr>mt_sock = sockfd, mt_threads = [], mt_crashed = False, mt_os = k'\<rparr>"
| step: "mt_reachable sc E m \<Longrightarrow> mt_step sc m m' \<Longrightarrow> mt_reachable sc E m'"

inductive_cases mt_stepE: "mt_step sc m m'"

section \<open>Streams and threads\<close>

fun thread_streams :: "client_thread \<Rightarrow> nat list" where
  "thread_streams (Created args) = []"
| "thread_streams (Reading d) = [d_fp d]"
| "thread_streams (Writing w) = [w_fp w]"

abbreviation all_streams :: "client_thread list \<Rightarrow> nat list" where
  "all_streams ts \<equiv> concat (map thread_streams ts)"

definition mt_inv :: "int set \<Rightarrow> mt_server \<Rightarrow> bool" where
  "mt_inv E m \<longleftrightarrow> mt_sock m \<notin> E \<and> balanced (insert (mt_sock m) E) (mt_os m) \<and>
     distinct (all_streams (mt_threads m)) \<and>
     set (all_streams (mt_threads m)) = dom (open_streams (mt_os m))"

lemma rrq_begin_effect:
  assumes e: "rrq_begin fd a n k = (r, k')"
  shows "(\<exists>d. r = Running d \<and> opens (d_fp d) k k') \<or> r = Stopped (Ended ()) \<and> keeps_open k k'"
proof -
  obtain q k1 where o: "sys_fopen n False k = (q, k1)" by fastforce
  show ?thesis
  proof (cases q)
    case None
    then have "keeps_open k k1" using fopen_opens [OF o] by simp
    with None e o show ?thesis using keeps_open_trans send_error_keeps(1) by (auto simp: rrq_begin_def)
  next
    case (Some s)
    with fopen_opens [OF o] have "opens s k k1" by simp
    with Some e o show ?thesis using opens_then_keeps by (auto simp: rrq_begin_def dest!: rrq_block_effect)
  qed
qed

lemma wrq_begin_effect:
  assumes e: "wrq_begin fd stack a n k = (r, k')"
  shows "(\<exists>w. r = Running w \<and> opens (w_fp w) k k') \<or> r = Stopped (Ended ()) \<and> keeps_open k k'"
proof -
  obtain q k1 where o: "sys_fopen n True k = (q, k1)" by fastforce
  show ?thesis
  proof (cases q)
    case None
    then have "keeps_open k k1" using fopen_opens [OF o] by simp
    with None e o show ?thesis using keeps_open_trans send_error_keeps(1) by (auto simp: wrq_begin_def)
  next
    case (Some s)
    with fopen_opens [OF o] have "opens s k k1" by simp
    with Some e o show ?thesis using opens_then_keeps send_ack_keeps(1) by (auto simp: wrq_begin_def)
  qed
qed

lemma thread_step_effect:
  assumes e: "thread_step sc fd stack t k = (r, k')"
  shows "case r of
      Running t' \<Rightarrow> thread_streams t' = thread_streams t \<and> keeps_open k k' \<or>
        (\<exists>s. thread_streams t = [] \<and> thread_streams t' = [s] \<and> opens s k k')
    | Stopped e \<Rightarrow> e = Ended () \<and> (thread_streams t = [] \<and> keeps_open k k' \<or>
          (\<exists>s. thread_streams t = [s] \<and> closes s k k')) \<or>
        e \<noteq> Ended () \<and> keeps_open k k'"
proof (cases t)
  case (Created args)
  then consider (rrq) r0 where "rrq_begin fd (ca_addr args) (ca_filename args) k = (r0, k')" "r = map_progress Reading r0"
    | (wrq) r0 where "wrq_begin fd stack (ca_addr args) (ca_filename args) k = (r0, k')" "r = map_progress Writing r0"
    | (none) "r = Stopped (Ended ())" "k' = k"
    using e by (auto simp: thread_step_def map_prod_def split: if_splits prod.splits)
  then show ?thesis
  proof cases
    case rrq
    with rrq_begin_effect [OF rrq(1)] Created show ?thesis by auto
  next
    case wrq
    with wrq_begin_effect [OF wrq(1)] Created show ?thesis by auto
  qed (simp add: Created)
next
  case (Reading d)
  with e obtain r0 where "rrq_answer sc fd d k = (r0, k')" "r = map_progress Reading r0"
    by (auto simp: thread_step_def map_prod_def split: prod.splits)
  with rrq.runs rrq.stops Reading show ?thesis by (cases r0) (fastforce split: if_splits)+
next
  case (Writing w)
  with e obtain r0 where "wrq_answer sc fd w k = (r0, k')" "r = map_progress Writing r0"
    by (auto simp: thread_step_def map_prod_def split: prod.splits)
  with wrq.runs wrq.stops Writing show ?thesis by (cases r0) (fastforce split: if_splits)+
qed

lemma balanced_dom_closes:
  "closes s k k' \<Longrightarrow> dom (open_streams k') = dom (open_streams k) - {s}"
  by (auto simp: closes_def)

lemma balanced_dom_opens:
  "opens s k k' \<Longrightarrow> dom (open_streams k') = insert s (dom (open_streams k))"
  by (auto simp: opens_def)

lemma thread_split:
  assumes "i < length ts"
  shows "\<exists>a b. ts = a @ ts ! i # b \<and> take i ts @ drop (Suc i) ts = a @ b \<and> (\<forall>t. ts[i := t] = a @ t # b)"
  using assms id_take_nth_drop [OF assms] upd_conv_take_nth_drop [OF assms] by blast

lemma mt_thread_inv:
  assumes m: "mt_inv E m" and i: "i < length (mt_threads m)" and ok: "\<not> mt_crashed (mt_thread sc stack i m)"
  shows "mt_inv E (mt_thread sc stack i m)"
proof -
  let ?k = "mt_os m" and ?S = "insert (mt_sock m) E"
  obtain r k' where e: "thread_step sc (mt_sock m) stack (mt_threads m ! i) ?k = (r, k')" by fastforce
  from thread_split [OF i] obtain a b t where ts: "mt_threads m = a @ t # b" "mt_threads m ! i = t"
    "take i (mt_threads m) @ drop (Suc i) (mt_threads m) = a @ b" "\<And>t. (mt_threads m)[i := t] = a @ t # b"
    by metis
  note eff = thread_step_effect [OF e, unfolded ts(2)]
  have inv: "mt_sock m \<notin> E" "balanced ?S ?k" "distinct (all_streams (a @ t # b))"
    "set (all_streams (a @ t # b)) = dom (open_streams ?k)" using m ts(1) by (simp_all add: mt_inv_def)
  have same: "keeps_open ?k k' \<Longrightarrow> dom (open_streams k') = dom (open_streams ?k)" by (simp add: keeps_open_def)
  show ?thesis
  proof (cases r)
    case (Running t')
    then have m': "mt_thread sc stack i m = m\<lparr>mt_threads := a @ t' # b, mt_os := k'\<rparr>"
      using e ts(4) by (simp add: mt_thread_def Let_def)
    from eff Running consider "thread_streams t' = thread_streams t" "keeps_open ?k k'"
      | s where "thread_streams t = []" "thread_streams t' = [s]" "opens s ?k k'" by auto
    then show ?thesis
    proof cases
      case 1
      with m' inv same balanced_keeps [OF inv(2)] show ?thesis by (simp add: mt_inv_def)
    next
      case 2
      have "s \<notin> dom (open_streams ?k)" using balanced_opens [OF inv(2) 2(3)] by auto
      with m' inv 2 balanced_dom_opens [OF 2(3)] balanced_opens [OF inv(2) 2(3)] show ?thesis
        by (auto simp: mt_inv_def)
    qed
  next
    case (Stopped x)
    show ?thesis
    proof (cases x)
      case (Ended u)
      then have m': "mt_thread sc stack i m = m\<lparr>mt_threads := a @ b, mt_os := k'\<rparr>"
        using e Stopped ts(3) by (simp add: mt_thread_def Let_def)
      from eff Stopped Ended consider "thread_streams t = []" "keeps_open ?k k'"
        | s where "thread_streams t = [s]" "closes s ?k k'" by auto
      then show ?thesis
      proof cases
        case 1
        with m' inv same balanced_keeps [OF inv(2)] show ?thesis by (simp add: mt_inv_def)
      next
        case 2
        with m' inv balanced_dom_closes [OF 2(2)] balanced_closes [OF inv(2) 2(2)] show ?thesis
          by (auto simp: mt_inv_def)
      qed
    next
      case Blocked
      then have "mt_thread sc stack i m = m\<lparr>mt_os := k'\<rparr>" "keeps_open ?k k'"
        using e eff Stopped by (simp_all add: mt_thread_def Let_def)
      with m same balanced_keeps [OF inv(2)] show ?thesis by (simp add: mt_inv_def)
    next
      case Undefined
      with e Stopped ok show ?thesis by (simp add: mt_thread_def Let_def)
    qed
  qed
qed

lemma mt_inv_keeps:
  "mt_inv E m \<Longrightarrow> keeps_open (mt_os m) k \<Longrightarrow> mt_inv E (m\<lparr>mt_os := k\<rparr>)"
  using balanced_keeps by (auto simp: mt_inv_def keeps_open_def)

lemma mt_round_inv:
  assumes m: "mt_inv E m" and ok: "\<not> mt_crashed (mt_round sc buffer m)"
  shows "mt_inv E (mt_round sc buffer m)"
proof -
  obtain a k where v: "recv (mt_sock m) (mt_os m) = (a, k)" by fastforce
  have m1: "mt_inv E (m\<lparr>mt_os := k\<rparr>)" by (rule mt_inv_keeps [OF m recv_keeps_open [OF v]])
  have q: "mt_inv E (mt_request sc b c m1)" if "mt_inv E m1" "\<not> mt_crashed (mt_request sc b c m1)" for b c m1
  proof -
    obtain f where f: "next_fault (mt_os m1) = (f, (mt_os m1)\<lparr>faults := tl (faults (mt_os m1))\<rparr>)"
      using next_fault_obtain by blast
    let ?k = "(mt_os m1)\<lparr>faults := tl (faults (mt_os m1))\<rparr>"
    obtain g where g: "next_fault ?k = (g, ?k\<lparr>faults := tl (faults ?k)\<rparr>)" using next_fault_obtain by blast
    have "mt_inv E (m1\<lparr>mt_os := ?k\<lparr>faults := tl (faults ?k)\<rparr>\<rparr>)"
      by (rule mt_inv_keeps [OF that(1)]) (simp add: keeps_open_def open_streams_def)
    then show ?thesis using that f g by (auto simp: mt_request_def Let_def mt_inv_def)
  qed
  show ?thesis
    using v m1 q [OF m1] ok by (cases a) (simp_all add: mt_round_def)
qed

lemma mt_step_inv: "mt_step sc m m' \<Longrightarrow> mt_inv E m \<Longrightarrow> \<not> mt_crashed m' \<Longrightarrow> mt_inv E m'"
  by (erule mt_stepE)
    (auto intro: mt_thread_inv mt_round_inv mt_inv_keeps simp: keeps_open_def open_streams_def)

lemma server_start_effect:
  assumes e: "server_start k = (Some fd, k')" and s: "streams k = Map.empty"
  shows "fd \<notin> set (fds k) \<and> fds k' = fd # fds k \<and> streams k' = Map.empty"
proof -
  obtain f1 k1 where k1: "sys_socket k = (f1, k1)" by fastforce
  obtain r2 k2 where k2: "sys_setsockopt_rcvtimeo f1 k1 = (r2, k2)" by fastforce
  obtain r3 k3 where k3: "sys_bind f1 server_address k2 = (r3, k3)" by fastforce
  have fd: "\<not> f1 < 0" "f1 = fd" "k' = k3"
    using e k1 k2 k3 by (auto simp: server_start_def server_bind_def split: if_splits prod.splits)
  have "fds k2 = fds k1 \<and> streams k2 = streams k1"
    using k2 by (auto simp: sys_setsockopt_rcvtimeo_def next_fault_def split: list.splits if_splits)
  with sys_socket_effect [OF k1] sys_bind_effect [OF k3] fd s show ?thesis
    by (auto simp: disk_same_def)
qed

lemma mt_reachable_inv:
  "mt_reachable sc E m \<Longrightarrow> \<not> mt_crashed m \<Longrightarrow> mt_inv E m"
proof (induction rule: mt_reachable.induct)
  case (start k sockfd k')
  with server_start_effect [OF start(3,2)] show ?case
    by (auto simp: mt_inv_def balanced_def open_streams_def)
next
  case (step m m')
  then have "\<not> mt_crashed m" by (auto elim: mt_stepE)
  with step mt_step_inv show ?case by blast
qed

end
