(* ===== verification/Legacy_Clients.thy ===== *)
theory Legacy_Clients
  imports Legacy_Handlers
begin

text \<open>
  The client programs under \<open>src/legacy\<close>: \<open>TFTP_Client.c\<close> (\<open>TFTP_RRQ_WRQ_Client.c\<close> is the same
  code) and \<open>TFTP_Client_WRQ.c\<close>.  Their sockets have no timeout.
\<close>

section \<open>Requests\<close>

definition SERVER_ADDRESS :: sockaddr_in where
  "SERVER_ADDRESS = \<lparr>sin_family = AF_INET, sin_port = PORT, s_addr = 0x7F000001\<rparr>"

definition MODE :: bytes where
  "MODE = cstr ''octet''"

text \<open>
  The two \<open>strcpy\<close> calls need room for the opcode, the name, the mode and two NULs in the 516
  bytes; for a longer name they write beyond the buffer.
\<close>

definition send_rrq_or_wrq :: "int \<Rightarrow> sockaddr_in \<Rightarrow> bytes \<Rightarrow> int \<Rightarrow> os \<Rightarrow> unit ending \<times> os" where
  "send_rrq_or_wrq sockfd server_addr filename opcode k =
     (let len = 2 + length filename + 1 + (length MODE + 1) in
      if len > BUFFER_SIZE then (Undefined, k)
      else (Ended (), snd (sys_sendto sockfd
             ([0, of_int opcode] @ filename @ [0] @ MODE @ [0]) server_addr k)))"

text \<open>\<open>send_wrq\<close> of \<open>TFTP_Client_WRQ.c\<close>.\<close>

definition send_wrq :: "int \<Rightarrow> sockaddr_in \<Rightarrow> bytes \<Rightarrow> os \<Rightarrow> unit ending \<times> os" where
  "send_wrq sockfd server_addr filename k =
     (let len = 2 + length filename + 1 + (length MODE + 1) in
      if len > BUFFER_SIZE then (Undefined, k)
      else (Ended (), snd (sys_sendto sockfd
             ([0, of_int WRQ] @ filename @ [0] @ MODE @ [0]) server_addr k)))"

definition send_data :: "int \<Rightarrow> sockaddr_in \<Rightarrow> int \<Rightarrow> bytes \<Rightarrow> os \<Rightarrow> os" where
  "send_data sockfd server_addr block data k =
     snd (sys_sendto sockfd (data_packet block data) server_addr k)"

section \<open>Download: handle_rrq\<close>

text \<open>
  A received packet of \<open>n\<close> bytes.  The text of an ERROR packet is printed up to a NUL that the
  buffer need not hold.
\<close>

definition client_packet :: "bool \<Rightarrow> int \<Rightarrow> nat \<Rightarrow> incoming \<Rightarrow> os \<Rightarrow> incoming progress \<times> os" where
  "client_packet sc sockfd n w k =
     (let opcode = char_value sc (w_buffer w ! 1) in
      if opcode = ERROR then
        if 0 \<notin> set (drop 4 (w_buffer w)) then (Stopped Undefined, k) else close_and_stop (w_fp w) k
      else
        let block = int_be sc (w_buffer w) 2 in
        if opcode = DATA \<and> block = w_expected w then
          if n < 4 then (Stopped Undefined, k)
          else
            let k = snd (sys_fwrite (w_fp w) (take (n - 4) (drop 4 (w_buffer w))) k);
                k = send_ack sockfd (w_addr w) block k in
            if n < BUFFER_SIZE then close_and_stop (w_fp w) k
            else (Running (w\<lparr>w_expected := w_expected w + 1\<rparr>), k)
        else (Running w, k))"

definition client_rrq_answer :: "bool \<Rightarrow> int \<Rightarrow> incoming \<Rightarrow> os \<Rightarrow> incoming progress \<times> os" where
  "client_rrq_answer sc sockfd w k =
     (case recv sockfd k of
        (Waits, k) \<Rightarrow> (Stopped Blocked, k)
      | (Got data from, k) \<Rightarrow>
          client_packet sc sockfd (length data)
            (w\<lparr>w_addr := from, w_buffer := memcpy_at 0 data (w_buffer w)\<rparr>) k
      | (_, k) \<Rightarrow> close_and_stop (w_fp w) k)"

lemma client_packet_running:
  assumes "client_packet sc fd n w k = (Running w', k')"
  shows "rx k' = rx k"
  using assms
  by (auto simp: client_packet_def Let_def close_and_stop_def send_ack_def sys_fwrite_rx sys_sendto_rx
      split: if_splits)

lemma client_rrq_answer_work:
  assumes e: "client_rrq_answer sc fd w k = (Running w', k')"
  shows "length (rx k') < length (rx k)"
proof -
  obtain a k1 where r: "recv fd k = (a, k1)" by fastforce
  from r show ?thesis
  proof (cases rule: recv_cases)
    case taken
    have "rx k' = rx k1" using e r taken(3)
      by (auto simp: client_rrq_answer_def close_and_stop_def dest: client_packet_running
          split: received.splits if_splits)
    then have "rx k' = tl (rx k)" using taken(2) by simp
    with length_tl_less [OF taken(1)] show ?thesis by simp
  qed (use e r in \<open>auto simp: client_rrq_answer_def close_and_stop_def\<close>)
qed

function client_rrq_loop :: "bool \<Rightarrow> int \<Rightarrow> incoming \<Rightarrow> os \<Rightarrow> unit ending \<times> os" where
  "client_rrq_loop sc sockfd w k =
     (case client_rrq_answer sc sockfd w k of
        (Running w, k) \<Rightarrow> client_rrq_loop sc sockfd w k
      | (Stopped e, k) \<Rightarrow> (e, k))"
  by pat_completeness auto
termination
  by (relation "measure (\<lambda>(sc, fd, w, k). length (rx k))") (auto dest: client_rrq_answer_work [OF sym])

declare client_rrq_loop.simps [simp del]

definition client_handle_rrq :: "bool \<Rightarrow> int \<Rightarrow> bytes \<Rightarrow> sockaddr_in \<Rightarrow> bytes \<Rightarrow> os \<Rightarrow> unit ending \<times> os" where
  "client_handle_rrq sc sockfd stack server_addr filename k =
     (case sys_fopen filename True k of
        (None, k) \<Rightarrow> (Ended (), k)
      | (Some fp, k) \<Rightarrow>
          (case send_rrq_or_wrq sockfd server_addr filename RRQ k of
             (Ended _, k) \<Rightarrow>
               client_rrq_loop sc sockfd
                 \<lparr>w_addr = server_addr, w_fp = fp, w_buffer = stack, w_expected = 1, w_retries = 0\<rparr> k
           | (e, k) \<Rightarrow> (e, k)))"

section \<open>Upload: handle_wrq\<close>

text \<open>
  The loop is entered with the block number of the last block sent; the packet is built and
  sent, and then its acknowledgement is received (\<open>client_wrq_answer\<close>).
\<close>

definition client_wrq_block :: "int \<Rightarrow> outgoing \<Rightarrow> os \<Rightarrow> outgoing progress \<times> os" where
  "client_wrq_block sockfd d k =
     (case sys_fread (d_fp d) BLOCK_SIZE k of (data, k) \<Rightarrow>
        let block = d_block d + 1 in
        (Running (d\<lparr>d_bytes := length data, d_block := block, d_packet := data_packet block data\<rparr>),
         snd (sys_sendto sockfd (data_packet block data) (d_addr d) k)))"

definition client_wrq_answer :: "bool \<Rightarrow> int \<Rightarrow> outgoing \<Rightarrow> os \<Rightarrow> outgoing progress \<times> os" where
  "client_wrq_answer sc sockfd d k =
     (case recv sockfd k of
        (Waits, k) \<Rightarrow> (Stopped Blocked, k)
      | (Got buffer from, k) \<Rightarrow>
          let d = d\<lparr>d_addr := from\<rparr> in
          if 4 \<le> length buffer \<and> char_value sc (buffer ! 1) = ACK then
            if int_be sc buffer 2 \<noteq> d_block d then close_and_stop (d_fp d) k
            else if d_bytes d = BLOCK_SIZE then client_wrq_block sockfd d k
            else close_and_stop (d_fp d) k
          else close_and_stop (d_fp d) k
      | (_, k) \<Rightarrow> close_and_stop (d_fp d) k)"

definition client_wrq_work :: "outgoing \<Rightarrow> os \<Rightarrow> nat" where
  "client_wrq_work d k = (if d_bytes d = BLOCK_SIZE then unread (d_fp d) k div BLOCK_SIZE + 1 else 0)"

text \<open>Every full block sent leaves less of the file, whatever the server answers.\<close>

lemma full_block_work:
  assumes f: "sys_fread s BLOCK_SIZE k = (data, k1)" and u: "unread s k' = unread s k1"
    and l: "length data = BLOCK_SIZE"
  shows "unread s k' div BLOCK_SIZE + 1 < unread s k div BLOCK_SIZE + 1"
  using sys_fread_unread [OF f] u l div_add_self1 [of 512 "unread s k1"] by (simp add: legacy_sizes)

lemma client_wrq_answer_work:
  assumes e: "client_wrq_answer sc fd d k = (Running d', k')"
  shows "client_wrq_work d' k' < client_wrq_work d k"
proof -
  obtain a k1 where v: "recv fd k = (a, k1)" by fastforce
  obtain data k2 where f: "sys_fread (d_fp d) BLOCK_SIZE k1 = (data, k2)" by fastforce
  have k1: "unread (d_fp d) k1 = unread (d_fp d) k"
    by (rule unread_same [OF recv_keeps(1,2) [OF v]])
  have d: "d_bytes d = BLOCK_SIZE" "d_fp d' = d_fp d" "d_bytes d' = length data"
    "k' = snd (sys_sendto fd (d_packet d') (d_addr d') k2)"
    using e v f by (auto simp: client_wrq_answer_def client_wrq_block_def close_and_stop_def Let_def
        split: received.splits if_splits)
  then have "unread (d_fp d) k' = unread (d_fp d) k2" by (simp add: unread_same [OF sys_sendto_streams])
  with full_block_work [OF f this] d k1 show ?thesis by (simp add: client_wrq_work_def)
qed

function client_wrq_loop :: "bool \<Rightarrow> int \<Rightarrow> outgoing \<Rightarrow> os \<Rightarrow> unit ending \<times> os" where
  "client_wrq_loop sc sockfd d k =
     (case client_wrq_answer sc sockfd d k of
        (Running d, k) \<Rightarrow> client_wrq_loop sc sockfd d k
      | (Stopped e, k) \<Rightarrow> (e, k))"
  by pat_completeness auto
termination
  by (relation "measure (\<lambda>(sc, fd, d, k). client_wrq_work d k)") (auto dest: client_wrq_answer_work [OF sym])

declare client_wrq_loop.simps [simp del]

text \<open>The wait for ACK 0, and the first block.\<close>

definition client_wrq_first :: "bool \<Rightarrow> int \<Rightarrow> sockaddr_in \<Rightarrow> nat \<Rightarrow> os \<Rightarrow> outgoing progress \<times> os" where
  "client_wrq_first sc sockfd server_addr fp k =
     (case recv sockfd k of
        (Waits, k) \<Rightarrow> (Stopped Blocked, k)
      | (Got buffer from, k) \<Rightarrow>
          if length buffer < 4 \<or> char_value sc (buffer ! 1) \<noteq> ACK \<or> int_be sc buffer 2 \<noteq> 0
          then close_and_stop fp k
          else client_wrq_block sockfd
            \<lparr>d_addr = from, d_fp = fp, d_packet = [], d_block = 0, d_bytes = 0, d_retries = 0\<rparr> k
      | (_, k) \<Rightarrow> close_and_stop fp k)"

definition client_handle_wrq :: "bool \<Rightarrow> int \<Rightarrow> sockaddr_in \<Rightarrow> bytes \<Rightarrow> os \<Rightarrow> unit ending \<times> os" where
  "client_handle_wrq sc sockfd server_addr filename k =
     (case sys_fopen filename False k of
        (None, k) \<Rightarrow> (Ended (), k)
      | (Some fp, k) \<Rightarrow>
          (case send_rrq_or_wrq sockfd server_addr filename WRQ k of
             (Ended _, k) \<Rightarrow>
               (case client_wrq_first sc sockfd server_addr fp k of
                  (Running d, k) \<Rightarrow> client_wrq_loop sc sockfd d k
                | (Stopped e, k) \<Rightarrow> (e, k))
           | (e, k) \<Rightarrow> (e, k)))"

section \<open>main of TFTP_Client.c\<close>

text \<open>
  The option and the file name are what the user types; \<open>scanf\<close> stores a name of 100 bytes or
  more beyond its array.  The result is the exit code.
\<close>

definition client_finish :: "int \<Rightarrow> unit ending \<times> os \<Rightarrow> int ending \<times> os" where
  "client_finish sockfd r =
     (case r of
        (Ended _, k) \<Rightarrow> (Ended 0, snd (sys_close sockfd k))
      | (Blocked, k) \<Rightarrow> (Blocked, k)
      | (Undefined, k) \<Rightarrow> (Undefined, k))"

definition client_main :: "bool \<Rightarrow> bytes \<Rightarrow> int \<Rightarrow> bytes \<Rightarrow> os \<Rightarrow> int ending \<times> os" where
  "client_main sc stack choice filename k =
     (case sys_socket k of (sockfd, k) \<Rightarrow>
        if sockfd < 0 then (Ended 1, k)
        else if 100 \<le> length filename then (Undefined, k)
        else if choice = 1
        then client_finish sockfd (client_handle_rrq sc sockfd stack SERVER_ADDRESS filename k)
        else if choice = 2
        then client_finish sockfd (client_handle_wrq sc sockfd SERVER_ADDRESS filename k)
        else client_finish sockfd (Ended (), k))"

text \<open>\<open>TFTP_RRQ_WRQ_Client.c\<close> has the same three functions, laid out differently.\<close>

definition rw_client_handle_rrq :: "bool \<Rightarrow> int \<Rightarrow> bytes \<Rightarrow> sockaddr_in \<Rightarrow> bytes \<Rightarrow> os \<Rightarrow> unit ending \<times> os" where
  "rw_client_handle_rrq = client_handle_rrq"

definition rw_client_handle_wrq :: "bool \<Rightarrow> int \<Rightarrow> sockaddr_in \<Rightarrow> bytes \<Rightarrow> os \<Rightarrow> unit ending \<times> os" where
  "rw_client_handle_wrq = client_handle_wrq"

definition rw_client_main :: "bool \<Rightarrow> bytes \<Rightarrow> int \<Rightarrow> bytes \<Rightarrow> os \<Rightarrow> int ending \<times> os" where
  "rw_client_main sc stack choice filename k =
     (case sys_socket k of (sockfd, k) \<Rightarrow>
        if sockfd < 0 then (Ended 1, k)
        else if 100 \<le> length filename then (Undefined, k)
        else if choice = 1
        then client_finish sockfd (rw_client_handle_rrq sc sockfd stack SERVER_ADDRESS filename k)
        else if choice = 2
        then client_finish sockfd (rw_client_handle_wrq sc sockfd SERVER_ADDRESS filename k)
        else client_finish sockfd (Ended (), k))"

lemma rw_client_main_same: "rw_client_main = client_main"
  unfolding fun_eq_iff rw_client_main_def client_main_def rw_client_handle_rrq_def rw_client_handle_wrq_def
  by blast

section \<open>TFTP_Client_WRQ.c\<close>

text \<open>
  The loop ends when \<open>fread\<close> returns 0: a file whose length is a multiple of 512 gets no last
  short block.
\<close>

definition wrq_client_block :: "int \<Rightarrow> outgoing \<Rightarrow> os \<Rightarrow> outgoing progress \<times> os" where
  "wrq_client_block sockfd d k =
     (case sys_fread (d_fp d) BLOCK_SIZE k of (data, k) \<Rightarrow>
        if data = [] then close_and_stop (d_fp d) k
        else (Running (d\<lparr>d_bytes := length data\<rparr>), send_data sockfd (d_addr d) (d_block d) data k))"

definition wrq_client_answer :: "bool \<Rightarrow> int \<Rightarrow> outgoing \<Rightarrow> os \<Rightarrow> outgoing progress \<times> os" where
  "wrq_client_answer sc sockfd d k =
     (case recv sockfd k of
        (Waits, k) \<Rightarrow> (Stopped Blocked, k)
      | (Got buffer from, k) \<Rightarrow>
          let d = d\<lparr>d_addr := from\<rparr> in
          if length buffer < 4 \<or> char_value sc (buffer ! 1) \<noteq> ACK \<or> int_be sc buffer 2 \<noteq> d_block d
          then close_and_stop (d_fp d) k
          else if d_bytes d < BLOCK_SIZE then close_and_stop (d_fp d) k
          else wrq_client_block sockfd (d\<lparr>d_block := d_block d + 1\<rparr>) k
      | (_, k) \<Rightarrow> close_and_stop (d_fp d) k)"

definition wrq_client_work :: "outgoing \<Rightarrow> os \<Rightarrow> nat" where
  "wrq_client_work d k = (if d_bytes d < BLOCK_SIZE then 0 else unread (d_fp d) k div BLOCK_SIZE + 1)"

lemma wrq_client_answer_work:
  assumes e: "wrq_client_answer sc fd d k = (Running d', k')"
  shows "wrq_client_work d' k' < wrq_client_work d k"
proof -
  obtain a k1 where v: "recv fd k = (a, k1)" by fastforce
  obtain data k2 where f: "sys_fread (d_fp d) BLOCK_SIZE k1 = (data, k2)" by fastforce
  have k1: "unread (d_fp d) k1 = unread (d_fp d) k"
    by (rule unread_same [OF recv_keeps(1,2) [OF v]])
  have d: "\<not> d_bytes d < BLOCK_SIZE" "d_fp d' = d_fp d" "d_bytes d' = length data"
    "k' = send_data fd (d_addr d') (d_block d') data k2"
    using e v f by (auto simp: wrq_client_answer_def wrq_client_block_def close_and_stop_def Let_def
        split: received.splits if_splits)
  then have u: "unread (d_fp d) k' = unread (d_fp d) k2"
    by (simp add: send_data_def unread_same [OF sys_sendto_streams])
  have "length data \<le> BLOCK_SIZE" using sys_fread_unread [OF f] by simp
  with full_block_work [OF f u] d k1 show ?thesis by (auto simp: wrq_client_work_def not_less)
qed

function wrq_client_loop :: "bool \<Rightarrow> int \<Rightarrow> outgoing \<Rightarrow> os \<Rightarrow> unit ending \<times> os" where
  "wrq_client_loop sc sockfd d k =
     (case wrq_client_answer sc sockfd d k of
        (Running d, k) \<Rightarrow> wrq_client_loop sc sockfd d k
      | (Stopped e, k) \<Rightarrow> (e, k))"
  by pat_completeness auto
termination
  by (relation "measure (\<lambda>(sc, fd, d, k). wrq_client_work d k)") (auto dest: wrq_client_answer_work [OF sym])

declare wrq_client_loop.simps [simp del]

text \<open>
  Of the first answer only the low byte of the number is looked at.  \<open>main\<close> returns -1 when the
  request fails.
\<close>

definition wrq_client_transfer :: "bool \<Rightarrow> int \<Rightarrow> nat \<Rightarrow> os \<Rightarrow> int ending \<times> os" where
  "wrq_client_transfer sc sockfd fp k =
     (case recv sockfd k of
        (Waits, k) \<Rightarrow> (Blocked, k)
      | (Got buffer from, k) \<Rightarrow>
          if length buffer < 4 \<or> char_value sc (buffer ! 1) \<noteq> ACK \<or> char_value sc (buffer ! 3) \<noteq> 0
          then (Ended (- 1), snd (sys_close sockfd (snd (sys_fclose fp k))))
          else client_finish sockfd
            (case wrq_client_block sockfd
                 \<lparr>d_addr = from, d_fp = fp, d_packet = [], d_block = 1, d_bytes = 0, d_retries = 0\<rparr> k of
               (Running d, k) \<Rightarrow> wrq_client_loop sc sockfd d k
             | (Stopped e, k) \<Rightarrow> (e, k))
      | (_, k) \<Rightarrow> (Ended (- 1), snd (sys_close sockfd (snd (sys_fclose fp k)))))"

definition wrq_client_main :: "bool \<Rightarrow> bytes \<Rightarrow> os \<Rightarrow> int ending \<times> os" where
  "wrq_client_main sc filename k =
     (case sys_socket k of (sockfd, k) \<Rightarrow>
        if sockfd < 0 then (Ended 1, k)
        else if 1000 \<le> length filename then (Undefined, k)
        else
          (case sys_fopen filename False k of
             (None, k) \<Rightarrow> (Ended (- 1), snd (sys_close sockfd k))
           | (Some fp, k) \<Rightarrow>
               (case send_wrq sockfd SERVER_ADDRESS filename k of
                  (Ended _, k) \<Rightarrow> wrq_client_transfer sc sockfd fp k
                | (_, k) \<Rightarrow> (Undefined, k))))"

section \<open>The loops keep the contract\<close>

lemma client_packet_effect:
  assumes "client_packet sc fd n w k = (r, k')"
  shows "length (sent k') \<le> Suc (length (sent k)) \<and>
    (case r of
      Running w' \<Rightarrow> w_fp w' = w_fp w \<and> keeps_open k k'
    | Stopped e \<Rightarrow> e = Ended () \<and> closes (w_fp w) k k' \<or> e = Undefined \<and> k' = k)"
proof -
  define k1 where "k1 = send_ack fd (w_addr w) (w_expected w)
      (snd (sys_fwrite (w_fp w) (take (n - 4) (drop 4 (w_buffer w))) k))"
  have k1: "keeps_open k k1" "length (sent k1) \<le> Suc (length (sent k))"
    unfolding k1_def using keeps_open_trans [OF fwrite_keeps_open send_ack_keeps(1)] send_ack_keeps(2)
      sent_calls(2) by metis+
  have c: ?thesis if "close_and_stop (w_fp w) k2 = (r, k')" "keeps_open k k2"
      "length (sent k2) \<le> Suc (length (sent k))" for k2
    using close_and_stop_effect [OF that(1)] that keeps_then_closes [OF that(2)] by auto
  show ?thesis
  proof (cases "char_value sc (w_buffer w ! 1) = DATA \<and> int_be sc (w_buffer w) 2 = w_expected w \<and> \<not> n < 4")
    case True
    then have "client_packet sc fd n w k = (if n < BUFFER_SIZE then close_and_stop (w_fp w) k1
        else (Running (w\<lparr>w_expected := w_expected w + 1\<rparr>), k1))"
      by (simp add: client_packet_def Let_def k1_def legacy_opcodes)
    with assms c [of k1] k1 show ?thesis by (auto split: if_splits)
  next
    case False
    with assms c [of k] show ?thesis by (auto simp: client_packet_def Let_def split: if_splits)
  qed
qed

lemma client_rrq_answer_effect:
  assumes e: "client_rrq_answer sc fd w k = (r, k')"
  shows "in_effect fd w k r k'"
proof -
  obtain a k1 where v: "recv fd k = (a, k1)" by fastforce
  have k1: "keeps_open k k1" "sent k1 = sent k" using recv_keeps_open [OF v] recv_keeps(4) [OF v] by simp_all
  show ?thesis
  proof (cases a)
    case (Got b p)
    with e v have "client_packet sc fd (length b) (w\<lparr>w_addr := p, w_buffer := memcpy_at 0 b (w_buffer w)\<rparr>) k1 = (r, k')"
      by (simp add: client_rrq_answer_def)
    from client_packet_effect [OF this] k1 keeps_open_trans [OF k1(1)] keeps_then_closes [OF k1(1)]
    show ?thesis by (auto simp: in_effect_def split: progress.splits)
  qed (use e v in \<open>auto simp: client_rrq_answer_def intro: in_effects\<close>)
qed

interpretation client_rrq: handler fd "client_rrq_answer sc fd" "client_rrq_loop sc fd" w_fp
    "\<lambda>_ k. length (rx k)" 1 for sc fd
proof
  show "client_rrq_loop sc fd d k = (case client_rrq_answer sc fd d k of
      (Running d', k') \<Rightarrow> client_rrq_loop sc fd d' k' | (Stopped e, k') \<Rightarrow> (e, k'))" for d k
    by (rule client_rrq_loop.simps)
qed (auto simp: in_effect_def dest: client_rrq_answer_work client_rrq_answer_effect split: progress.splits)

text \<open>The two senders.\<close>

definition out_effect :: "int \<Rightarrow> outgoing \<Rightarrow> os \<Rightarrow> outgoing progress \<Rightarrow> os \<Rightarrow> bool" where
  "out_effect fd d k r k' \<longleftrightarrow>
     (case r of
        Running d' \<Rightarrow> d_fp d' = d_fp d \<and> keeps_open k k' \<and> length (sent k') \<le> Suc (length (sent k))
      | Stopped e \<Rightarrow> sent k' = sent k \<and> (e = Ended () \<and> closes (d_fp d) k k' \<or>
          e = Blocked \<and> keeps_open k k' \<and> fd \<notin> set (rcvtimeo k) \<and> rx k' = []))"

lemma fread_effect: "sys_fread s n k = (data, k1) \<Longrightarrow> keeps_open k k1 \<and> sent k1 = sent k"
  using fread_keeps_open [of k s n] sent_calls(1) [of s n k] by simp

lemma out_effect_close: "close_and_stop (d_fp d) k = (r, k') \<Longrightarrow> out_effect fd d k r k'"
  using close_and_stop_effect by (fastforce simp: out_effect_def)

lemma client_wrq_block_effect: "client_wrq_block fd d k = (r, k') \<Longrightarrow> out_effect fd d k r k'"
  using keeps_open_trans [OF _ sendto_keeps_open] sendto_sent_le
  by (auto simp: client_wrq_block_def Let_def out_effect_def dest!: fread_effect split: prod.splits) metis

lemma wrq_client_block_effect:
  assumes e: "wrq_client_block fd d k = (r, k')"
  shows "out_effect fd d k r k'"
proof -
  obtain data k1 where f: "sys_fread (d_fp d) BLOCK_SIZE k = (data, k1)" by fastforce
  note k1 = fread_effect [OF f]
  show ?thesis
  proof (cases "data = []")
    case True
    with e f have "close_and_stop (d_fp d) k1 = (r, k')" by (simp add: wrq_client_block_def)
    from close_and_stop_effect [OF this] k1 keeps_then_closes show ?thesis by (auto simp: out_effect_def)
  next
    case False
    with e f k1 keeps_open_trans [OF _ sendto_keeps_open] sendto_sent_le [of _ _ _ k1] show ?thesis
      by (auto simp: wrq_client_block_def send_data_def out_effect_def)
  qed
qed

lemma out_effect_recv:
  assumes v: "recv fd k = (a, k1)" and o: "out_effect fd d1 k1 r k'" and d: "d_fp d1 = d_fp d"
  shows "out_effect fd d k r k'"
proof -
  have k1: "keeps_open k k1" "sent k1 = sent k" "rcvtimeo k1 = rcvtimeo k"
    using recv_keeps_open [OF v] recv_keeps [OF v] by simp_all
  with o d keeps_open_trans [OF k1(1)] keeps_then_closes [OF k1(1)] show ?thesis
    by (auto simp: out_effect_def split: progress.splits)
qed

lemma out_effect_wait:
  assumes v: "recv fd k = (Waits, k1)"
  shows "out_effect fd d k (Stopped Blocked) k1"
proof -
  have "fd \<notin> set (rcvtimeo k) \<and> rx k1 = []" using v by (rule recv_cases) auto
  with recv_keeps_open [OF v] recv_keeps(4) [OF v] show ?thesis by (simp add: out_effect_def)
qed

lemmas out_effects = out_effect_close client_wrq_block_effect wrq_client_block_effect

lemma client_wrq_answer_effect:
  assumes e: "client_wrq_answer sc fd d k = (r, k')"
  shows "out_effect fd d k r k'"
proof -
  obtain a k1 where v: "recv fd k = (a, k1)" by fastforce
  show ?thesis
  proof (cases "a = Waits")
    case True
    with e v out_effect_wait [of fd k k1] show ?thesis by (simp add: client_wrq_answer_def)
  next
    case False
    then have "\<exists>d1. d_fp d1 = d_fp d \<and>
        (client_wrq_block fd d1 k1 = (r, k') \<or> close_and_stop (d_fp d1) k1 = (r, k'))"
      using e v by (cases a) (auto simp: client_wrq_answer_def Let_def split: if_splits intro: exI [of _ "d\<lparr>d_addr := _\<rparr>"])
    with out_effect_recv [OF v] out_effects show ?thesis by metis
  qed
qed

interpretation client_wrq: handler fd "client_wrq_answer sc fd" "client_wrq_loop sc fd" d_fp
    client_wrq_work 0 for sc fd
proof
  show "client_wrq_loop sc fd d k = (case client_wrq_answer sc fd d k of
      (Running d', k') \<Rightarrow> client_wrq_loop sc fd d' k' | (Stopped e, k') \<Rightarrow> (e, k'))" for d k
    by (rule client_wrq_loop.simps)
qed (auto simp: out_effect_def dest: client_wrq_answer_work client_wrq_answer_effect split: progress.splits)

lemma wrq_client_answer_effect:
  assumes e: "wrq_client_answer sc fd d k = (r, k')"
  shows "out_effect fd d k r k'"
proof -
  obtain a k1 where v: "recv fd k = (a, k1)" by fastforce
  show ?thesis
  proof (cases "a = Waits")
    case True
    with e v out_effect_wait [of fd k k1] show ?thesis by (simp add: wrq_client_answer_def)
  next
    case False
    then have "\<exists>d1. d_fp d1 = d_fp d \<and>
        (wrq_client_block fd d1 k1 = (r, k') \<or> close_and_stop (d_fp d1) k1 = (r, k'))"
      using e v by (cases a) (auto simp: wrq_client_answer_def Let_def split: if_splits
        intro: exI [of _ "d\<lparr>d_addr := _\<rparr>"] exI [of _ "d\<lparr>d_addr := _, d_block := _\<rparr>"])
    with out_effect_recv [OF v] out_effects show ?thesis by metis
  qed
qed

interpretation wrq_client: handler fd "wrq_client_answer sc fd" "wrq_client_loop sc fd" d_fp
    wrq_client_work 0 for sc fd
proof
  show "wrq_client_loop sc fd d k = (case wrq_client_answer sc fd d k of
      (Running d', k') \<Rightarrow> wrq_client_loop sc fd d' k' | (Stopped e, k') \<Rightarrow> (e, k'))" for d k
    by (rule wrq_client_loop.simps)
qed (auto simp: out_effect_def dest: wrq_client_answer_work wrq_client_answer_effect split: progress.splits)

end
