(* ===== verification/Legacy_Protocol.thy ===== *)
theory Legacy_Protocol
  imports Legacy_Servers Legacy_Clients
begin

text \<open>
  What the older programs do when no call fails: the file block by block, sent and received, by
  servers and clients.
\<close>

section \<open>Calls without faults\<close>

text \<open>The stream \<open>s\<close> has read the first \<open>n\<close> blocks of the file \<open>c\<close>.\<close>

definition reading :: "bytes \<Rightarrow> nat \<Rightarrow> nat \<Rightarrow> os \<Rightarrow> bool" where
  "reading c n s k \<longleftrightarrow> faults k = [] \<and> (\<exists>st. streams k s = Some st \<and> fs k (st_path st) = Some c \<and>
     st_pos st = min (TFTP_BLOCK_SIZE * n) (length c))"

text \<open>The stream \<open>s\<close> has written all of the file at \<open>path\<close>, which now is \<open>c\<close>.\<close>

definition writing :: "bytes \<Rightarrow> bytes \<Rightarrow> nat \<Rightarrow> os \<Rightarrow> bool" where
  "writing path c s k \<longleftrightarrow> faults k = [] \<and> fs k path = Some c \<and>
     (\<exists>st. streams k s = Some st \<and> st_path st = path \<and> st_pos st = length c)"

definition more_sent :: "(int \<times> sockaddr_in \<times> bytes) list \<Rightarrow> os \<Rightarrow> os" where
  "more_sent l k = k\<lparr>sent := sent k @ l\<rparr>"

lemma more_sent_simps [simp]:
  "sent (more_sent l k) = sent k @ l" "rx (more_sent l k) = rx k" "fds (more_sent l k) = fds k"
  "streams (more_sent l k) = streams k" "fs (more_sent l k) = fs k" "faults (more_sent l k) = faults k"
  "rcvtimeo (more_sent l k) = rcvtimeo k" "next_stream (more_sent l k) = next_stream k"
  "reading c n s (more_sent l k) = reading c n s k" "writing p c s (more_sent l k) = writing p c s k"
  by (simp_all add: more_sent_def reading_def writing_def)

lemma reading_rx [simp]: "reading c n s (k\<lparr>rx := r\<rparr>) = reading c n s k"
  "writing p c s (k\<lparr>rx := r\<rparr>) = writing p c s k"
  by (simp_all add: reading_def writing_def)

lemma sendto_ok:
  "faults k = [] \<Longrightarrow> fd \<in> set (fds k) \<Longrightarrow> snd (sys_sendto fd b a k) = more_sent [(fd, a, b)] k"
  by (simp add: sys_sendto_def more_sent_def)

lemma send_ack_ok:
  "faults k = [] \<Longrightarrow> fd \<in> set (fds k) \<Longrightarrow>
   send_ack fd a (int n) k = more_sent [(fd, a, encode (Ack (of_nat n)))] k"
  by (simp only: send_ack_def ack_packet_encode sendto_ok)

lemma reading_fread:
  assumes r: "reading c n s k"
  shows "\<exists>k'. sys_fread s BLOCK_SIZE k = (file_block c n, k') \<and> reading c (Suc n) s k' \<and>
    rx k' = rx k \<and> sent k' = sent k \<and> fds k' = fds k \<and> fs k' = fs k"
proof -
  from r obtain st where st: "faults k = []" "streams k s = Some st" "fs k (st_path st) = Some c"
    "st_pos st = min (TFTP_BLOCK_SIZE * n) (length c)" by (auto simp: reading_def)
  have d: "take BLOCK_SIZE (drop (st_pos st) c) = file_block c n"
    unfolding st(4) BLOCK_SIZE_TFTP
    by (cases "TFTP_BLOCK_SIZE * n \<le> length c") (simp_all add: min_def file_block_def)
  have p: "st_pos st + length (file_block c n) = min (TFTP_BLOCK_SIZE * Suc n) (length c)"
    unfolding st(4) length_file_block by (auto simp: min_def)
  show ?thesis
    using st(1-3) p unfolding d [symmetric] by (simp add: sys_fread_def stream_content_def read_amount_def Let_def reading_def)
qed

lemma writing_fwrite:
  assumes w: "writing p c s k"
  shows "\<exists>k'. snd (sys_fwrite s b k) = k' \<and> writing p (c @ b) s k' \<and>
    rx k' = rx k \<and> sent k' = sent k \<and> fds k' = fds k \<and> rcvtimeo k' = rcvtimeo k"
  using w by (auto simp: writing_def sys_fwrite_def stream_content_def read_amount_def Let_def)

lemma fopen_reading:
  assumes "faults k = []" "fs k n = Some c"
  shows "\<exists>k'. sys_fopen n False k = (Some (next_stream k), k') \<and> reading c 0 (next_stream k) k' \<and>
    rx k' = rx k \<and> sent k' = sent k \<and> set (fds k) \<subseteq> set (fds k')"
  using assms by (auto simp: sys_fopen_def reading_def Let_def)

lemma fopen_writing:
  assumes "faults k = []"
  shows "\<exists>k'. sys_fopen n True k = (Some (next_stream k), k') \<and> writing n [] (next_stream k) k' \<and>
    rx k' = rx k \<and> sent k' = sent k \<and> rcvtimeo k' = rcvtimeo k \<and> set (fds k) \<subseteq> set (fds k')"
  using assms by (auto simp: sys_fopen_def writing_def Let_def)

lemma fclose_same:
  "fs (snd (sys_fclose s k)) = fs k" "rx (snd (sys_fclose s k)) = rx k"
  by (auto simp: sys_fclose_def next_fault_def split: list.splits option.splits)

section \<open>Downloads\<close>

text \<open>
  An answer of any content by anybody, when the last block was full: the server reads on, sends
  the following block to whoever answered, and numbers it one higher exactly if the answer is
  the acknowledgement it can read.
\<close>

definition acknowledges :: "bool \<Rightarrow> bytes \<Rightarrow> int \<Rightarrow> bool" where
  "acknowledges sc p b \<longleftrightarrow> 4 \<le> length p \<and> p ! 1 = of_int ACK \<and> int_be sc p 2 = b"

lemma acknowledges_cut: "acknowledges sc (take BUFFER_SIZE p) b = acknowledges sc p b"
  by (auto simp: acknowledges_def legacy_sizes int_be_def)

lemma rrq_block_reads:
  assumes r: "reading c n (d_fp d) k" and fd: "fd \<in> set (fds k)"
  shows "\<exists>d' k'. rrq_block fd d k = (Running d', k') \<and> d_block d' = d_block d \<and> d_fp d' = d_fp d \<and>
    d_addr d' = d_addr d \<and> d_retries d' = 0 \<and> d_bytes d' = length (file_block c n) \<and>
    reading c (Suc n) (d_fp d) k' \<and> fds k' = fds k \<and> rx k' = rx k \<and>
    sent k' = sent k @ [(fd, d_addr d, data_packet (d_block d) (file_block c n))]"
proof -
  from reading_fread [OF r] obtain k1 where k1: "sys_fread (d_fp d) BLOCK_SIZE k = (file_block c n, k1)"
    "reading c (Suc n) (d_fp d) k1" "rx k1 = rx k" "sent k1 = sent k" "fds k1 = fds k" by blast
  moreover have "faults k1 = []" using k1(2) by (simp add: reading_def)
  ultimately show ?thesis using fd by (simp add: rrq_block_def rrq_resend_def sendto_ok)
qed

lemma rrq_answer_datagram:
  assumes fd: "fd \<in> set (fds k)" and x: "rx k = Rx_data from p # rest"
  shows "rrq_answer sc fd d k = rrq_continue fd
    (d\<lparr>d_addr := from, d_block := d_block d + (if acknowledges sc p (d_block d) then 1 else 0)\<rparr>) (k\<lparr>rx := rest\<rparr>)"
proof -
  have "acknowledges sc p (d_block d) \<longleftrightarrow> 4 \<le> length (take BUFFER_SIZE p) \<and>
      char_value sc (take BUFFER_SIZE p ! 1) = ACK \<and> int_be sc (take BUFFER_SIZE p) 2 = d_block d"
    unfolding acknowledges_cut [of sc p, symmetric] by (simp add: acknowledges_def char_value_eq_small ACK_def)
  then show ?thesis using recv_next [OF fd x] by (auto simp: rrq_answer_def Let_def)
qed

lemma rrq_next_block:
  fixes sc :: bool
  assumes r: "reading c n (d_fp d) k" and fd: "fd \<in> set (fds k)" and full: "d_bytes d = BLOCK_SIZE"
    and x: "rx k = Rx_data from p # rest"
  defines "b \<equiv> d_block d + (if acknowledges sc p (d_block d) then 1 else 0)"
  shows "\<exists>d' k'. rrq_answer sc fd d k = (Running d', k') \<and> d_block d' = b \<and> d_fp d' = d_fp d \<and>
    d_addr d' = from \<and> d_bytes d' = length (file_block c n) \<and>
    reading c (Suc n) (d_fp d) k' \<and> fds k' = fds k \<and> rx k' = rest \<and>
    sent k' = sent k @ [(fd, from, data_packet b (file_block c n))]"
proof -
  have "rrq_answer sc fd d k = rrq_block fd (d\<lparr>d_addr := from, d_block := b\<rparr>) (k\<lparr>rx := rest\<rparr>)"
    unfolding rrq_answer_datagram [OF fd x] b_def using full by (simp add: rrq_continue_def)
  moreover have "\<exists>d' k'. rrq_block fd (d\<lparr>d_addr := from, d_block := b\<rparr>) (k\<lparr>rx := rest\<rparr>) = (Running d', k') \<and>
      d_block d' = b \<and> d_fp d' = d_fp d \<and> d_addr d' = from \<and> d_bytes d' = length (file_block c n) \<and>
      reading c (Suc n) (d_fp d) k' \<and> fds k' = fds k \<and> rx k' = rest \<and>
      sent k' = sent k @ [(fd, from, data_packet b (file_block c n))]"
    using rrq_block_reads [of c n "d\<lparr>d_addr := from, d_block := b\<rparr>" "k\<lparr>rx := rest\<rparr>" fd] r fd by auto
  ultimately show ?thesis by simp
qed

lemma rrq_last_answer:
  assumes fd: "fd \<in> set (fds k)" and short: "d_bytes d \<noteq> BLOCK_SIZE" and x: "rx k = Rx_data from p # rest"
  shows "\<exists>k'. rrq_answer sc fd d k = (Stopped (Ended ()), k') \<and> rx k' = rest \<and> sent k' = sent k"
  unfolding rrq_answer_datagram [OF fd x] using short
  by (simp add: rrq_continue_def close_and_stop_def fclose_same)

lemma ack_acknowledges:
  "acknowledges sc (encode (Ack (of_nat n))) (int n) \<longleftrightarrow> recognised sc (int n)"
proof -
  have "encode (Ack (of_nat n)) = 0 # 4 # low_bytes (int n)"
    by (simp add: low_bytes_of_nat) (simp add: u16_be_def)
  with int_be_low_bytes [of "int n" sc 0 4 "[]"] show ?thesis
    by (simp add: acknowledges_def ACK_def)
qed

lemma full_block: "length (file_block c n) = BLOCK_SIZE \<longleftrightarrow> Suc n < block_count c"
  using short_block_is_last [of c n] length_file_block [of c n]
  by (simp add: BLOCK_SIZE_TFTP) linarith

text \<open>The acknowledgements of the blocks \<open>n\<close> to the last draw the blocks after \<open>n\<close>.\<close>

lemma rrq_loop_delivers:
  assumes "reading c n (d_fp d) k" "fd \<in> set (fds k)" "d_block d = int n"
    and "d_bytes d = length (file_block c (n - 1))" "0 < n" "n + m = block_count c"
    and "rx k = acks peer [n..<Suc (n + m)] @ rest" "\<forall>i\<le>block_count c. recognised sc (int i)"
  shows "\<exists>k'. rrq_loop sc fd d k = (Ended (), k') \<and> rx k' = rest \<and>
    sent k' = sent k @ blocks_from c fd peer [n..<n + m]"
  using assms
proof (induction m arbitrary: n d k)
  case 0
  from 0(7) have x: "rx k = Rx_data peer (encode (Ack (of_nat n))) # rest" by (simp add: acks_def)
  have "d_bytes d \<noteq> BLOCK_SIZE" using full_block [of c "n - 1"] 0(4,5,6) by simp
  from rrq_last_answer [OF 0(2) this x, of sc] obtain k' where
    "rrq_answer sc fd d k = (Stopped (Ended ()), k')" "rx k' = rest" "sent k' = sent k" by blast
  then show ?case by (simp add: rrq_loop.simps [of sc fd d k] blocks_from_def)
next
  case (Suc m)
  let ?q = "encode (Ack (of_nat n))"
  have "[n..<Suc (n + Suc m)] = n # [Suc n..<Suc (Suc n + m)]" by (simp add: upt_conv_Cons)
  then have x: "rx k = Rx_data peer ?q # acks peer [Suc n..<Suc (Suc n + m)] @ rest"
    using Suc.prems(7) by (simp add: acks_def)
  have full: "d_bytes d = BLOCK_SIZE" using full_block [of c "n - 1"] Suc.prems(4,5,6) by simp
  have a: "acknowledges sc ?q (d_block d)" 
    unfolding Suc.prems(3) ack_acknowledges using Suc.prems(6,8) by simp
  from rrq_next_block [OF Suc.prems(1,2) full x, of sc] a Suc.prems(3) obtain d' k' where
    s: "rrq_answer sc fd d k = (Running d', k')" "d_block d' = int (Suc n)" "d_fp d' = d_fp d"
      "d_bytes d' = length (file_block c n)" "reading c (Suc n) (d_fp d) k'" "fds k' = fds k"
      "rx k' = acks peer [Suc n..<Suc (Suc n + m)] @ rest"
      "sent k' = sent k @ [(fd, peer, data_packet (int (Suc n)) (file_block c n))]"
    by (auto simp: add.commute)
  have "[n..<n + Suc m] = n # [Suc n..<Suc n + m]" by (simp add: upt_conv_Cons)
  then have b: "blocks_from c fd peer [n..<n + Suc m] =
      (fd, peer, encode (Data (of_nat (Suc n)) (file_block c n))) # blocks_from c fd peer [Suc n..<Suc n + m]"
    by (simp add: blocks_from_def)
  from Suc.IH [of "Suc n" d' k'] s(2-7) Suc.prems(2,6,8) obtain k'' where
    "rrq_loop sc fd d' k' = (Ended (), k'')" "rx k'' = rest"
    "sent k'' = sent k' @ blocks_from c fd peer [Suc n..<Suc n + m]" by auto
  then show ?case
    unfolding rrq_loop.simps [of sc fd d k] s(1) b using s(8) data_packet_encode [of "Suc n"] by simp
qed

lemma handle_rrq_delivers:
  assumes k: "faults k = []" "fs k name = Some c" "fd \<in> set (fds k)"
    and x: "rx k = acks peer [1..<Suc (block_count c)] @ rest"
    and small: "\<forall>i\<le>block_count c. recognised sc (int i)"
  shows "\<exists>k'. handle_rrq sc fd peer name k = (Ended (), k') \<and> rx k' = rest \<and>
    sent k' = sent k @ blocks_from c fd peer [0..<block_count c]"
proof -
  from fopen_reading [OF k(1,2)] obtain k1 where k1: "sys_fopen name False k = (Some (next_stream k), k1)"
    "reading c 0 (next_stream k) k1" "rx k1 = rx k" "sent k1 = sent k" "fd \<in> set (fds k1)" using k(3) by blast
  let ?d = "\<lparr>d_addr = peer, d_fp = next_stream k, d_packet = [], d_block = 1, d_bytes = 0, d_retries = 0\<rparr>"
  from rrq_block_reads [of c 0 ?d k1 fd] k1 obtain d k2 where
    s: "rrq_block fd ?d k1 = (Running d, k2)" "d_block d = 1" "d_fp d = next_stream k"
      "d_bytes d = length (file_block c 0)" "reading c 1 (d_fp d) k2" "fd \<in> set (fds k2)" "rx k2 = rx k"
      "sent k2 = sent k @ [(fd, peer, data_packet 1 (file_block c 0))]" by auto
  obtain m where m: "1 + m = block_count c" by (simp add: block_count_def)
  have d: "d_block d = int 1" "d_bytes d = length (file_block c (1 - 1))" "rx k2 = acks peer [1..<Suc (1 + m)] @ rest"
    using s(2,4,7) x m by simp_all
  from rrq_loop_delivers [OF s(5,6) d(1,2) _ m d(3) small] obtain k3 where
    "rrq_loop sc fd d k2 = (Ended (), k3)" "rx k3 = rest"
    "sent k3 = sent k2 @ blocks_from c fd peer [1..<1 + m]" by auto
  moreover have "[0..<block_count c] = 0 # [1..<1 + m]" unfolding m [symmetric] by (simp add: upt_conv_Cons)
  moreover have "data_packet 1 (file_block c 0) = encode (Data (of_nat (Suc 0)) (file_block c 0))"
    using data_packet_encode [of "Suc 0"] by simp
  ultimately show ?thesis using k1(1) s(1,8) by (simp add: handle_rrq_def rrq_begin_def blocks_from_def)
qed

section \<open>Receiving a file\<close>

text \<open>The DATA packets of the blocks \<open>ns\<close>, as they arrive from \<open>peer\<close>.\<close>

definition datas :: "sockaddr_in \<Rightarrow> bytes \<Rightarrow> nat list \<Rightarrow> rx_answer list" where
  "datas peer c ns = map (\<lambda>k. Rx_data peer (encode (Data (of_nat (Suc k)) (file_block c k)))) ns"

definition acks_to :: "int \<Rightarrow> sockaddr_in \<Rightarrow> nat list \<Rightarrow> (int \<times> sockaddr_in \<times> bytes) list" where
  "acks_to fd peer ns = map (\<lambda>k. (fd, peer, encode (Ack (of_nat k)))) ns"

text \<open>
  What happens to a DATA packet with the expected number: its bytes are appended to the file and
  it is acknowledged; a short block ends the transfer, a full one advances the number.
\<close>

definition stored :: "int \<Rightarrow> sockaddr_in \<Rightarrow> bytes \<Rightarrow> bytes \<Rightarrow> nat \<Rightarrow> bytes \<Rightarrow> incoming \<Rightarrow> os \<Rightarrow>
    incoming progress \<Rightarrow> os \<Rightarrow> bool" where
  "stored fd peer path c n b w k r k' \<longleftrightarrow> fs k' path = Some (c @ b) \<and> rx k' = tl (rx k) \<and>
     sent k' = sent k @ [(fd, peer, encode (Ack (of_nat n)))] \<and>
     (if length b < BLOCK_SIZE then r = Stopped (Ended ())
      else \<exists>w'. r = Running w' \<and> w_fp w' = w_fp w \<and> length (w_buffer w') = BUFFER_SIZE \<and>
        w_expected w' = int (Suc n) \<and> writing path (c @ b) (w_fp w) k' \<and>
        fds k' = fds k \<and> rcvtimeo k' = rcvtimeo k)"

locale receiver = handler sockfd answer loop w_fp work last_sends
  for sockfd :: int and answer :: "incoming \<Rightarrow> os \<Rightarrow> incoming progress \<times> os"
    and loop :: "incoming \<Rightarrow> os \<Rightarrow> unit ending \<times> os" and work and last_sends +
  fixes sc :: bool
  assumes stores: "writing path c (w_fp w) k \<Longrightarrow> sockfd \<in> set (fds k) \<Longrightarrow>
    length (w_buffer w) = BUFFER_SIZE \<Longrightarrow> w_expected w = int n \<Longrightarrow> recognised sc (int n) \<Longrightarrow>
    length b \<le> BLOCK_SIZE \<Longrightarrow> rx k = Rx_data peer (encode (Data (of_nat n) b)) # rest \<Longrightarrow>
    stored sockfd peer path c n b w k (fst (answer w k)) (snd (answer w k))"
begin

text \<open>Full blocks one after the other.\<close>

lemma receives_full:
  assumes "writing path (concat (map (file_block c) [0..<n])) (w_fp w) k" "sockfd \<in> set (fds k)"
    and "length (w_buffer w) = BUFFER_SIZE" "w_expected w = int (Suc n)"
    and "rx k = datas peer c [n..<n + m] @ rest" "\<forall>i\<le>n + m. recognised sc (int i)"
    and "\<forall>i<n + m. length (file_block c i) = BLOCK_SIZE"
  shows "\<exists>w' k'. loop w k = loop w' k' \<and> w_fp w' = w_fp w \<and> length (w_buffer w') = BUFFER_SIZE \<and>
    w_expected w' = int (Suc (n + m)) \<and> writing path (concat (map (file_block c) [0..<n + m])) (w_fp w) k' \<and>
    fds k' = fds k \<and> rcvtimeo k' = rcvtimeo k \<and> rx k' = rest \<and>
    sent k' = sent k @ acks_to sockfd peer [Suc n..<Suc (n + m)]"
  using assms
proof (induction m arbitrary: n w k)
  case 0
  then show ?case by (intro exI [of _ w] exI [of _ k]) (simp add: datas_def acks_to_def)
next
  case (Suc m)
  let ?c = "concat (map (file_block c) [0..<n])" and ?b = "file_block c n"
  have l: "[n..<n + Suc m] = n # [Suc n..<Suc n + m]" "[Suc n..<Suc (n + Suc m)] = Suc n # [Suc (Suc n)..<Suc (Suc n + m)]"
    by (simp_all add: upt_conv_Cons)
  have x: "rx k = Rx_data peer (encode (Data (of_nat (Suc n)) ?b)) # datas peer c [Suc n..<Suc n + m] @ rest"
    using Suc.prems(5) unfolding l by (simp add: datas_def)
  have b: "length ?b = BLOCK_SIZE" using Suc.prems(7) by simp
  have "recognised sc (int (Suc n))" using spec [OF Suc.prems(6), of "Suc n"] by simp
  from stores [OF Suc.prems(1-4) this _ x] b obtain w' k' where s: "answer w k = (Running w', k')"
    "w_fp w' = w_fp w" "length (w_buffer w') = BUFFER_SIZE" "w_expected w' = int (Suc (Suc n))"
    "writing path (?c @ ?b) (w_fp w) k'" "fds k' = fds k" "rcvtimeo k' = rcvtimeo k"
    "rx k' = datas peer c [Suc n..<Suc n + m] @ rest"
    "sent k' = sent k @ [(sockfd, peer, encode (Ack (of_nat (Suc n))))]"
    by (cases "answer w k") (auto simp: stored_def x)
  have cc: "?c @ ?b = concat (map (file_block c) [0..<Suc n])" by simp
  have pre: "writing path (concat (map (file_block c) [0..<Suc n])) (w_fp w') k'" "sockfd \<in> set (fds k')"
    "\<forall>i\<le>Suc n + m. recognised sc (int i)" "\<forall>i<Suc n + m. length (file_block c i) = BLOCK_SIZE"
    using s(5) [folded s(2), unfolded cc] s(6) Suc.prems(2,6,7) by simp_all
  from Suc.IH [OF pre(1,2) s(3,4,8) pre(3,4)] obtain w'' k'' where
    "loop w' k' = loop w'' k''" "w_fp w'' = w_fp w'" "length (w_buffer w'') = BUFFER_SIZE"
    "w_expected w'' = int (Suc (Suc n + m))"
    "writing path (concat (map (file_block c) [0..<Suc n + m])) (w_fp w') k''"
    "fds k'' = fds k'" "rcvtimeo k'' = rcvtimeo k'" "rx k'' = rest"
    "sent k'' = sent k' @ acks_to sockfd peer [Suc (Suc n)..<Suc (Suc n + m)]" by blast
  moreover have "loop w k = loop w' k'" using s(1) by (simp add: loop_step [of w k])
  ultimately show ?case
    unfolding l using s(2,6,7,9) by (intro exI [of _ w''] exI [of _ k'']) (simp add: acks_to_def)
qed

text \<open>A whole file.\<close>

lemma receives_file:
  assumes w: "writing path [] (w_fp w) k" "sockfd \<in> set (fds k)" "length (w_buffer w) = BUFFER_SIZE"
      "w_expected w = 1"
    and x: "rx k = datas peer c [0..<block_count c] @ rest" and small: "\<forall>i\<le>block_count c. recognised sc (int i)"
  shows "\<exists>k'. loop w k = (Ended (), k') \<and> fs k' path = Some c \<and> rx k' = rest \<and>
    sent k' = sent k @ acks_to sockfd peer [1..<Suc (block_count c)]"
proof -
  obtain m where m: "block_count c = Suc m" by (simp add: block_count_def)
  let ?b = "file_block c m"
  have full: "\<forall>i<0 + m. length (file_block c i) = BLOCK_SIZE" using m by (auto simp: full_block)
  have short: "length ?b < BLOCK_SIZE" using short_block_is_last [of c m] m by (simp add: BLOCK_SIZE_TFTP)
  have pre: "writing path (concat (map (file_block c) [0..<0])) (w_fp w) k" "w_expected w = int (Suc 0)"
    "rx k = datas peer c [0..<0 + m] @ datas peer c [m] @ rest" "\<forall>i\<le>0 + m. recognised sc (int i)"
    using w x small m by (simp_all add: datas_def)
  from receives_full [OF pre(1) w(2,3) pre(2-4) full] obtain w' k' where
    s: "loop w k = loop w' k'" "w_fp w' = w_fp w" "length (w_buffer w') = BUFFER_SIZE" "w_expected w' = int (Suc m)"
      "writing path (concat (map (file_block c) [0..<m])) (w_fp w') k'" "fds k' = fds k"
      "rx k' = datas peer c [m] @ rest" "sent k' = sent k @ acks_to sockfd peer [Suc 0..<Suc m]" by auto
  have x': "rx k' = Rx_data peer (encode (Data (of_nat (Suc m)) ?b)) # rest" using s(7) by (simp add: datas_def)
  have r: "recognised sc (int (Suc m))" "sockfd \<in> set (fds k')" "length ?b \<le> BLOCK_SIZE"
    using spec [OF small, of "Suc m"] m s(6) w(2) short by simp_all
  from stores [OF s(5) r(2) s(3,4) r(1,3) x'] short obtain k'' where "answer w' k' = (Stopped (Ended ()), k'')"
    "fs k'' path = Some (concat (map (file_block c) [0..<m]) @ ?b)" "rx k'' = rest"
    "sent k'' = sent k' @ [(sockfd, peer, encode (Ack (of_nat (Suc m))))]"
    by (cases "answer w' k'") (auto simp: stored_def x')
  moreover have "concat (map (file_block c) [0..<m]) @ ?b = c" using blocks_join [of c] m by simp
  moreover have "loop w' k' = (case answer w' k' of (Running d, k) \<Rightarrow> loop d k | (Stopped e, k) \<Rightarrow> (e, k))"
    by (rule loop_step)
  moreover have "[1..<Suc (block_count c)] = [Suc 0..<Suc m] @ [Suc m]" using m by simp
  ultimately show ?thesis using s(1,8) by (simp only: acks_to_def map_append) simp
qed

end

text \<open>The packet in the buffer, and what the receivers do with it.\<close>

lemma data_in_buffer:
  assumes n: "recognised sc (int n)" and l: "length b \<le> BLOCK_SIZE" "length buf = BUFFER_SIZE"
  defines "B \<equiv> memcpy_at 0 (data_packet (int n) b) buf"
  shows "int_be sc B 0 = DATA" "int_be sc B 2 = int n" "char_value sc (B ! 1) = DATA"
    "take (length b) (drop 4 B) = b" "length B = BUFFER_SIZE"
proof -
  have B: "B = data_packet (int n) b @ drop (4 + length b) buf"
    by (simp add: B_def memcpy_at_0)
  show "int_be sc B 0 = DATA" "int_be sc B 2 = int n" using n by (simp_all add: B data_packet_reads)
  have "B ! 1 = of_int DATA" by (simp add: B data_packet_def)
  then show "char_value sc (B ! 1) = DATA" by (simp add: char_value_eq_small DATA_def)
  show "take (length b) (drop 4 B) = b" "length B = BUFFER_SIZE"
    using l by (simp_all add: B data_packet_reads(3) legacy_sizes)
qed

lemma wrq_packet_stores:
  assumes w: "writing path c (w_fp w) k" "fd \<in> set (fds k)" "length (w_buffer w) = BUFFER_SIZE"
    and n: "w_expected w = int n" "recognised sc (int n)" and b: "length b \<le> BLOCK_SIZE"
    and v: "w_buffer w1 = memcpy_at 0 (data_packet (int n) b) (w_buffer w)" "w_fp w1 = w_fp w"
      "w_expected w1 = w_expected w" "k1 = k\<lparr>rx := tl (rx k)\<rparr>"
    and e: "wrq_packet sc fd peer (4 + length b) w1 k1 = (r, k')"
  shows "stored fd peer path c n b w k r k'"
proof -
  note B = data_in_buffer [OF n(2) b w(3), folded v(1)]
  have "writing path c (w_fp w) k1" using w(1) v(4) by simp
  from writing_fwrite [OF this, of b] obtain k2 where
    k2: "snd (sys_fwrite (w_fp w) b k1) = k2" "writing path (c @ b) (w_fp w) k2" "rx k2 = rx k1"
      "sent k2 = sent k1" "fds k2 = fds k1" "rcvtimeo k2 = rcvtimeo k1" by blast
  have f: "faults k2 = []" "fs k2 path = Some (c @ b)" using k2(2) by (simp_all add: writing_def)
  have a: "send_ack fd peer (int n) k2 = more_sent [(fd, peer, encode (Ack (of_nat n)))] k2"
    by (rule send_ack_ok [OF f(1)]) (use k2(5) v(4) w(2) in simp)
  have e': "wrq_packet sc fd peer (4 + length b) w1 k1 =
      (if length b < BLOCK_SIZE then close_and_stop (w_fp w) (more_sent [(fd, peer, encode (Ack (of_nat n)))] k2)
       else (Running (w1\<lparr>w_expected := int n + 1\<rparr>), more_sent [(fd, peer, encode (Ack (of_nat n)))] k2))"
    using B n(1) v(2,3) k2(1) a by (simp add: wrq_packet_def Let_def legacy_sizes)
  show ?thesis
    using e [unfolded e'] k2 f v B(5) by (auto simp: stored_def close_and_stop_def fclose_same split: if_splits)
qed

lemma client_packet_stores:
  assumes w: "writing path c (w_fp w) k" "fd \<in> set (fds k)" "length (w_buffer w) = BUFFER_SIZE"
    and n: "w_expected w = int n" "recognised sc (int n)" and b: "length b \<le> BLOCK_SIZE"
    and v: "w_buffer w1 = memcpy_at 0 (data_packet (int n) b) (w_buffer w)" "w_fp w1 = w_fp w"
      "w_expected w1 = w_expected w" "w_addr w1 = peer"
    and e: "client_packet sc fd (4 + length b) w1 k1 = (r, k')" "k1 = k\<lparr>rx := tl (rx k)\<rparr>"
  shows "stored fd peer path c n b w k r k'"
proof -
  note B = data_in_buffer [OF n(2) b w(3), folded v(1)]
  have "wrq_packet sc fd peer (4 + length b) w1 k1 = (r, k')"
    using e(1) B v(3,4) n(1) by (simp add: client_packet_def wrq_packet_def Let_def legacy_opcodes)
  with wrq_packet_stores [OF w n b v(1-3) e(2)] show ?thesis by blast
qed

lemma recv_data:
  assumes "fd \<in> set (fds k)" "rx k = Rx_data peer (encode (Data (of_nat n) b)) # rest" "length b \<le> BLOCK_SIZE"
  shows "recv fd k = (Got (data_packet (int n) b) peer, k\<lparr>rx := tl (rx k)\<rparr>)"
proof -
  have x: "rx k = Rx_data peer (data_packet (int n) b) # rest" using assms(2) by (simp only: data_packet_encode)
  show ?thesis using recv_next_short [OF assms(1) x] assms(3) x by (simp add: legacy_sizes)
qed

interpretation wrq_file: receiver fd "wrq_answer sc fd" "wrq_loop sc fd" wrq_work 1 sc for sc fd
proof
  fix path c and w :: incoming and k n b peer rest
  assume a: "writing path c (w_fp w) k" "fd \<in> set (fds k)" "length (w_buffer w) = BUFFER_SIZE"
    "w_expected w = int n" "recognised sc (int n)" "length b \<le> BLOCK_SIZE"
    "rx k = Rx_data peer (encode (Data (of_nat n) b)) # rest"
  let ?w = "w\<lparr>w_buffer := memcpy_at 0 (data_packet (int n) b) (w_buffer w), w_retries := 0\<rparr>"
  have "wrq_answer sc fd w k = wrq_packet sc fd peer (4 + length b) ?w (k\<lparr>rx := tl (rx k)\<rparr>)"
    by (simp add: wrq_answer_def recv_data [OF a(2,7,6)])
  then show "stored fd peer path c n b w k (fst (wrq_answer sc fd w k)) (snd (wrq_answer sc fd w k))"
    using wrq_packet_stores [OF a(1-6), of ?w] by (simp add: prod_eq_iff)
qed

interpretation wrq_once_file: receiver fd "wrq_answer_once sc fd" "wrq_loop_once sc fd" "\<lambda>_ k. length (rx k)" 1 sc
  for sc fd
proof
  fix path c and w :: incoming and k n b peer rest
  assume a: "writing path c (w_fp w) k" "fd \<in> set (fds k)" "length (w_buffer w) = BUFFER_SIZE"
    "w_expected w = int n" "recognised sc (int n)" "length b \<le> BLOCK_SIZE"
    "rx k = Rx_data peer (encode (Data (of_nat n) b)) # rest"
  let ?w = "w\<lparr>w_addr := peer, w_buffer := memcpy_at 0 (data_packet (int n) b) (w_buffer w)\<rparr>"
  have "wrq_answer_once sc fd w k = wrq_packet sc fd peer (4 + length b) ?w (k\<lparr>rx := tl (rx k)\<rparr>)"
    by (simp add: wrq_answer_once_def recv_data [OF a(2,7,6)])
  then show "stored fd peer path c n b w k (fst (wrq_answer_once sc fd w k)) (snd (wrq_answer_once sc fd w k))"
    using wrq_packet_stores [OF a(1-6), of ?w] by (simp add: prod_eq_iff)
qed

interpretation client_rrq_file: receiver fd "client_rrq_answer sc fd" "client_rrq_loop sc fd" "\<lambda>_ k. length (rx k)" 1 sc
  for sc fd
proof
  fix path c and w :: incoming and k n b peer rest
  assume a: "writing path c (w_fp w) k" "fd \<in> set (fds k)" "length (w_buffer w) = BUFFER_SIZE"
    "w_expected w = int n" "recognised sc (int n)" "length b \<le> BLOCK_SIZE"
    "rx k = Rx_data peer (encode (Data (of_nat n) b)) # rest"
  let ?w = "w\<lparr>w_addr := peer, w_buffer := memcpy_at 0 (data_packet (int n) b) (w_buffer w)\<rparr>"
  have "client_rrq_answer sc fd w k = client_packet sc fd (4 + length b) ?w (k\<lparr>rx := tl (rx k)\<rparr>)"
    by (simp add: client_rrq_answer_def recv_data [OF a(2,7,6)])
  then show "stored fd peer path c n b w k (fst (client_rrq_answer sc fd w k)) (snd (client_rrq_answer sc fd w k))"
    using client_packet_stores [OF a(1-6), of ?w] by (simp add: prod_eq_iff)
qed

lemma wrq_begin_ok:
  assumes k: "faults k = []" "fd \<in> set (fds k)" and s: "length stack = BUFFER_SIZE"
  shows "\<exists>w k'. wrq_begin fd stack a name k = (Running w, k') \<and> writing name [] (w_fp w) k' \<and>
    fd \<in> set (fds k') \<and> length (w_buffer w) = BUFFER_SIZE \<and> w_expected w = 1 \<and> rx k' = rx k \<and>
    rcvtimeo k' = rcvtimeo k \<and> sent k' = sent k @ acks_to fd a [0]"
proof -
  from fopen_writing [OF k(1), of name] obtain k1 where k1: "sys_fopen name True k = (Some (next_stream k), k1)"
    "writing name [] (next_stream k) k1" "rx k1 = rx k" "sent k1 = sent k" "rcvtimeo k1 = rcvtimeo k"
    "fd \<in> set (fds k1)" using k(2) by blast
  have "send_ack fd a 0 k1 = more_sent [(fd, a, encode (Ack (of_nat 0)))] k1"
    using send_ack_ok [of k1 fd a 0] k1(2,6) by (simp add: writing_def)
  with k1 s show ?thesis by (simp add: wrq_begin_def acks_to_def)
qed

lemma handle_wrq_receives:
  assumes k: "faults k = []" "fd \<in> set (fds k)" and s: "length stack = BUFFER_SIZE"
    and x: "rx k = datas peer c [0..<block_count c] @ rest" and small: "\<forall>i\<le>block_count c. recognised sc (int i)"
  shows "\<exists>k'. handle_wrq sc fd stack a name k = (Ended (), k') \<and> fs k' name = Some c \<and> rx k' = rest \<and>
      sent k' = sent k @ acks_to fd a [0] @ acks_to fd peer [1..<Suc (block_count c)]"
    and "\<exists>k'. handle_wrq_once sc fd stack a name k = (Ended (), k') \<and> fs k' name = Some c \<and> rx k' = rest \<and>
      sent k' = sent k @ acks_to fd a [0] @ acks_to fd peer [1..<Suc (block_count c)]"
proof -
  from wrq_begin_ok [OF k s, of a name] obtain w k1 where b: "wrq_begin fd stack a name k = (Running w, k1)"
    "writing name [] (w_fp w) k1" "fd \<in> set (fds k1)" "length (w_buffer w) = BUFFER_SIZE" "w_expected w = 1"
    "rx k1 = rx k" "sent k1 = sent k @ acks_to fd a [0]" by blast
  have x1: "rx k1 = datas peer c [0..<block_count c] @ rest" using b(6) x by simp
  from wrq_file.receives_file [OF b(2-5) x1 small] b(1,7)
  show "\<exists>k'. handle_wrq sc fd stack a name k = (Ended (), k') \<and> fs k' name = Some c \<and> rx k' = rest \<and>
      sent k' = sent k @ acks_to fd a [0] @ acks_to fd peer [1..<Suc (block_count c)]"
    by (auto simp: handle_wrq_def)
  from wrq_once_file.receives_file [OF b(2-5) x1 small] b(1,7)
  show "\<exists>k'. handle_wrq_once sc fd stack a name k = (Ended (), k') \<and> fs k' name = Some c \<and> rx k' = rest \<and>
      sent k' = sent k @ acks_to fd a [0] @ acks_to fd peer [1..<Suc (block_count c)]"
    by (auto simp: handle_wrq_once_def)
qed

section \<open>Clients\<close>

lemma request_bytes_legacy:
  "[0, of_int RRQ] @ name @ [0] @ MODE @ [0] = request_bytes TFTP_OPCODE_RRQ name (cstr ''octet'')"
  "[0, of_int WRQ] @ name @ [0] @ MODE @ [0] = request_bytes TFTP_OPCODE_WRQ name (cstr ''octet'')"
  by (simp_all add: request_bytes_def legacy_opcodes MODE_def u16_be_def)

lemma length_MODE: "length MODE = 5"
  by (simp add: MODE_def)

lemma send_request_ok:
  assumes "faults k = []" "fd \<in> set (fds k)" "length name < 508"
  shows "send_rrq_or_wrq fd a name RRQ k =
      (Ended (), more_sent [(fd, a, request_bytes TFTP_OPCODE_RRQ name (cstr ''octet''))] k)"
    and "send_rrq_or_wrq fd a name WRQ k =
      (Ended (), more_sent [(fd, a, request_bytes TFTP_OPCODE_WRQ name (cstr ''octet''))] k)"
    and "send_wrq fd a name k =
      (Ended (), more_sent [(fd, a, request_bytes TFTP_OPCODE_WRQ name (cstr ''octet''))] k)"
proof -
  have "\<not> BUFFER_SIZE < 2 + length name + 1 + (length MODE + 1)" using assms(3) by (simp add: length_MODE legacy_sizes)
  then show "send_rrq_or_wrq fd a name RRQ k =
      (Ended (), more_sent [(fd, a, request_bytes TFTP_OPCODE_RRQ name (cstr ''octet''))] k)"
    "send_rrq_or_wrq fd a name WRQ k =
      (Ended (), more_sent [(fd, a, request_bytes TFTP_OPCODE_WRQ name (cstr ''octet''))] k)"
    "send_wrq fd a name k =
      (Ended (), more_sent [(fd, a, request_bytes TFTP_OPCODE_WRQ name (cstr ''octet''))] k)"
    unfolding send_rrq_or_wrq_def send_wrq_def Let_def request_bytes_legacy
    by (simp_all only: sendto_ok [OF assms(1,2)] if_False)
qed

lemma client_wrq_block_reads:
  assumes r: "reading c n (d_fp d) k" and fd: "fd \<in> set (fds k)" and b: "d_block d = int n"
  shows "\<exists>d' k'. client_wrq_block fd d k = (Running d', k') \<and> d_block d' = int (Suc n) \<and> d_fp d' = d_fp d \<and>
    d_addr d' = d_addr d \<and> d_bytes d' = length (file_block c n) \<and>
    reading c (Suc n) (d_fp d) k' \<and> fds k' = fds k \<and> rx k' = rx k \<and>
    sent k' = sent k @ blocks_from c fd (d_addr d) [n]"
proof -
  from reading_fread [OF r] obtain k1 where k1: "sys_fread (d_fp d) BLOCK_SIZE k = (file_block c n, k1)"
    "reading c (Suc n) (d_fp d) k1" "rx k1 = rx k" "sent k1 = sent k" "fds k1 = fds k" by blast
  have f: "faults k1 = []" using k1(2) by (simp add: reading_def)
  have "int n + 1 = int (Suc n)" by simp
  with k1 f fd b show ?thesis
    by (simp only: client_wrq_block_def prod.case Let_def data_packet_encode sendto_ok blocks_from_def)
      (simp add: sendto_ok)
qed

lemma client_wrq_answer_ack:
  assumes fd: "fd \<in> set (fds k)" and x: "rx k = Rx_data peer (encode (Ack (of_nat n))) # rest"
    and b: "d_block d = int n" "recognised sc (int n)"
  shows "client_wrq_answer sc fd d k =
    (if d_bytes d = BLOCK_SIZE then client_wrq_block fd (d\<lparr>d_addr := peer\<rparr>) (k\<lparr>rx := rest\<rparr>)
     else close_and_stop (d_fp d) (k\<lparr>rx := rest\<rparr>))"
proof -
  let ?p = "encode (Ack (of_nat n))"
  have p: "acknowledges sc ?p (int n)" using b(2) by (simp only: ack_acknowledges)
  have "length ?p \<le> BUFFER_SIZE" by (simp add: legacy_sizes)
  from recv_next_short [OF fd x this] p b(1) show ?thesis
    by (simp add: client_wrq_answer_def Let_def acknowledges_def char_value_eq_small [of 4, simplified] ACK_def
        del: encode.simps)
qed

lemma client_wrq_loop_sends:
  assumes "reading c n (d_fp d) k" "fd \<in> set (fds k)" "d_block d = int n"
    and "d_bytes d = length (file_block c (n - 1))" "0 < n" "n + m = block_count c"
    and "rx k = acks peer [n..<Suc (n + m)] @ rest" "\<forall>i\<le>block_count c. recognised sc (int i)"
  shows "\<exists>k'. client_wrq_loop sc fd d k = (Ended (), k') \<and> rx k' = rest \<and>
    sent k' = sent k @ blocks_from c fd peer [n..<n + m]"
  using assms
proof (induction m arbitrary: n d k)
  case 0
  from 0(7) have x: "rx k = Rx_data peer (encode (Ack (of_nat n))) # rest" by (simp add: acks_def)
  have "d_bytes d \<noteq> BLOCK_SIZE" using full_block [of c "n - 1"] 0(4,5,6) by simp
  moreover have "recognised sc (int n)" using 0(6,8) by simp
  ultimately show ?case
    by (simp add: client_wrq_loop.simps [of sc fd d k] client_wrq_answer_ack [OF 0(2) x 0(3)]
        close_and_stop_def fclose_same blocks_from_def)
next
  case (Suc m)
  have "[n..<Suc (n + Suc m)] = n # [Suc n..<Suc (Suc n + m)]" by (simp add: upt_conv_Cons)
  then have x: "rx k = Rx_data peer (encode (Ack (of_nat n))) # acks peer [Suc n..<Suc (Suc n + m)] @ rest"
    using Suc.prems(7) by (simp add: acks_def)
  have full: "d_bytes d = BLOCK_SIZE" using full_block [of c "n - 1"] Suc.prems(4,5,6) by simp
  have rec: "recognised sc (int n)" using Suc.prems(6,8) by simp
  let ?k = "k\<lparr>rx := acks peer [Suc n..<Suc (Suc n + m)] @ rest\<rparr>"
  have "reading c n (d_fp (d\<lparr>d_addr := peer\<rparr>)) ?k" "fd \<in> set (fds ?k)" "d_block (d\<lparr>d_addr := peer\<rparr>) = int n"
    using Suc.prems(1,2,3) by simp_all
  from client_wrq_block_reads [OF this] obtain d' k' where
    s: "client_wrq_block fd (d\<lparr>d_addr := peer\<rparr>) ?k = (Running d', k')" "d_block d' = int (Suc n)"
      "d_fp d' = d_fp d" "d_bytes d' = length (file_block c n)" "reading c (Suc n) (d_fp d) k'"
      "fds k' = fds k" "rx k' = acks peer [Suc n..<Suc (Suc n + m)] @ rest"
      "sent k' = sent k @ blocks_from c fd peer [n]" by auto
  have "[n..<n + Suc m] = [n] @ [Suc n..<Suc n + m]" by (simp add: upt_conv_Cons)
  then have b: "blocks_from c fd peer [n..<n + Suc m] =
      blocks_from c fd peer [n] @ blocks_from c fd peer [Suc n..<Suc n + m]"
    by (simp only: blocks_from_def map_append)
  have pre: "reading c (Suc n) (d_fp d') k'" "fd \<in> set (fds k')" "d_bytes d' = length (file_block c (Suc n - 1))"
    "0 < Suc n" "Suc n + m = block_count c" using s(3-6) Suc.prems(2,6) by simp_all
  from Suc.IH [OF pre(1,2) s(2) pre(3-5) s(7) Suc.prems(8)] obtain k'' where
    "client_wrq_loop sc fd d' k' = (Ended (), k'')" "rx k'' = rest"
    "sent k'' = sent k' @ blocks_from c fd peer [Suc n..<Suc n + m]" by blast
  moreover have "client_wrq_answer sc fd d k = (Running d', k')"
    using client_wrq_answer_ack [OF Suc.prems(2) x Suc.prems(3) rec] full s(1) by simp
  ultimately show ?case
    unfolding client_wrq_loop.simps [of sc fd d k] b using s(8) by simp
qed

lemma client_wrq_first_ack:
  assumes k: "reading c 0 fp k" "fd \<in> set (fds k)" and x: "rx k = Rx_data peer (encode (Ack 0)) # rest"
  shows "client_wrq_first sc fd a fp k = client_wrq_block fd
    \<lparr>d_addr = peer, d_fp = fp, d_packet = [], d_block = 0, d_bytes = 0, d_retries = 0\<rparr> (k\<lparr>rx := rest\<rparr>)"
proof -
  have p: "acknowledges sc (encode (Ack 0)) 0"
    using ack_acknowledges [of sc 0] by (simp add: recognised_def)
  have "length (encode (Ack 0)) \<le> BUFFER_SIZE" by (simp add: legacy_sizes)
  from recv_next_short [OF k(2) x this] p show ?thesis
    by (simp add: client_wrq_first_def acknowledges_def char_value_eq_small [of 4, simplified] ACK_def
        del: encode.simps)
qed

lemma client_handle_wrq_sends:
  assumes k: "faults k = []" "fs k name = Some c" "fd \<in> set (fds k)" "length name < 508"
    and x: "rx k = acks peer [0..<Suc (block_count c)] @ rest" and small: "\<forall>i\<le>block_count c. recognised sc (int i)"
  shows "\<exists>k'. client_handle_wrq sc fd a name k = (Ended (), k') \<and> rx k' = rest \<and>
    sent k' = sent k @ (fd, a, request_bytes TFTP_OPCODE_WRQ name (cstr ''octet'')) #
      blocks_from c fd peer [0..<block_count c]"
proof -
  from fopen_reading [OF k(1,2)] obtain k1 where k1: "sys_fopen name False k = (Some (next_stream k), k1)"
    "reading c 0 (next_stream k) k1" "rx k1 = rx k" "sent k1 = sent k" "fd \<in> set (fds k1)" using k(3) by blast
  let ?req = "(fd, a, request_bytes TFTP_OPCODE_WRQ name (cstr ''octet''))"
  let ?k2 = "more_sent [?req] k1" and ?fp = "next_stream k"
  have k2: "send_rrq_or_wrq fd a name WRQ k1 = (Ended (), ?k2)"
    by (rule send_request_ok(2) [OF _ k1(5) k(4)]) (use k1(2) in \<open>simp add: reading_def\<close>)
  obtain m where m: "1 + m = block_count c" by (simp add: block_count_def)
  have l: "[0..<Suc (block_count c)] = 0 # [1..<Suc (1 + m)]" unfolding m by (simp add: upt_conv_Cons)
  have x2: "rx ?k2 = Rx_data peer (encode (Ack 0)) # acks peer [1..<Suc (1 + m)] @ rest"
    unfolding more_sent_simps k1(3) x l by (simp add: acks_def del: encode.simps upt_Suc)
  let ?d = "\<lparr>d_addr = peer, d_fp = ?fp, d_packet = [], d_block = 0, d_bytes = 0, d_retries = 0\<rparr>"
  let ?k3 = "?k2\<lparr>rx := acks peer [1..<Suc (1 + m)] @ rest\<rparr>"
  have k2': "reading c 0 ?fp ?k2" "fd \<in> set (fds ?k2)" using k1(2,5) by simp_all
  have f: "client_wrq_first sc fd a ?fp ?k2 = client_wrq_block fd ?d ?k3"
    by (rule client_wrq_first_ack [OF k2' x2])
  have k3: "reading c 0 (d_fp ?d) ?k3" "fd \<in> set (fds ?k3)" "d_block ?d = int 0" using k2' by simp_all
  from client_wrq_block_reads [OF k3] obtain d k4 where
    s: "client_wrq_block fd ?d ?k3 = (Running d, k4)" "d_block d = int (Suc 0)" "d_fp d = ?fp"
      "d_bytes d = length (file_block c 0)" "reading c (Suc 0) ?fp k4" "fds k4 = fds k1"
      "rx k4 = acks peer [1..<Suc (1 + m)] @ rest" "sent k4 = sent k @ [?req] @ blocks_from c fd peer [0]"
    using k1(4) by auto
  have d: "reading c 1 (d_fp d) k4" "fd \<in> set (fds k4)" "d_block d = int 1" "d_bytes d = length (file_block c (1 - 1))"
    using s(2-6) k1(5) by simp_all
  from client_wrq_loop_sends [OF d _ m s(7) small] obtain k5 where
    "client_wrq_loop sc fd d k4 = (Ended (), k5)" "rx k5 = rest"
    "sent k5 = sent k4 @ blocks_from c fd peer [1..<1 + m]" by auto
  moreover have "[0..<block_count c] = [0] @ [1..<1 + m]" unfolding m [symmetric] by (simp add: upt_conv_Cons)
  ultimately show ?thesis using k1(1) k2 f s(1,8)
    by (simp add: client_handle_wrq_def blocks_from_def)
qed

text \<open>The download client.\<close>

lemma client_handle_rrq_receives:
  assumes k: "faults k = []" "fd \<in> set (fds k)" "length name < 508" and s: "length stack = BUFFER_SIZE"
    and x: "rx k = datas peer c [0..<block_count c] @ rest" and small: "\<forall>i\<le>block_count c. recognised sc (int i)"
  shows "\<exists>k'. client_handle_rrq sc fd stack a name k = (Ended (), k') \<and> fs k' name = Some c \<and> rx k' = rest \<and>
    sent k' = sent k @ (fd, a, request_bytes TFTP_OPCODE_RRQ name (cstr ''octet'')) #
      acks_to fd peer [1..<Suc (block_count c)]"
proof -
  from fopen_writing [OF k(1), of name] obtain k1 where k1: "sys_fopen name True k = (Some (next_stream k), k1)"
    "writing name [] (next_stream k) k1" "rx k1 = rx k" "sent k1 = sent k" "fd \<in> set (fds k1)" using k(2) by blast
  let ?req = "(fd, a, request_bytes TFTP_OPCODE_RRQ name (cstr ''octet''))"
  let ?w = "\<lparr>w_addr = a, w_fp = next_stream k, w_buffer = stack, w_expected = 1, w_retries = 0\<rparr>"
  have k2: "send_rrq_or_wrq fd a name RRQ k1 = (Ended (), more_sent [?req] k1)"
    by (rule send_request_ok(1) [OF _ k1(5) k(3)]) (use k1(2) in \<open>simp add: writing_def\<close>)
  have w: "writing name [] (w_fp ?w) (more_sent [?req] k1)" "fd \<in> set (fds (more_sent [?req] k1))"
    "length (w_buffer ?w) = BUFFER_SIZE" "w_expected ?w = 1"
    "rx (more_sent [?req] k1) = datas peer c [0..<block_count c] @ rest" using k1 s x by simp_all
  from client_rrq_file.receives_file [OF w small] obtain k3 where
    "client_rrq_loop sc fd ?w (more_sent [?req] k1) = (Ended (), k3)" "fs k3 name = Some c" "rx k3 = rest"
    "sent k3 = sent k @ [?req] @ acks_to fd peer [1..<Suc (block_count c)]" using k1(4) by auto
  then show ?thesis using k1(1) k2 by (simp add: client_handle_rrq_def)
qed

text \<open>The upload client of \<open>TFTP_Client_WRQ.c\<close> with a file of \<open>m\<close> full blocks.\<close>

lemma full_blocks: "length c = TFTP_BLOCK_SIZE * m \<Longrightarrow> i < m \<Longrightarrow> length (file_block c i) = BLOCK_SIZE"
  by (cases m) (simp_all add: length_file_block block_bytes BLOCK_SIZE_def)

lemma no_more_blocks: "length c = TFTP_BLOCK_SIZE * m \<Longrightarrow> file_block c m = []"
  by (simp add: file_block_def)

lemma wrq_client_block_reads:
  assumes r: "reading c n (d_fp d) k" and fd: "fd \<in> set (fds k)" and b: "d_block d = int (Suc n)"
    and m: "length c = TFTP_BLOCK_SIZE * m" "n < m"
  shows "\<exists>d' k'. wrq_client_block fd d k = (Running d', k') \<and> d_block d' = int (Suc n) \<and> d_fp d' = d_fp d \<and>
    d_addr d' = d_addr d \<and> d_bytes d' = BLOCK_SIZE \<and> reading c (Suc n) (d_fp d) k' \<and> fds k' = fds k \<and>
    rx k' = rx k \<and> sent k' = sent k @ blocks_from c fd (d_addr d) [n]"
proof -
  from reading_fread [OF r] obtain k1 where k1: "sys_fread (d_fp d) BLOCK_SIZE k = (file_block c n, k1)"
    "reading c (Suc n) (d_fp d) k1" "rx k1 = rx k" "sent k1 = sent k" "fds k1 = fds k" by blast
  have f: "faults k1 = []" "fd \<in> set (fds k1)" using k1(2,5) fd by (simp_all add: reading_def)
  have l: "length (file_block c n) = BLOCK_SIZE" using full_blocks [OF m] .
  then have ne: "file_block c n \<noteq> []" by (auto simp: BLOCK_SIZE_def)
  have "wrq_client_block fd d k = (Running (d\<lparr>d_bytes := BLOCK_SIZE\<rparr>),
      more_sent [(fd, d_addr d, encode (Data (of_nat (Suc n)) (file_block c n)))] k1)"
    unfolding wrq_client_block_def k1(1) prod.case if_not_P [OF ne] l send_data_def b data_packet_encode
    by (simp only: sendto_ok [OF f])
  then show ?thesis using k1 b by (simp add: blocks_from_def)
qed

lemma wrq_client_block_end:
  assumes r: "reading c m (d_fp d) k" and m: "length c = TFTP_BLOCK_SIZE * m"
  shows "\<exists>k'. wrq_client_block fd d k = (Stopped (Ended ()), k') \<and> rx k' = rx k \<and> sent k' = sent k"
proof -
  from reading_fread [OF r] obtain k1 where "sys_fread (d_fp d) BLOCK_SIZE k = (file_block c m, k1)"
    "rx k1 = rx k" "sent k1 = sent k" by blast
  then show ?thesis
    using no_more_blocks [OF m] by (simp add: wrq_client_block_def close_and_stop_def fclose_same)
qed

lemma wrq_client_answer_ack:
  assumes fd: "fd \<in> set (fds k)" and x: "rx k = Rx_data peer (encode (Ack (of_nat n))) # rest"
    and b: "d_block d = int n" "recognised sc (int n)" and full: "d_bytes d = BLOCK_SIZE"
  shows "wrq_client_answer sc fd d k = wrq_client_block fd
    (d\<lparr>d_addr := peer, d_block := int (Suc n)\<rparr>) (k\<lparr>rx := rest\<rparr>)"
proof -
  let ?p = "encode (Ack (of_nat n))"
  have p: "acknowledges sc ?p (int n)" using b(2) by (simp only: ack_acknowledges)
  have "length ?p \<le> BUFFER_SIZE" by (simp add: legacy_sizes)
  from recv_next_short [OF fd x this] p b(1) full show ?thesis
    by (simp add: wrq_client_answer_def Let_def acknowledges_def char_value_eq_small [of 4, simplified] ACK_def
        add.commute [of 1] del: encode.simps)
qed

lemma wrq_client_loop_full:
  assumes "reading c n (d_fp d) k" "fd \<in> set (fds k)" "d_block d = int n" "d_bytes d = BLOCK_SIZE"
    and "length c = TFTP_BLOCK_SIZE * (n + j)"
    and "rx k = acks peer [n..<Suc (n + j)] @ rest" "\<forall>i\<le>n + j. recognised sc (int i)"
  shows "\<exists>k'. wrq_client_loop sc fd d k = (Ended (), k') \<and> rx k' = rest \<and>
    sent k' = sent k @ blocks_from c fd peer [n..<n + j]"
  using assms
proof (induction j arbitrary: n d k)
  case 0
  from 0(6) have x: "rx k = Rx_data peer (encode (Ack (of_nat n))) # rest" by (simp add: acks_def)
  have rec: "recognised sc (int n)" using 0(7) by simp
  let ?d = "d\<lparr>d_addr := peer, d_block := int (Suc n)\<rparr>" and ?k = "k\<lparr>rx := rest\<rparr>"
  have "reading c n (d_fp ?d) ?k" "length c = TFTP_BLOCK_SIZE * n" using 0(1,5) by simp_all
  from wrq_client_block_end [OF this, of fd] obtain k' where
    "wrq_client_block fd ?d ?k = (Stopped (Ended ()), k')" "rx k' = rest" "sent k' = sent k" by auto
  then show ?case
    by (simp add: wrq_client_loop.simps [of sc fd d k] wrq_client_answer_ack [OF 0(2) x 0(3) rec 0(4)]
        blocks_from_def del: of_nat_Suc)
next
  case (Suc j)
  have l: "[n..<Suc (n + Suc j)] = n # [Suc n..<Suc (Suc n + j)]" "[n..<n + Suc j] = [n] @ [Suc n..<Suc n + j]"
    by (simp_all add: upt_conv_Cons)
  have x: "rx k = Rx_data peer (encode (Ack (of_nat n))) # acks peer [Suc n..<Suc (Suc n + j)] @ rest"
    using Suc.prems(6) unfolding l by (simp add: acks_def)
  have rec: "recognised sc (int n)" using Suc.prems(7) by simp
  let ?d = "d\<lparr>d_addr := peer, d_block := int (Suc n)\<rparr>"
    and ?k = "k\<lparr>rx := acks peer [Suc n..<Suc (Suc n + j)] @ rest\<rparr>"
  have "reading c n (d_fp ?d) ?k" "fd \<in> set (fds ?k)" "d_block ?d = int (Suc n)" "n < n + Suc j"
    using Suc.prems(1,2) by simp_all
  from wrq_client_block_reads [OF this(1-3) Suc.prems(5) this(4)] obtain d' k' where
    s: "wrq_client_block fd ?d ?k = (Running d', k')" "d_block d' = int (Suc n)" "d_fp d' = d_fp d"
      "d_bytes d' = BLOCK_SIZE" "reading c (Suc n) (d_fp d) k'" "fds k' = fds k"
      "rx k' = acks peer [Suc n..<Suc (Suc n + j)] @ rest" "sent k' = sent k @ blocks_from c fd peer [n]" by auto
  have pre: "reading c (Suc n) (d_fp d') k'" "fd \<in> set (fds k')" "length c = TFTP_BLOCK_SIZE * (Suc n + j)"
    "\<forall>i\<le>Suc n + j. recognised sc (int i)" using s(3,5,6) Suc.prems(2,5,7) by simp_all
  from Suc.IH [OF pre(1,2) s(2,4) pre(3) s(7) pre(4)] obtain k'' where
    "wrq_client_loop sc fd d' k' = (Ended (), k'')" "rx k'' = rest"
    "sent k'' = sent k' @ blocks_from c fd peer [Suc n..<Suc n + j]" by blast
  then show ?case
    unfolding wrq_client_loop.simps [of sc fd d k] l
    using wrq_client_answer_ack [OF Suc.prems(2) x Suc.prems(3) rec Suc.prems(4)] s(1,8)
    by (simp add: blocks_from_def)
qed

end
