(* ===== verification/Legacy_Runs.thy ===== *)
theory Legacy_Runs
  imports Legacy_Protocol
begin

text \<open>
  What the older programs guarantee and where they fail: whole transfers between their clients
  and servers, termination under a receive timeout, the threads' resources, and the inputs that
  lose data, stall or crash them.
\<close>

section \<open>Client and server together\<close>

text \<open>
  \<open>news\<close> is what a program sent, \<open>arrives peer\<close> how it looks to a receiver who knows the sender
  as \<open>peer\<close>.  Two runs fit together when each receives what the other sent.
\<close>

definition news :: "os \<Rightarrow> os \<Rightarrow> (int \<times> sockaddr_in \<times> bytes) list" where
  "news k k' = drop (length (sent k)) (sent k')"

definition arrives :: "sockaddr_in \<Rightarrow> (int \<times> sockaddr_in \<times> bytes) list \<Rightarrow> rx_answer list" where
  "arrives peer l = map (\<lambda>m. Rx_data peer (snd (snd m))) l"

lemma arrives_blocks: "arrives peer (blocks_from c fd a ns) = datas peer c ns"
  by (simp add: arrives_def blocks_from_def datas_def)

lemma arrives_acks: "arrives peer (acks_to fd a ns) = acks peer ns"
  by (simp add: arrives_def acks_to_def acks_def)

lemma arrives_append: "arrives peer (l @ l') = arrives peer l @ arrives peer l'"
  by (simp add: arrives_def)

lemma news_append: "sent k' = sent k @ l \<Longrightarrow> news k k' = l"
  by (simp add: news_def)

text \<open>How many block numbers a receiver can read without a gap.\<close>

definition number_limit :: "bool \<Rightarrow> nat" where
  "number_limit sc = (if sc then 128 else 65536)"

lemma below_limit: "n < number_limit sc \<Longrightarrow> \<forall>i\<le>n. recognised sc (int i)"
  by (auto simp: number_limit_def recognised_def split: if_splits)

text \<open>
  C17: A download works: the client's file ends up as the server's file, byte for byte, and both
  programs finish.  The client receives exactly what the server sent, the server exactly what the
  client sent after its request; the two may differ in the signedness of \<open>char\<close>, and the file may
  have any length below the limit that \<open>char\<close> sets.
\<close>

theorem legacy_download_copies_file:
  assumes "faults ks = []" "fs ks name = Some c" "sfd \<in> set (fds ks)" "rx ks = acks client [1..<Suc (block_count c)]"
    and "faults kc = []" "cfd \<in> set (fds kc)" "length name < 508" "length stack = BUFFER_SIZE"
      "rx kc = datas server c [0..<block_count c]"
    and "block_count c < number_limit sc" "block_count c < number_limit sc'"
  shows "\<exists>ks' kc'. handle_rrq sc sfd client name ks = (Ended (), ks') \<and>
    client_handle_rrq sc' cfd stack addr name kc = (Ended (), kc') \<and>
    fs kc' name = Some c \<and>
    arrives server (news ks ks') = rx kc \<and>
    arrives client (news kc kc') =
      Rx_data client (request_bytes TFTP_OPCODE_RRQ name (cstr ''octet'')) # rx ks"
proof -
  have xs: "rx ks = acks client [1..<Suc (block_count c)] @ []" and xc: "rx kc = datas server c [0..<block_count c] @ []"
    using assms(4,9) by simp_all
  from handle_rrq_delivers [OF assms(1-3) xs below_limit [OF assms(10)]] obtain ks' where
    s: "handle_rrq sc sfd client name ks = (Ended (), ks')"
      "sent ks' = sent ks @ blocks_from c sfd client [0..<block_count c]" by blast
  from client_handle_rrq_receives [OF assms(5-8) xc below_limit [OF assms(11)], of addr] obtain kc' where
    r: "client_handle_rrq sc' cfd stack addr name kc = (Ended (), kc')" "fs kc' name = Some c"
      "sent kc' = sent kc @ (cfd, addr, request_bytes TFTP_OPCODE_RRQ name (cstr ''octet'')) #
         acks_to cfd server [1..<Suc (block_count c)]" by blast
  have "arrives client (news kc kc') =
      Rx_data client (request_bytes TFTP_OPCODE_RRQ name (cstr ''octet'')) # rx ks"
    unfolding news_append [OF r(3)] assms(4) arrives_acks [of client cfd server, symmetric]
    by (simp add: arrives_def)
  with s r show ?thesis by (simp add: news_append [OF s(2)] arrives_blocks assms(9))
qed

text \<open>A machine with the file \<open>a\<close>, for the examples.\<close>

definition demo_os :: "rx_answer list \<Rightarrow> os" where
  "demo_os answers = (os_start [cstr ''a'' \<mapsto> [1, 2, 3]])\<lparr>rx := answers\<rparr>"

lemma demo_os_simps [simp]:
  "faults (demo_os x) = []" "rx (demo_os x) = x" "fds (demo_os x) = [2, 1, 0]" "sent (demo_os x) = []"
  "fs (demo_os x) (cstr ''a'') = Some [1, 2, 3]" "streams (demo_os x) = Map.empty" "rcvtimeo (demo_os x) = []"
  by (simp_all add: demo_os_def os_start_def)

lemma demo_count: "block_count [1, 2, 3] = 1" "block_count [1, 2, 3] < number_limit sc"
  by (simp_all add: block_count_def block_bytes number_limit_def)

theorem legacy_download_copies_file_witness:
  "\<exists>ks' kc'. handle_rrq True 0 sockaddr_zero (cstr ''a'') (demo_os (acks sockaddr_zero [1..<2])) = (Ended (), ks') \<and>
    client_handle_rrq False 0 (replicate 516 0) sockaddr_zero (cstr ''a'')
      (demo_os (datas sockaddr_zero [1, 2, 3] [0..<1])) = (Ended (), kc') \<and>
    fs kc' (cstr ''a'') = Some [1, 2, 3]"
proof -
  have "length (cstr ''a'') < 508" by simp
  then show ?thesis
    using legacy_download_copies_file [of "demo_os (acks sockaddr_zero [1..<2])" "cstr ''a''" "[1, 2, 3]" 0 sockaddr_zero
      "demo_os (datas sockaddr_zero [1, 2, 3] [0..<1])" 0 "replicate 516 0" sockaddr_zero True False sockaddr_zero]
      demo_count(2) [of True] demo_count(2) [of False]
    unfolding demo_count(1) by (simp add: BUFFER_SIZE_def numeral_2_eq_2) blast
qed

text \<open>
  C16: An upload works the same way with the multi-threaded server's handler and with the
  single-threaded one's: the server's file ends up as the client's.
\<close>

theorem legacy_upload_copies_file:
  assumes "faults kc = []" "fs kc name = Some c" "cfd \<in> set (fds kc)" "length name < 508"
      "rx kc = acks server [0..<Suc (block_count c)]"
    and "faults ks = []" "sfd \<in> set (fds ks)" "length stack = BUFFER_SIZE"
      "rx ks = datas client c [0..<block_count c]"
    and "block_count c < number_limit sc" "block_count c < number_limit sc'"
    and "handle \<in> {handle_wrq, handle_wrq_once}"
  shows "\<exists>kc' ks'. client_handle_wrq sc cfd addr name kc = (Ended (), kc') \<and>
    handle sc' sfd stack client name ks = (Ended (), ks') \<and>
    fs ks' name = Some c \<and>
    arrives server (news ks ks') = rx kc \<and>
    arrives client (news kc kc') =
      Rx_data client (request_bytes TFTP_OPCODE_WRQ name (cstr ''octet'')) # rx ks"
proof -
  have xc: "rx kc = acks server [0..<Suc (block_count c)] @ []" and xs: "rx ks = datas client c [0..<block_count c] @ []"
    using assms(5,9) by simp_all
  from client_handle_wrq_sends [OF assms(1-4) xc below_limit [OF assms(10)], of addr] obtain kc' where
    r: "client_handle_wrq sc cfd addr name kc = (Ended (), kc')"
      "sent kc' = sent kc @ (cfd, addr, request_bytes TFTP_OPCODE_WRQ name (cstr ''octet'')) #
         blocks_from c cfd server [0..<block_count c]" by blast
  obtain ks' where s: "handle sc' sfd stack client name ks = (Ended (), ks')" "fs ks' name = Some c"
      "sent ks' = sent ks @ acks_to sfd client [0] @ acks_to sfd client [1..<Suc (block_count c)]"
    using handle_wrq_receives [OF assms(6-8) xs below_limit [OF assms(11)], of client name] assms(12) by blast
  have l: "[0..<Suc (block_count c)] = [0] @ [1..<Suc (block_count c)]" by (simp add: upt_conv_Cons)
  have "arrives server (news ks ks') = rx kc"
    unfolding news_append [OF s(3)] assms(5) l arrives_append arrives_acks by (simp add: acks_def)
  moreover have "arrives client (news kc kc') =
      Rx_data client (request_bytes TFTP_OPCODE_WRQ name (cstr ''octet'')) # rx ks"
    unfolding news_append [OF r(2)] assms(9) arrives_blocks [of client c cfd server, symmetric]
    by (simp add: arrives_def)
  ultimately show ?thesis using r(1) s(1,2) by blast
qed

theorem legacy_upload_copies_file_witness:
  "\<exists>kc' ks'. client_handle_wrq True 0 sockaddr_zero (cstr ''a'') (demo_os (acks sockaddr_zero [0..<2])) = (Ended (), kc') \<and>
    handle_wrq_once True 0 (replicate 516 0) sockaddr_zero (cstr ''a'')
      (demo_os (datas sockaddr_zero [1, 2, 3] [0..<1])) = (Ended (), ks') \<and>
    fs ks' (cstr ''a'') = Some [1, 2, 3]"
proof -
  have "length (cstr ''a'') < 508" by simp
  then show ?thesis
    using legacy_upload_copies_file [of "demo_os (acks sockaddr_zero [0..<2])" "cstr ''a''" "[1, 2, 3]" 0 sockaddr_zero
      "demo_os (datas sockaddr_zero [1, 2, 3] [0..<1])" 0 "replicate 516 0" sockaddr_zero True True handle_wrq_once sockaddr_zero]
      demo_count(2) [of True]
    unfolding demo_count(1) by (simp add: BUFFER_SIZE_def numeral_2_eq_2) blast
qed

section \<open>Block numbers\<close>

text \<open>
  C23: Which block numbers a program can read back from the wire: the number of an ACK or of a
  DATA packet equals the sender's exactly if it fits 16 bits and, with a signed \<open>char\<close>, its low
  byte is below 128 and it is below 32768.  In particular, with a signed \<open>char\<close> the
  acknowledgement of block 128 is not recognised.
\<close>

theorem block_numbers_read_back:
  "(acknowledges sc (encode (Ack (of_nat n))) (int n) \<longleftrightarrow>
      (if sc then n < 32768 \<and> n mod 256 < 128 else n < 65536)) \<and>
   (int_be sc (encode (Data (of_nat n) b)) 2 = int n \<longleftrightarrow>
      (if sc then n < 32768 \<and> n mod 256 < 128 else n < 65536))"
proof -
  have r: "(if sc then n < 32768 \<and> n mod 256 < 128 else n < 65536) \<longleftrightarrow> recognised sc (int n)"
    using zmod_int [of n 256] by (auto simp: recognised_def)
  have "int_be sc (data_packet (int n) b) 2 = int n \<longleftrightarrow> recognised sc (int n)"
    using data_packet_reads(1) [of "int n" sc b "[]"] by simp
  then show ?thesis unfolding data_packet_encode r ack_acknowledges by simp
qed

text \<open>
  C20: What one answer makes the server's download handler do, as long as the last block was full:
  it sends the next 512 bytes of the file to whoever answered, whatever the answer was.  Only the
  number depends on the answer: it advances exactly if the answer is the acknowledgement.  So
  after a stray datagram, a duplicate acknowledgement or an acknowledgement that \<open>char\<close> garbles, a
  block is skipped and the next one goes out under the old number, and a datagram of another host
  redirects the file to that host.
\<close>

theorem any_answer_draws_next_block:
  assumes "reading c n (d_fp d) k" "fd \<in> set (fds k)" "d_bytes d = BLOCK_SIZE"
    and "rx k = Rx_data from p # rest"
  shows "\<exists>d' k'. rrq_answer sc fd d k = (Running d', k') \<and> d_addr d' = from \<and>
    d_block d' = (if acknowledges sc p (d_block d) then d_block d + 1 else d_block d) \<and>
    news k k' = [(fd, from, data_packet (d_block d') (file_block c n))] \<and> reading c (Suc n) (d_fp d') k'"
proof -
  from rrq_next_block [OF assms, of sc] obtain d' k' where e: "rrq_answer sc fd d k = (Running d', k')"
    "d_block d' = d_block d + (if acknowledges sc p (d_block d) then 1 else 0)" "d_fp d' = d_fp d"
    "d_addr d' = from" "reading c (Suc n) (d_fp d) k'" and
    s: "sent k' = sent k @ [(fd, from, data_packet (d_block d') (file_block c n))]" by auto
  show ?thesis
    by (intro exI [of _ d'] exI [of _ k'] conjI) (use e news_append [OF s] in simp_all)
qed

text \<open>The right acknowledgement of block 128, with a signed \<open>char\<close>: block 129 goes out as 128.\<close>

theorem any_answer_draws_next_block_witness:
  "\<exists>c d k k' d'. rx k = [Rx_data sockaddr_zero (encode (Ack 128))] \<and> d_block d = 128 \<and>
     rrq_answer True 0 d k = (Running d', k') \<and>
     news k k' = [(0, sockaddr_zero, data_packet 128 (file_block c 128))]"
proof -
  define c :: bytes where "c = replicate (512 * 129) 0"
  define k where "k = (demo_os [Rx_data sockaddr_zero (encode (Ack 128))])
    \<lparr>streams := [0 \<mapsto> \<lparr>st_path = cstr ''b'', st_fd = 3, st_pos = 512 * 128, st_err = False\<rparr>],
     fs := [cstr ''b'' \<mapsto> c]\<rparr>"
  define d where "d = \<lparr>d_addr = sockaddr_zero, d_fp = 0, d_packet = [], d_block = 128, d_bytes = BLOCK_SIZE,
    d_retries = 0\<rparr>"
  have k: "reading c 128 (d_fp d) k" "0 \<in> set (fds k)" "d_bytes d = BLOCK_SIZE"
    "rx k = Rx_data sockaddr_zero (encode (Ack 128)) # []"
    by (simp_all add: k_def d_def reading_def c_def block_bytes)
  have "\<not> acknowledges True (encode (Ack (of_nat 128))) (int 128)"
    unfolding ack_acknowledges by (simp add: recognised_def)
  then have n: "\<not> acknowledges True (encode (Ack 128)) (d_block d)" by (simp add: d_def)
  have b: "d_block d = 128" by (simp add: d_def)
  from any_answer_draws_next_block [OF k, of True] obtain d' k' where
    "rrq_answer True 0 d k = (Running d', k')" "d_block d' = d_block d"
    "news k k' = [(0, sockaddr_zero, data_packet (d_block d') (file_block c 128))]"
    unfolding if_not_P [OF n] by blast
  with k(4) b show ?thesis by metis
qed

section \<open>Termination\<close>

lemma sys_sendto_unread: "unread fp (snd (sys_sendto fd b a k)) = unread fp k"
  by (rule unread_same [OF sys_sendto_streams])

lemma sys_fopen_unread:
  assumes "sys_fopen name False k = (Some fp, k')"
  shows "\<exists>c. fs k name = Some c \<and> unread fp k' = length c"
  using assms
  by (auto simp: sys_fopen_def Let_def next_fault_def unread_def stream_content_def
      split: list.splits if_splits)

text \<open>The first block is out and the work left is that of the other ones.\<close>

lemma rrq_begin_work:
  assumes e: "rrq_begin fd a name k = (Running d, k')"
  shows "\<exists>c. fs k name = Some c \<and> Suc (rrq_work d k') \<le> 6 * block_count c \<and>
    length (sent k') \<le> Suc (length (sent k)) \<and> opens (d_fp d) k k'"
proof -
  obtain r k1 where o: "sys_fopen name False k = (r, k1)" by fastforce
  with e obtain fp where r: "r = Some fp" by (cases r) (auto simp: rrq_begin_def)
  let ?d = "\<lparr>d_addr = a, d_fp = fp, d_packet = [], d_block = 1, d_bytes = 0, d_retries = 0\<rparr>"
  have b: "rrq_block fd ?d k1 = (Running d, k')" using e o r by (simp add: rrq_begin_def)
  from sys_fopen_unread [OF o [unfolded r]] obtain c where c: "fs k name = Some c" "unread fp k1 = length c" by blast
  obtain data k2 where f: "sys_fread fp BLOCK_SIZE k1 = (data, k2)" by fastforce
  have d: "d_bytes d = length data" "d_retries d = 0" "d_fp d = fp" "unread fp k' = unread fp k2"
    using b f by (auto simp: rrq_block_def rrq_resend_def sys_sendto_unread)
  have u: "length c = length data + unread fp k2" using sys_fread_unread [OF f] c(2) by simp
  have "(512 + u) div 512 = Suc (u div 512)" for u :: nat by (simp add: div_add_self1)
  with d u have "Suc (rrq_work d k') \<le> 6 * block_count c"
    by (auto simp: rrq_work_def block_count_def block_bytes legacy_sizes)
  moreover have "opens fp k k1" using fopen_opens [OF o] r by simp
  moreover have "sent k1 = sent k" using sys_fopen_effect [OF o] by (simp add: script_same_def)
  ultimately show ?thesis using rrq_block_effect [OF b] opens_then_keeps c(1) d(3) by auto
qed

text \<open>
  C19: Under a receive timeout every download ends, whatever files, disk errors, network and peers
  do: after at most six datagrams for each block of the file (one try and five retries), with
  the file closed and no descriptor lost.
\<close>

theorem download_ends:
  assumes "balanced E k" "fd \<in> set (rcvtimeo k)"
  shows "\<exists>k'. handle_rrq sc fd peer name k = (Ended (), k') \<and>
    length (sent k') \<le> length (sent k) + 6 * (case fs k name of None \<Rightarrow> 1 | Some c \<Rightarrow> block_count c) \<and>
    fds k' = fds k \<and> open_streams k' = open_streams k"
proof -
  obtain r k1 where b: "rrq_begin fd peer name k = (r, k1)" by fastforce
  show ?thesis
  proof (cases r)
    case (Running d)
    from rrq_begin_work [OF b [unfolded Running]] obtain c where c: "fs k name = Some c"
      "Suc (rrq_work d k1) \<le> 6 * block_count c" "length (sent k1) \<le> Suc (length (sent k))" "opens (d_fp d) k k1" by blast
    obtain e k2 where l: "rrq_loop sc fd d k1 = (e, k2)" by fastforce
    have t: "fd \<in> set (rcvtimeo k1)" using assms(2) c(4) by (simp add: opens_def)
    have "e \<noteq> Undefined" using l by (induction rule: rrq.loop_induct) (auto dest: rrq_answer_effect)
    with rrq.loop_never_waits [OF l t] have e: "e = Ended ()" by (cases e) auto
    with rrq.loop_balanced [OF assms(1) c(4) l] rrq.loop_sends [OF l] b l c(1-3) Running show ?thesis
      by (simp add: handle_rrq_def)
  next
    case (Stopped e)
    with rrq_begin_effect [OF b] have e: "e = Ended ()" "keeps_open k k1" by auto
    have "length (sent k1) \<le> Suc (length (sent k))"
    proof -
      obtain q k0 where o: "sys_fopen name False k = (q, k0)" by fastforce
      with b Stopped have q: "q = None" by (auto simp: rrq_begin_def dest!: rrq_block_effect split: option.splits)
      with o b have "k1 = send_error fd peer 1 (cstr ''File not found'') k0" by (simp add: rrq_begin_def)
      moreover have "sent k0 = sent k" using sys_fopen_effect [OF o] by (simp add: script_same_def)
      ultimately show ?thesis using send_error_keeps(2) by metis
    qed
    moreover have "Suc n \<le> n + 6 * (case fs k name of None \<Rightarrow> 1 | Some c \<Rightarrow> block_count c)" for n
      by (simp add: block_count_def split: option.splits)
    ultimately have "length (sent k1) \<le> length (sent k) + 6 * (case fs k name of None \<Rightarrow> 1 | Some c \<Rightarrow> block_count c)"
      using order_trans by blast
    with b e Stopped show ?thesis by (simp add: handle_rrq_def keeps_open_def)
  qed
qed

text \<open>Here the client never answers, and the only block is sent six times.\<close>

theorem download_ends_witness:
  "\<exists>k'. handle_rrq True 0 sockaddr_zero (cstr ''a'') ((demo_os [])\<lparr>rcvtimeo := [0]\<rparr>) = (Ended (), k') \<and>
    length (sent k') \<le> 6 \<and> fds k' = [2, 1, 0]"
proof -
  let ?k = "(demo_os [])\<lparr>rcvtimeo := [0]\<rparr>"
  have b: "balanced {0, 1, 2} ?k" by (auto simp: balanced_def open_streams_def)
  have f: "0 \<in> set (rcvtimeo ?k)" by simp
  show ?thesis using download_ends [OF b f, of True sockaddr_zero "cstr ''a''"] demo_count(1) by auto
qed

section \<open>Threads\<close>

text \<open>
  C18: In every reachable state of the multi-threaded server, under every schedule, the threads that
  are inside a handler own one open stream each, no two of them the same, and there is no other
  stream; the open descriptors are those of the start, the socket and those of the streams.  So
  nothing is left open once the threads are gone.
\<close>

theorem threads_own_streams:
  assumes "mt_reachable sc E m" "\<not> mt_crashed m"
  shows "distinct (concat (map thread_streams (mt_threads m))) \<and>
    set (concat (map thread_streams (mt_threads m))) = dom (open_streams (mt_os m)) \<and>
    set (fds (mt_os m)) = insert (mt_sock m) (E \<union> ran (open_streams (mt_os m))) \<and>
    (mt_threads m = [] \<longrightarrow> streams (mt_os m) = Map.empty \<and> set (fds (mt_os m)) = insert (mt_sock m) E)"
proof -
  from mt_reachable_inv [OF assms] have i: "mt_inv E m" .
  have "mt_threads m = [] \<Longrightarrow> open_streams (mt_os m) = Map.empty" using i by (auto simp: mt_inv_def)
  then have "mt_threads m = [] \<Longrightarrow> streams (mt_os m) = Map.empty \<and> ran (open_streams (mt_os m)) = {}"
    by (auto simp: open_streams_def fun_eq_iff ran_def)
  with i show ?thesis by (auto simp: mt_inv_def balanced_def)
qed

text \<open>A server that has read a request for \<open>a\<close> and run the new thread up to its first receive.\<close>

definition demo_rrq :: bytes where
  "demo_rrq = request_bytes TFTP_OPCODE_RRQ (cstr ''a'') (cstr ''octet'')"

definition demo_mt0 :: mt_server where
  "demo_mt0 = \<lparr>mt_sock = 3, mt_threads = [], mt_crashed = False,
     mt_os = snd (server_start (demo_os [Rx_data sockaddr_zero demo_rrq]))\<rparr>"

definition demo_mt :: mt_server where
  "demo_mt = mt_thread True (replicate BUFFER_SIZE 0) 0 (mt_round True (replicate BUFFER_SIZE 0) demo_mt0)"

lemma demo_mt_facts:
  "fst (server_start (demo_os [Rx_data sockaddr_zero demo_rrq])) = Some 3"
  "length (mt_threads (mt_round True (replicate BUFFER_SIZE 0) demo_mt0)) = 1"
  "mt_crashed (mt_round True (replicate BUFFER_SIZE 0) demo_mt0) = False"
  "mt_crashed demo_mt = False"
  "map thread_streams (mt_threads demo_mt) = [[0]]"
  by code_simp+

lemma demo_mt_reachable: "mt_reachable True {0, 1, 2} demo_mt"
proof -
  let ?k = "demo_os [Rx_data sockaddr_zero demo_rrq]"
  have "server_start ?k = (Some 3, snd (server_start ?k))" using demo_mt_facts(1) by (simp add: prod_eq_iff)
  moreover have "set (fds ?k) = {0, 1, 2}" "streams ?k = Map.empty" by auto
  ultimately have 0: "mt_reachable True {0, 1, 2} demo_mt0" unfolding demo_mt0_def by (intro mt_reachable.start)
  have "mt_step True demo_mt0 (mt_round True (replicate BUFFER_SIZE 0) demo_mt0)"
    by (rule mt_step.main) (simp_all add: demo_mt0_def)
  with 0 have 1: "mt_reachable True {0, 1, 2} (mt_round True (replicate BUFFER_SIZE 0) demo_mt0)"
    by (rule mt_reachable.step)
  have "mt_step True (mt_round True (replicate BUFFER_SIZE 0) demo_mt0) demo_mt"
    unfolding demo_mt_def by (rule mt_step.thread) (use demo_mt_facts(2,3) in simp_all)
  with 1 show ?thesis by (rule mt_reachable.step)
qed

theorem threads_own_streams_witness:
  "map thread_streams (mt_threads demo_mt) = [[0]] \<and> dom (open_streams (mt_os demo_mt)) = {0}"
proof -
  have "\<not> mt_crashed demo_mt" using demo_mt_facts(4) by simp
  from threads_own_streams [OF demo_mt_reachable this] demo_mt_facts(5) show ?thesis by simp
qed

lemma rw_request_cases:
  "rw_request sc fd stack B p k \<in> {(Undefined, k), (Ended (), k),
     (Ended (), send_error fd p 4 (cstr ''Illegal TFTP Operation'') k),
     handle_rrq sc fd p (c_string (drop 2 B)) k, handle_wrq_once sc fd stack p (c_string (drop 2 B)) k}"
  by (simp add: rw_request_def Let_def)

text \<open>
  C24: One round of the single-threaded server, with a receive timeout: whatever arrives and
  whatever fails, the round ends, and the process has the descriptors, streams and timeouts of
  before, so that the next round finds the same machine.  The one exception is undefined
  behaviour.
\<close>

theorem sequential_round_restores:
  assumes "balanced E k" "fd \<in> set (rcvtimeo k)"
    and "rw_round sc fd stack buffer k = (e, k')"
  shows "e = Undefined \<or>
    e = Ended () \<and> fds k' = fds k \<and> open_streams k' = open_streams k \<and> rcvtimeo k' = rcvtimeo k"
proof -
  obtain a k1 where v: "recv fd k = (a, k1)" by fastforce
  note k1 = recv_keeps [OF v] recv_keeps_open [OF v]
  have b: "balanced E k1" "fd \<in> set (rcvtimeo k1)" using balanced_keeps [OF assms(1) k1(8)] k1(7) assms(2) by simp_all
  have nw: "a \<noteq> Waits" using v by (rule recv_cases) (use assms(2) in auto)
  have same: "open_streams k1 = open_streams k" using k1(8) by (simp add: keeps_open_def)
  have err: "keeps_open k1 (send_error fd p 4 m k1)" for p m by (rule send_error_keeps)
  show ?thesis
  proof (cases a)
    case (Got data p)
    let ?B = "memcpy_at 0 data buffer" and ?n = "c_string (drop 2 (memcpy_at 0 data buffer))"
    have "rw_request sc fd stack ?B p k1 = (e, k')" using assms(3) v Got by (simp add: rw_round_def)
    then consider "e = Undefined" | "(e, k') = (Ended (), k1)"
      | "(e, k') = (Ended (), send_error fd p 4 (cstr ''Illegal TFTP Operation'') k1)"
      | "handle_rrq sc fd p ?n k1 = (e, k')" | "handle_wrq_once sc fd stack p ?n k1 = (e, k')"
      using rw_request_cases [of sc fd stack ?B p k1] by auto
    then show ?thesis
    proof cases
      case 4
      obtain r k2 where r: "rrq_begin fd p ?n k1 = (r, k2)" by fastforce
      have "(case r of Running d \<Rightarrow> rrq_loop sc fd d k2 | Stopped e \<Rightarrow> (e, k2)) = (e, k')"
        using 4 r by (simp add: handle_rrq_def)
      from rrq.run_restores [OF b rrq_begin_effect [OF r] this] k1 same show ?thesis by simp
    next
      case 5
      obtain r k2 where r: "wrq_begin fd stack p ?n k1 = (r, k2)" by fastforce
      have "(case r of Running d \<Rightarrow> wrq_loop_once sc fd d k2 | Stopped e \<Rightarrow> (e, k2)) = (e, k')"
        using 5 r by (simp add: handle_wrq_once_def)
      from wrq_once.run_restores [OF b wrq_begin_effect [OF r] this] k1 same show ?thesis by simp
    qed (use k1 same err in \<open>auto simp: keeps_open_def\<close>)
  qed (use assms(3) v k1 same nw in \<open>auto simp: rw_round_def\<close>)
qed

text \<open>A round in which nothing arrives in time.\<close>

theorem sequential_round_restores_witness:
  "\<exists>k'. rw_round True 0 (replicate 516 0) (replicate 516 0) ((demo_os [])\<lparr>rcvtimeo := [0]\<rparr>) = (Ended (), k') \<and>
    fds k' = [2, 1, 0]"
proof -
  let ?k = "(demo_os [])\<lparr>rcvtimeo := [0]\<rparr>"
  have b: "balanced {0, 1, 2} ?k" "0 \<in> set (rcvtimeo ?k)" by (auto simp: balanced_def open_streams_def)
  have "recv 0 ?k = (Timeout, ?k)" using recv_none [of 0 ?k] by simp
  then have e: "rw_round True 0 (replicate 516 0) (replicate 516 0) ?k = (Ended (), ?k)" by (simp add: rw_round_def)
  from sequential_round_restores [OF b e] e show ?thesis by simp
qed

text \<open>
  An answer that the main loop receives before the thread it is meant for is lost: anything but a
  request is dropped there, and the thread runs into its timeout.
\<close>

lemma main_loop_drops_answers:
  assumes "mt_sock m \<in> set (fds (mt_os m))" "rx (mt_os m) = Rx_data peer (encode (Ack n)) # rest"
  shows "mt_round sc buffer m = m\<lparr>mt_os := (mt_os m)\<lparr>rx := rest\<rparr>\<rparr>"
proof -
  have p: "encode (Ack n) = 0 # 4 # u16_be n" by (simp add: u16_be_def)
  have "length (encode (Ack n)) \<le> BUFFER_SIZE" by (simp add: legacy_sizes)
  from recv_next_short [OF assms this] show ?thesis
    by (simp add: mt_round_def mt_request_def memcpy_at_0 p char_value_of_int [of 4, simplified] RRQ_def WRQ_def
        del: encode.simps)
qed

section \<open>Inputs that break the programs\<close>

text \<open>
  C21: Two datagrams crash a server that is receiving an upload.  The first only has to carry the
  expected number behind another opcode (an ACK, for one); it is ignored but stays in the buffer.
  The second is two bytes long, the opcode of DATA: the handler reads the number that the first
  one left, takes the packet for the expected block, and hands \<open>fwrite\<close> the length 2 - 4.  Both
  may come from any address, as long as the expected number can be read back, in both servers.
\<close>

theorem two_datagrams_crash_upload:
  assumes "fd \<in> set (fds k)" "length (w_buffer w) = BUFFER_SIZE"
    and "w_expected w = int n" "recognised sc (int n)"
    and "rx k = Rx_data a (encode (Ack (of_nat n))) # Rx_data b [0, 3] # rest"
  shows "fst (wrq_loop sc fd w k) = Undefined \<and> fst (wrq_loop_once sc fd w k) = Undefined"
proof -
  let ?l = "low_bytes (int n)" and ?r = "drop 4 (w_buffer w)" and ?k = "k\<lparr>rx := Rx_data b [0, 3] # rest\<rparr>"
  have p: "encode (Ack (of_nat n)) = [0, 4] @ ?l" by (simp add: low_bytes_of_nat) (simp add: u16_be_def)
  have x: "rx k = Rx_data a ([0, 4] @ ?l) # Rx_data b [0, 3] # rest" unfolding assms(5) p ..
  have v1: "recv fd k = (Got ([0, 4] @ ?l) a, ?k)"
    by (rule recv_next_short [OF assms(1) x]) (simp add: legacy_sizes)
  have "rx ?k = Rx_data b [0, 3] # rest" by simp
  then have v2: "recv fd ?k = (Got [0, 3] b, k\<lparr>rx := rest\<rparr>)"
    using recv_next_short [of fd ?k b "[0, 3]" rest] assms(1) by (simp add: legacy_sizes)
  have m1: "memcpy_at 0 ([0, 4] @ ?l) (w_buffer w) = [0, 4] @ ?l @ ?r" by (simp add: memcpy_at_0)
  have m2: "memcpy_at 0 [0, 3] ([0, 4] @ ?l @ ?r) = [0, 3] @ ?l @ ?r" by (simp add: memcpy_at_0)
  have o1: "int_be sc ([0, 4] @ ?l @ ?r) 0 \<noteq> DATA"
    by (simp add: int_be_def char_value_of_int [of 0, simplified] char_value_of_int [of 4, simplified] DATA_def)
  have o2: "int_be sc ([0, 3] @ ?l @ ?r) 0 = DATA"
    by (simp add: int_be_def char_value_of_int [of 0, simplified] char_value_of_int [of 3, simplified] DATA_def)
  have b2: "int_be sc ([0, 3] @ ?l @ ?r) 2 = w_expected w"
    using int_be_low_bytes [of "int n" sc 0 3 ?r] assms(3,4) by simp
  have e: "wrq_packet sc fd a 4 w' k' = (Running w', k')" if "w_buffer w' = [0, 4] @ ?l @ ?r" for w' k'
    using o1 that by (simp add: wrq_packet_def Let_def)
  have c: "wrq_packet sc fd b (Suc (Suc 0)) w' k' = (Stopped Undefined, k')"
    if "w_buffer w' = [0, 3] @ ?l @ ?r" "w_expected w' = w_expected w" for w' k'
    using o2 b2 that by (simp add: wrq_packet_def Let_def)
  let ?w1 = "w\<lparr>w_buffer := [0, 4] @ ?l @ ?r, w_retries := 0\<rparr>"
  have a1: "wrq_answer sc fd w k = (Running ?w1, ?k)"
    unfolding wrq_answer_def v1 prod.case received.case m1 by (simp add: e)
  have a2: "wrq_answer sc fd ?w1 ?k = (Stopped Undefined, k\<lparr>rx := rest\<rparr>)"
    unfolding wrq_answer_def v2 using m2 by (simp add: c)
  let ?w2 = "w\<lparr>w_addr := a, w_buffer := [0, 4] @ ?l @ ?r\<rparr>"
  have b1: "wrq_answer_once sc fd w k = (Running ?w2, ?k)"
    unfolding wrq_answer_once_def v1 prod.case received.case m1 by (simp add: e)
  have b2: "wrq_answer_once sc fd ?w2 ?k = (Stopped Undefined, k\<lparr>rx := rest\<rparr>)"
    unfolding wrq_answer_once_def v2 using m2 by (simp add: c)
  have "wrq_loop sc fd w k = (Undefined, k\<lparr>rx := rest\<rparr>)"
    unfolding wrq_loop.simps [of sc fd w k] a1 prod.case progress.case
    unfolding wrq_loop.simps [of sc fd ?w1 ?k] a2 prod.case progress.case ..
  moreover have "wrq_loop_once sc fd w k = (Undefined, k\<lparr>rx := rest\<rparr>)"
    unfolding wrq_loop_once.simps [of sc fd w k] b1 prod.case progress.case
    unfolding wrq_loop_once.simps [of sc fd ?w2 ?k] b2 prod.case progress.case ..
  ultimately show ?thesis by simp
qed

theorem two_datagrams_crash_upload_witness:
  "fst (wrq_loop True 0 \<lparr>w_addr = sockaddr_zero, w_fp = 0, w_buffer = replicate 516 0, w_expected = 1, w_retries = 0\<rparr>
     (demo_os [Rx_data sockaddr_zero (encode (Ack 1)), Rx_data sockaddr_zero [0, 3]])) = Undefined"
  using two_datagrams_crash_upload [of 0 "demo_os [Rx_data sockaddr_zero (encode (Ack 1)), Rx_data sockaddr_zero [0, 3]]"
      "\<lparr>w_addr = sockaddr_zero, w_fp = 0, w_buffer = replicate 516 0, w_expected = 1, w_retries = 0\<rparr>" 1 True
      sockaddr_zero sockaddr_zero "[]"]
  by (simp add: BUFFER_SIZE_def recognised_def del: encode.simps)

lemma socket_ok:
  assumes "faults k = []"
  shows "\<exists>fd k'. sys_socket k = (fd, k') \<and> \<not> fd < 0 \<and> fd \<in> set (fds k') \<and> faults k' = [] \<and>
    fs k' = fs k \<and> rx k' = rx k \<and> sent k' = sent k"
  using assms by (simp add: sys_socket_def Let_def)

lemma close_sent: "sent (snd (sys_close fd k)) = sent k"
  by (auto simp: sys_close_def next_fault_def split: list.splits)

lemma wrq_client_transfer_full:
  assumes r: "reading c 0 fp k" and fd: "fd \<in> set (fds k)" and m: "length c = TFTP_BLOCK_SIZE * m"
    and x: "rx k = acks peer [0..<Suc m]" and small: "\<forall>i\<le>m. recognised sc (int i)"
  shows "\<exists>k'. wrq_client_transfer sc fd fp k = (Ended 0, k') \<and> sent k' = sent k @ blocks_from c fd peer [0..<m]"
proof -
  let ?d = "\<lparr>d_addr = peer, d_fp = fp, d_packet = [], d_block = 1, d_bytes = 0, d_retries = 0\<rparr>"
  let ?k = "k\<lparr>rx := acks peer [1..<Suc m]\<rparr>"
  have "[0..<Suc m] = 0 # [1..<Suc m]" by (simp add: upt_conv_Cons)
  then have x0: "rx k = Rx_data peer (encode (Ack 0)) # acks peer [1..<Suc m]"
    using x by (simp add: acks_def)
  have p: "encode (Ack 0) = [0, 4, 0, 0]" by (simp add: u16_be_def)
  have "recv fd k = (Got [0, 4, 0, 0] peer, ?k)"
    by (rule recv_next_short [OF fd]) (simp_all only: x0 p, simp add: legacy_sizes)
  then have t: "wrq_client_transfer sc fd fp k = client_finish fd
      (case wrq_client_block fd ?d ?k of
         (Running d, k) \<Rightarrow> wrq_client_loop sc fd d k | (Stopped e, k) \<Rightarrow> (e, k))"
    by (simp add: wrq_client_transfer_def char_value_eq_small [of 4, simplified] char_value_eq_small [of 0, simplified] ACK_def)
  have r': "reading c 0 (d_fp ?d) ?k" "fd \<in> set (fds ?k)" "d_block ?d = int (Suc 0)" using r fd by simp_all
  show ?thesis
  proof (cases m)
    case 0
    then have l: "length c = TFTP_BLOCK_SIZE * 0" using m by simp
    from wrq_client_block_end [OF r'(1) l, of fd] obtain k' where
      "wrq_client_block fd ?d ?k = (Stopped (Ended ()), k')" "sent k' = sent k" by auto
    then show ?thesis unfolding t by (simp add: client_finish_def close_sent blocks_from_def 0)
  next
    case (Suc j)
    from wrq_client_block_reads [OF r' m] Suc obtain d' k' where
      s: "wrq_client_block fd ?d ?k = (Running d', k')" "d_block d' = int 1" "d_fp d' = fp"
        "d_bytes d' = BLOCK_SIZE" "reading c 1 fp k'" "fds k' = fds k" "rx k' = acks peer [1..<Suc m]"
        "sent k' = sent k @ blocks_from c fd peer [0]" by auto
    have pre: "reading c 1 (d_fp d') k'" "fd \<in> set (fds k')" "length c = TFTP_BLOCK_SIZE * (1 + j)"
      "rx k' = acks peer [1..<Suc (1 + j)] @ []" "\<forall>i\<le>1 + j. recognised sc (int i)"
      using s(3,5,6,7) fd m small Suc by simp_all
    from wrq_client_loop_full [OF pre(1,2) s(2,4) pre(3-5)] obtain k'' where
      "wrq_client_loop sc fd d' k' = (Ended (), k'')" "sent k'' = sent k' @ blocks_from c fd peer [1..<1 + j]" by blast
    moreover have "[0..<m] = [0] @ [1..<1 + j]" by (simp add: Suc upt_conv_Cons)
    ultimately show ?thesis unfolding t using s(1,8)
      by (simp add: client_finish_def close_sent blocks_from_def)
  qed
qed

text \<open>The request in the server's buffer.\<close>

lemma request_in_buffer:
  fixes name :: bytes
  assumes n: "0 \<notin> set name" "length name < 508" and b: "length buffer = BUFFER_SIZE"
  defines "B \<equiv> memcpy_at 0 (request_bytes TFTP_OPCODE_WRQ name (cstr ''octet'')) buffer"
  shows "char_value sc (B ! 0) = 0" "char_value sc (B ! 1) = WRQ" "c_string (drop 2 B) = name"
    "0 \<in> set (drop 2 B)" "0 \<in> set (drop (3 + length name) B)" "length B = BUFFER_SIZE"
proof -
  obtain r where B: "B = [0, 2] @ name @ 0 # cstr ''octet'' @ 0 # r"
    by (simp add: B_def memcpy_at_0 request_bytes_def u16_be_def)
  show "char_value sc (B ! 0) = 0" "char_value sc (B ! 1) = WRQ"
    by (simp_all add: B char_value_of_int [of 0, simplified] char_value_of_int [of 2, simplified] WRQ_def)
  show "c_string (drop 2 B) = name" "0 \<in> set (drop 2 B)" using n by (simp_all add: B)
  show "0 \<in> set (drop (3 + length name) B)" by (simp add: B numeral_3_eq_3)
  show "length B = BUFFER_SIZE" using n b by (simp add: B_def request_bytes_def u16_be_def legacy_sizes)
qed

lemma full_blocks_join:
  assumes "length c = TFTP_BLOCK_SIZE * m"
  shows "concat (map (file_block c) [0..<m]) = c"
proof -
  have "block_count c = Suc m" using assms by (simp add: block_count_def block_bytes)
  with blocks_join [of c] no_more_blocks [OF assms] show ?thesis by simp
qed

lemma wrq_server_waits:
  assumes m: "length c = TFTP_BLOCK_SIZE * m" and small: "\<forall>i\<le>m. recognised sc (int i)"
    and n: "0 \<notin> set name" "length name < 508"
    and k: "faults k = []" "fd \<in> set (fds k)" "fd \<notin> set (rcvtimeo k)" "length buffer = BUFFER_SIZE"
    and x: "rx k = Rx_data client (request_bytes TFTP_OPCODE_WRQ name (cstr ''octet'')) # datas client c [0..<m]"
  shows "\<exists>k'. wrq_server_round sc fd buffer k = (Blocked, k') \<and>
    sent k' = sent k @ acks_to fd client [0..<Suc m] \<and> fs k' name = Some c \<and>
    open_streams k' (next_stream k) \<noteq> None"
proof -
  let ?req = "request_bytes TFTP_OPCODE_WRQ name (cstr ''octet'')"
  define B where "B = memcpy_at 0 ?req buffer"
  note b = request_in_buffer [OF n k(4), folded B_def]
  let ?k1 = "k\<lparr>rx := datas client c [0..<m]\<rparr>"
  have v: "recv fd k = (Got ?req client, ?k1)"
    by (rule recv_next_short [OF k(2) x]) (use n(2) in \<open>simp add: request_bytes_def u16_be_def legacy_sizes\<close>)
  have f1: "faults ?k1 = []" using k(1) by simp
  from fopen_writing [OF f1, of name] k(2) obtain k2 where
    k2: "sys_fopen name True ?k1 = (Some (next_stream k), k2)" "writing name [] (next_stream k) k2"
      "rx k2 = datas client c [0..<m]" "sent k2 = sent k" "rcvtimeo k2 = rcvtimeo k" "fd \<in> set (fds k2)" by auto
  let ?w = "\<lparr>w_addr = client, w_fp = next_stream k, w_buffer = B, w_expected = 1, w_retries = 0\<rparr>"
  have a: "send_ack fd client 0 k2 = more_sent (acks_to fd client [0]) k2"
    using send_ack_ok [of k2 fd client 0] k2(2,6) by (simp add: writing_def acks_to_def)
  have e: "wrq_server_round sc fd buffer k = wrq_loop_once sc fd ?w (more_sent (acks_to fd client [0]) k2)"
    using v b k2(1) a unfolding wrq_server_round_def Let_def
    by (simp add: B_def [symmetric])
  have pre: "writing name (concat (map (file_block c) [0..<0])) (w_fp ?w) (more_sent (acks_to fd client [0]) k2)"
    "fd \<in> set (fds (more_sent (acks_to fd client [0]) k2))" "length (w_buffer ?w) = BUFFER_SIZE"
    "w_expected ?w = int (Suc 0)" "rx (more_sent (acks_to fd client [0]) k2) = datas client c [0..<0 + m] @ []"
    "\<forall>i\<le>0 + m. recognised sc (int i)" "\<forall>i<0 + m. length (file_block c i) = BLOCK_SIZE"
    using k2 b(6) small full_blocks [OF m] by simp_all
  from wrq_once_file.receives_full [OF pre] obtain w' k' where
    l: "wrq_loop_once sc fd ?w (more_sent (acks_to fd client [0]) k2) = wrq_loop_once sc fd w' k'"
      "writing name (concat (map (file_block c) [0..<m])) (next_stream k) k'"
      "fds k' = fds k2" "rcvtimeo k' = rcvtimeo k" "rx k' = []"
      "sent k' = (sent k @ acks_to fd client [0]) @ acks_to fd client [Suc 0..<Suc m]"
    using k2(4,5) by auto
  have "recv fd k' = (Waits, k')" using recv_none [of fd k'] l(3-5) k2(6) k(3) by simp
  then have "wrq_loop_once sc fd w' k' = (Blocked, k')"
    by (simp add: wrq_loop_once.simps [of sc fd w' k'] wrq_answer_once_def)
  moreover have "fs k' name = Some c" "open_streams k' (next_stream k) \<noteq> None"
    using l(2) unfolding full_blocks_join [OF m] by (auto simp: writing_def open_streams_def)
  moreover have "[0..<Suc m] = [0] @ [Suc 0..<Suc m]" by (simp add: upt_conv_Cons)
  ultimately show ?thesis using e l(1,6) by (simp add: acks_to_def)
qed

text \<open>
  C22: A file whose length is a multiple of 512 is never completed by the upload client of
  \<open>TFTP_Client_WRQ.c\<close>: it sends its full blocks but no last short one, reports success and exits
  with 0, while the server, to which all bytes came, waits for ever and keeps the file open.  The
  empty file is the case of no block at all.
\<close>

theorem full_block_upload_never_ends:
  assumes "length c = 512 * m" "m < number_limit sc" "m < number_limit sc'" "0 \<notin> set name" "length name < 508"
    and "faults kc = []" "fs kc name = Some c" "rx kc = acks server [0..<Suc m]"
    and "faults ks = []" "sfd \<in> set (fds ks)" "sfd \<notin> set (rcvtimeo ks)" "length buffer = BUFFER_SIZE"
      "rx ks = Rx_data client (request_bytes TFTP_OPCODE_WRQ name (cstr ''octet'')) # datas client c [0..<m]"
  shows "\<exists>kc' ks'. wrq_client_main sc name kc = (Ended 0, kc') \<and> arrives client (news kc kc') = rx ks \<and>
    wrq_server_round sc' sfd buffer ks = (Blocked, ks') \<and> arrives server (news ks ks') = rx kc \<and>
    fs ks' name = Some c \<and> open_streams ks' (next_stream ks) \<noteq> None"
proof -
  have m: "length c = TFTP_BLOCK_SIZE * m" using assms(1) by (simp add: block_bytes)
  let ?req = "request_bytes TFTP_OPCODE_WRQ name (cstr ''octet'')"
  obtain fd k1 where k1: "sys_socket kc = (fd, k1)" "\<not> fd < 0" "fd \<in> set (fds k1)" "faults k1 = []"
    "fs k1 = fs kc" "rx k1 = rx kc" "sent k1 = sent kc" using socket_ok [OF assms(6)] by blast
  from fopen_reading [OF k1(4)] assms(7) k1(3,5) obtain k2 where
    k2: "sys_fopen name False k1 = (Some (next_stream k1), k2)" "reading c 0 (next_stream k1) k2"
      "rx k2 = rx k1" "sent k2 = sent k1" "fd \<in> set (fds k2)" by (metis subsetD)
  let ?k3 = "more_sent [(fd, SERVER_ADDRESS, ?req)] k2"
  have s3: "send_wrq fd SERVER_ADDRESS name k2 = (Ended (), ?k3)"
    by (rule send_request_ok(3) [OF _ k2(5) assms(5)]) (use k2(2) in \<open>simp add: reading_def\<close>)
  have "reading c 0 (next_stream k1) ?k3" "fd \<in> set (fds ?k3)" "rx ?k3 = acks server [0..<Suc m]"
    using k2 k1(6) assms(8) by simp_all
  from wrq_client_transfer_full [OF this(1,2) m this(3) below_limit [OF assms(2)]] obtain kc' where
    c: "wrq_client_transfer sc fd (next_stream k1) ?k3 = (Ended 0, kc')"
      "sent kc' = sent kc @ (fd, SERVER_ADDRESS, ?req) # blocks_from c fd server [0..<m]"
    using k1(7) k2(4) by auto
  have "wrq_client_main sc name kc = (Ended 0, kc')"
    using k1(1,2) k2(1) s3 c(1) assms(5) by (simp add: wrq_client_main_def)
  moreover have "arrives client (news kc kc') = rx ks"
    unfolding news_append [OF c(2)] assms(13) arrives_blocks [of client c fd server, symmetric]
    by (simp add: arrives_def)
  moreover have "\<exists>ks'. wrq_server_round sc' sfd buffer ks = (Blocked, ks') \<and>
      arrives server (news ks ks') = acks server [0..<Suc m] \<and> fs ks' name = Some c \<and>
      open_streams ks' (next_stream ks) \<noteq> None"
    using wrq_server_waits [OF m below_limit [OF assms(3)] assms(4,5,9-13)] news_append arrives_acks by metis
  ultimately show ?thesis using assms(8) by metis
qed

theorem full_block_upload_never_ends_witness:
  "\<exists>c kc' ks'. length c = 512 \<and>
     wrq_client_main True (cstr ''b'') ((demo_os (acks sockaddr_zero [0..<2]))\<lparr>fs := [cstr ''b'' \<mapsto> c]\<rparr>) = (Ended 0, kc') \<and>
     wrq_server_round True 0 (replicate 516 0)
       (demo_os (Rx_data sockaddr_zero (request_bytes TFTP_OPCODE_WRQ (cstr ''b'') (cstr ''octet'')) #
          datas sockaddr_zero c [0..<1])) = (Blocked, ks') \<and>
     fs ks' (cstr ''b'') = Some c"
proof -
  define c :: bytes where "c = replicate 512 7"
  let ?kc = "(demo_os (acks sockaddr_zero [0..<2]))\<lparr>fs := [cstr ''b'' \<mapsto> c]\<rparr>"
  let ?ks = "demo_os (Rx_data sockaddr_zero (request_bytes TFTP_OPCODE_WRQ (cstr ''b'') (cstr ''octet'')) #
          datas sockaddr_zero c [0..<1])"
  have h: "length c = 512 * 1" "1 < number_limit True" "0 \<notin> set (cstr ''b'')" "length (cstr ''b'') < 508"
    by (simp_all add: c_def number_limit_def cstr_def)
  have kc: "faults ?kc = []" "fs ?kc (cstr ''b'') = Some c" "rx ?kc = acks sockaddr_zero [0..<Suc 1]"
    by (simp_all add: numeral_2_eq_2)
  have ks: "faults ?ks = []" "0 \<in> set (fds ?ks)" "0 \<notin> set (rcvtimeo ?ks)" "length (replicate 516 0 :: bytes) = BUFFER_SIZE"
    "rx ?ks = Rx_data sockaddr_zero (request_bytes TFTP_OPCODE_WRQ (cstr ''b'') (cstr ''octet'')) #
          datas sockaddr_zero c [0..<1]"
    by (simp_all add: BUFFER_SIZE_def)
  from full_block_upload_never_ends [OF h(1,2,2,3,4) kc ks] h(1) show ?thesis by auto
qed

end
