(* ===== verification/Legacy_Echo.thy ===== *)
theory Legacy_Echo
  imports Legacy_Servers
begin

text \<open>
  The UDP exercises \<open>UDP_server_code.c\<close> and \<open>UDP_Client_code.c\<close>: a server that echoes every
  datagram and a client that sends one line and prints the answer.  Both end the received bytes
  with a NUL at \<open>buffer[n]\<close>.
\<close>

definition ECHO_PORT :: u16 where "ECHO_PORT = 8080"
definition ECHO_BUFFER_SIZE :: nat where "ECHO_BUFFER_SIZE = 1024"

definition echo_server_start :: "os \<Rightarrow> int option \<times> os" where
  "echo_server_start k =
     (case sys_socket k of (sockfd, k) \<Rightarrow>
        if sockfd < 0 then (None, k)
        else
          (case sys_bind sockfd \<lparr>sin_family = AF_INET, sin_port = ECHO_PORT, s_addr = INADDR_ANY\<rparr> k of
             (r, k) \<Rightarrow> if r < 0 then (None, snd (sys_close sockfd k)) else (Some sockfd, k)))"

definition echo_server_round :: "int \<Rightarrow> os \<Rightarrow> unit ending \<times> os" where
  "echo_server_round sockfd k =
     (case sys_recvfrom_wait sockfd ECHO_BUFFER_SIZE k of
        (None, k) \<Rightarrow> (Blocked, k)
      | (Some (IO_ok n, data, cliaddr), k) \<Rightarrow>
          if n < ECHO_BUFFER_SIZE then (Ended (), snd (sys_sendto sockfd data cliaddr k))
          else (Undefined, k)
      | (Some _, k) \<Rightarrow> (Ended (), k))"

text \<open>
  The client: \<open>line\<close> is what \<open>fgets\<close> stores.  A failed \<open>recvfrom\<close> gives \<open>n = -1\<close>, which is not
  checked.
\<close>

definition echo_client_main :: "bytes \<Rightarrow> os \<Rightarrow> int ending \<times> os" where
  "echo_client_main line k =
     (case sys_socket k of (sockfd, k) \<Rightarrow>
        if sockfd < 0 then (Ended 1, k)
        else
          let servaddr = \<lparr>sin_family = AF_INET, sin_port = ECHO_PORT, s_addr = 0x7F000001\<rparr>;
              k = snd (sys_sendto sockfd (c_string line) servaddr k) in
          (case sys_recvfrom_wait sockfd ECHO_BUFFER_SIZE k of
             (None, k) \<Rightarrow> (Blocked, k)
           | (Some (IO_ok n, data, from), k) \<Rightarrow>
               if n < ECHO_BUFFER_SIZE then (Ended 0, snd (sys_close sockfd k)) else (Undefined, k)
           | (Some _, k) \<Rightarrow> (Undefined, k)))"

text \<open>
  A datagram of up to 1023 bytes comes back unchanged to its sender; one of 1024 bytes or more
  makes the server write behind its buffer.
\<close>

lemma echo_round:
  assumes "fd \<in> set (fds k)" "faults k = []" "rx k = Rx_data from d # rest"
  shows "echo_server_round fd k =
    (if length d < 1024 then (Ended (), k\<lparr>rx := rest, sent := sent k @ [(fd, from, d)]\<rparr>)
     else (Undefined, k\<lparr>rx := rest\<rparr>))"
  using assms
  by (simp add: echo_server_round_def sys_recvfrom_wait_def sys_recvfrom_def ECHO_BUFFER_SIZE_def sys_sendto_def)

text \<open>A receive that fails makes the client write before its buffer.\<close>

lemma echo_client_failed_receive:
  assumes "faults k = []" "rx k = Rx_fail # rest"
  shows "fst (echo_client_main line k) = Undefined"
  using assms
  by (simp add: echo_client_main_def sys_socket_def Let_def sys_recvfrom_wait_def sys_recvfrom_def sys_sendto_def)

end
