(* ===== verification/Spec2Isabelle.thy ===== *)
theory Spec2Isabelle
  imports App_Findings Root_Runs Tftp_Timer Tftp_Client Legacy_Runs Legacy_Echo
begin

text \<open>
  Verification library of the TFTP programs of this repository: the modular, event driven
  server under \<open>src/src/tftp\<close> and the stand-alone servers and clients under \<open>src/legacy\<close> from
  which it grew.

  \<^bold>\<open>The modular server.\<close>  \<open>tftp_app\<close> owns a \<open>reactor\<close> (the table of watched descriptors and the
  \<open>poll\<close> loop) and a \<open>tftp_server\<close> (the listening socket).  A round of the reactor polls the
  registered descriptors and calls the handlers of the ready ones.  The server's handler receives
  a request, parses it (\<open>tftp_packet\<close>), takes a \<open>tftp_transfer\<close> from its pool and starts it; the
  transfer takes a socket from the pool of \<open>udp_transport\<close> and a file from that of \<open>tftp_file\<close>,
  registers its own handler with the reactor and sends the first block.  From then on its handler
  reacts to acknowledgements until the file is sent, an error occurs, or the peer aborts, and
  returns everything.  \<open>tftp_error\<close> holds the status codes of all modules; \<open>tftp_timer\<close> and
  \<open>tftp_client\<close> are complete modules that no other one calls.

  \<^bold>\<open>How the code is translated.\<close>
  \<^item> A static pool is a list, a pointer to its element an index (\<open>ptr = nat option\<close>), NULL is
    \<open>None\<close>; a struct is a record with the field names of the code behind a short prefix (\<open>t_\<close> for
    a transfer, \<open>u_\<close> for a transport, \<open>f_\<close> for a file, \<open>rc_\<close> for the reactor, \<open>s_\<close> for the server,
    \<open>a_\<close> for the application); an enum is a datatype with a function to its numbers; integers of
    fixed width are words.  Counts and sizes (\<open>size_t\<close>) are \<open>nat\<close>: they are bounded by the arrays.
  \<^item> Every function takes the state of the modules it can reach and returns its result with the new
    state: \<open>udp_os\<close>, \<open>file_os\<close> and \<open>timer_os\<close> for the leaf modules over \<open>os\<close>; \<open>tsys\<close> for a transfer
    with all that it uses; \<open>srv\<close> for the server on top of it; \<open>app\<close> for the program.  \<open>sys_call\<close>,
    \<open>udp_call\<close>, \<open>file_call\<close> and \<open>reactor_call\<close> lift a call to the larger state.  An out parameter is an
    option that goes in and comes out.
  \<^item> Every guard and every early return of the code is a branch of the definition, in the order of
    the code; nothing is assumed about the arguments.

  \<^bold>\<open>The environment\<close> (\<open>Posix\<close>).  The state \<open>os\<close> holds files, streams, descriptors, the datagrams
  sent and the clock.  What the environment decides is scripted in it: which calls fail
  (\<open>faults\<close>), what \<open>recvfrom\<close> returns (\<open>rx\<close>), what \<open>poll\<close> reports (\<open>polls\<close>).  A theorem about every
  \<open>os\<close> covers every behaviour of network, disk and kernel; a theorem about a machine without
  faults says \<open>faults k = []\<close>.

  \<^bold>\<open>The theories, bottom up.\<close>
  \<^item> \<open>Tftp_Prelude\<close>: machine types, byte strings, arrays, the lemmas on indices, lists and words
    that all components share, and the collections \<open>tftp_defs\<close> and \<open>frame_simps\<close>.
  \<^item> \<open>Object_Pool\<close>: the locale \<open>object_pool\<close>, the contract of the static pools (acquire takes the
    lowest free slot, release frees it, capacity).  It is interpreted for transports, files,
    timers, transfers and the client.
  \<^item> \<open>Tftp_Error\<close>, \<open>Tftp_Packet\<close>: \<open>error/\<close> and \<open>packet/\<close>.  The parsers are compared with an abstract
    packet format (\<open>tftp_message\<close>, \<open>encode\<close>) and a grammar of requests (\<open>valid_request\<close>,
    \<open>request_bytes\<close>), in both directions, with their bounds and errors.
  \<^item> \<open>Udp_Transport\<close>, \<open>Tftp_File\<close>, \<open>Tftp_Timer\<close>: \<open>transport/\<close>, \<open>file/\<close>, \<open>timer/\<close>.  Each has a step
    relation over its own calls (\<open>udp_step\<close>, \<open>file_step\<close>, \<open>timer_step\<close>) and an invariant of the
    reachable states (who owns which descriptor or stream; 32 and 64 bit time is kept at its width).
  \<^item> \<open>Reactor\<close>: \<open>reactor/\<close>.  The registration table refines a list; \<open>reactor_run_once\<close> takes the
    handlers as a parameter and runs on any host state; the locale \<open>reactor_host\<close> states what the
    host must keep, and its lemmas carry that through a round and through the main loop.  The main
    loop is a \<open>partial_function\<close>: \<open>None\<close> is a loop that does not return.
  \<^item> \<open>Tftp_Transfer\<close>, \<open>Tftp_Server\<close>, \<open>Tftp_App\<close>, \<open>Tftp_Client\<close>: \<open>transfer/\<close>, \<open>server/\<close>, \<open>app/\<close>,
    \<open>client/\<close>.  \<open>call_handler\<close> in \<open>Tftp_App\<close> is where the reactor's callback becomes the handler
    of a transfer or of the server.
  \<^item> \<open>Tftp_Resources\<close>, \<open>Transfer_Safety\<close>, \<open>Server_Safety\<close>, \<open>App_Safety\<close>: the resource invariant
    (\<open>tsys_inv\<close>, \<open>srv_inv\<close>, \<open>app_inv\<close>): every descriptor, transport, file object, stream and
    registration has one owner.  Each operation has a lemma that it keeps the invariant and
    changes only its own transfer (\<open>own_step\<close>).  \<open>App_Safety\<close> interprets \<open>reactor_host\<close> on the real
    handlers (\<open>loop\<close>) and defines the steps of the program (\<open>app_step\<close>: every call of the
    application module, unguarded as in the code, every round of the reactor, every move of the
    environment).  The invariant belongs to the orderly runs (\<open>orderly_reachable\<close>): those in which
    \<open>deinit\<close> and \<open>release\<close> happen only while no transfer is in use.  That is a condition on the
    client which the code does not check; \<open>shutdown_forgets_transfers\<close> in \<open>App_Findings\<close> shows what
    a shutdown in the middle of a transfer leaves behind.  Every property about a reachable state
    of the modular server is one about orderly runs.
  \<^item> \<open>App_Sizes\<close>: the names' arrays keep their sizes, with a second interpretation (\<open>sized\<close>).
  \<^item> \<open>Stream_Paths\<close>, \<open>Root_Runs\<close>: which paths are opened, by a transfer and in a whole run, with a
    third interpretation (\<open>root\<close>): nothing outside \<open>tftp_root\<close>.
  \<^item> \<open>Tftp_Blocks\<close>, \<open>Transfer_Protocol\<close>, \<open>Server_Protocol\<close>: the abstract sender that hands out a file
    in blocks, the refinement by the transfer's handler (\<open>serving\<close> is the abstraction relation), and
    the way from a request to the first block.
  \<^item> \<open>App_Runs\<close>, \<open>Protocol_Runs\<close>, \<open>App_Findings\<close>: the properties of the whole program.
  \<^item> \<open>Legacy_Common\<close>, \<open>Legacy_Loop\<close>, \<open>Legacy_Handlers\<close>, \<open>Legacy_Servers\<close>, \<open>Legacy_Clients\<close>,
    \<open>Legacy_Protocol\<close>, \<open>Legacy_Runs\<close>, \<open>Legacy_Echo\<close>: the programs under \<open>src/legacy\<close>, below.

  \<^bold>\<open>The older programs.\<close>  A request handler is a state machine from one \<open>recvfrom\<close> to the next
  (\<open>rrq_answer\<close>, \<open>wrq_answer\<close>, \<open>client_rrq_answer\<close>, \<dots>) whose state holds the local variables of
  the C function.  The loops run it to its end and are total, by a measure of the file still
  unread, the answers still to come and the retries left.  The locale \<open>handler\<close> states what a step
  may do to streams and descriptors, and proves resources, termination under a timeout and the
  number of datagrams once for all loops; \<open>receiver\<close> extends it for the loops that store a file.
  Both are interpreted on every loop of the code.  \<open>TFTP_Server.c\<close> runs its handlers in threads that
  share one socket: \<open>mt_step\<close> interleaves main loop and threads at the receives, where they compete
  for datagrams.  The code between two receives is one step: threads share no stream and no
  buffer there, though two of them may work on the same file.  A call that waits for ever is
  \<open>Blocked\<close>, an access outside an object or through NULL is \<open>Undefined\<close>.  Whether plain \<open>char\<close> is
  signed is the parameter \<open>sc\<close>; what an uninitialised buffer holds is the parameter \<open>stack\<close>.  The
  functions \<open>send_ack\<close> and \<open>send_error\<close>, which every program repeats, are modelled once.

  \<^bold>\<open>Bounds.\<close>  No definition uses fuel.  Pool sizes are list lengths: two transports as in the code,
  \<open>TFTP_MAX_TRANSFERS\<close> transfers, files and timers.  Block numbers are words of 16 bits in the modular
  server, where the delivery theorems hold for files of any length; the older programs count in
  \<open>int\<close>, where the limits of \<open>char\<close> stop a transfer long before 32 bits matter (\<open>number_limit\<close>).

  \<^bold>\<open>Not modelled.\<close>
  \<^item> Diagnostics (\<open>printf\<close>, \<open>perror\<close>, \<open>fflush\<close>) have no effect on the state and are left out.
  \<^item> \<open>app/main.c\<close> and \<open>tftp_config.h\<close> are not part of the repository: \<open>TFTP_MAX_TRANSFERS\<close> and
    \<open>TFTP_MAX_FILENAME_LENGTH\<close> are the parameters of \<open>tftp_config\<close>.
  \<^item> The client functions beyond its life cycle are declared but not implemented.
  \<^item> Byte-order conversions of addresses: \<open>sockaddr_in\<close> holds the numbers themselves.
  \<^item> Uninitialised local variables of the modular code are zeros, but for the array of
    \<open>reactor_run_once\<close>, which is the parameter \<open>stack\<close> since its content matters.
  \<^item> The keypad exercise under \<open>src/legacy\<close> does not build; tests, build rules and prose.
\<close>

end
